(* ===== verification/Prelude_Go.thy ===== *)
theory Prelude_Go
  imports Main "HOL-Library.Word" "HOL-Library.Monad_Syntax"
begin

unbundle bit_operations_syntax

text \<open>
  What the component theories share: Go's fixed-width integers as words, byte
  slices as lists of bytes, the big-endian codecs of \<^verbatim>\<open>encoding/binary\<close>, ASCII
  lower-casing, and the lemmas on them.  Two uses of \<^typ>\<open>'a option\<close> are kept
  apart by name: a nil pointer or nil slice is \<^term>\<open>None\<close> of the value's type,
  and a computation of type \<^verbatim>\<open>'a go\<close> is \<^term>\<open>None\<close> where the Go code panics
  (an index out of range), so that "never panics" is a statement of the model.
  An \<^verbatim>\<open>error\<close> result is the left summand of a sum.
\<close>

subsection \<open>Types\<close>

type_synonym byte = "8 word"
type_synonym bytes = "byte list"
type_synonym uint8 = "8 word"
type_synonym uint16 = "16 word"
type_synonym uint32 = "32 word"
type_synonym uint64 = "64 word"
type_synonym 'a go = "'a option"

named_theorems go_simps \<open>evaluation rules of the modelled Go library functions\<close>
named_theorems codec_simps \<open>round trips of the byte codecs\<close>
named_theorems inv_intros \<open>preservation of the component invariants\<close>

text \<open>Indexing a slice panics out of range.\<close>

definition go_index :: "'a list \<Rightarrow> nat \<Rightarrow> 'a go" where
  "go_index xs i = (if i < length xs then Some (xs ! i) else None)"

text \<open>\<^verbatim>\<open>copy(dst, src)\<close>: overwrites the first \<^verbatim>\<open>min(len)\<close> elements of the destination.\<close>

definition go_copy :: "'a list \<Rightarrow> 'a list \<Rightarrow> 'a list" where
  "go_copy dst src = take (length dst) src @ drop (length src) dst"

subsection \<open>Big-endian integers\<close>

definition put_uint16 :: "uint16 \<Rightarrow> bytes" where
  "put_uint16 w = [ucast (drop_bit 8 w), ucast w]"

definition put_uint32 :: "uint32 \<Rightarrow> bytes" where
  "put_uint32 w = put_uint16 (ucast (drop_bit 16 w)) @ put_uint16 (ucast w)"

definition put_uint64 :: "uint64 \<Rightarrow> bytes" where
  "put_uint64 w = put_uint32 (ucast (drop_bit 32 w)) @ put_uint32 (ucast w)"

text \<open>The readers panic on a slice that is too short.\<close>

fun get_uint16 :: "bytes \<Rightarrow> uint16 go" where
  "get_uint16 (a # b # _) = Some (push_bit 8 (ucast a) OR ucast b)"
| "get_uint16 _ = None"

definition get_uint32 :: "bytes \<Rightarrow> uint32 go" where
  "get_uint32 bs = do { hi \<leftarrow> get_uint16 bs; lo \<leftarrow> get_uint16 (drop 2 bs);
     Some (push_bit 16 (ucast hi) OR ucast lo) }"

definition get_uint64 :: "bytes \<Rightarrow> uint64 go" where
  "get_uint64 bs = do { hi \<leftarrow> get_uint32 bs; lo \<leftarrow> get_uint32 (drop 4 bs);
     Some (push_bit 32 (ucast hi) OR ucast lo) }"

subsection \<open>Strings\<close>

text \<open>
  Go strings are byte sequences; domain names reach this code in presentation
  format, which is ASCII, so \<^verbatim>\<open>strings.ToLower\<close> is the ASCII mapping.
\<close>

definition char_lower :: "char \<Rightarrow> char" where
  "char_lower c = (if 65 \<le> (of_char c :: nat) \<and> (of_char c :: nat) \<le> 90
     then char_of ((of_char c :: nat) + 32) else c)"

definition to_lower :: "string \<Rightarrow> string" where
  "to_lower s = map char_lower s"

definition bytes_of :: "string \<Rightarrow> bytes" where
  "bytes_of s = map (\<lambda>c. word_of_nat (of_char c)) s"

definition string_of :: "bytes \<Rightarrow> string" where
  "string_of b = map (\<lambda>x. char_of (unat x)) b"

subsection \<open>Lemmas on slices\<close>

lemma go_index_0 [go_simps]: "go_index (x # xs) 0 = Some x"
  by (simp add: go_index_def)

lemma go_index_None_iff: "go_index xs i = None \<longleftrightarrow> length xs \<le> i"
  by (simp add: go_index_def)

lemma length_go_copy [simp]: "length (go_copy dst src) = length dst"
  by (simp add: go_copy_def)

lemma go_copy_same_length [go_simps]:
  "length src = length dst \<Longrightarrow> go_copy dst src = src"
  by (simp add: go_copy_def)

lemma length_1_conv: "length xs = Suc 0 \<longleftrightarrow> (\<exists>x. xs = [x])"
  by (cases xs) auto

lemma length_filter_eq_iff: "length (filter P xs) = length xs \<longleftrightarrow> (\<forall>x \<in> set xs. P x)"
proof (induction xs)
  case (Cons x xs)
  have "length (filter P xs) \<noteq> Suc (length xs)" using length_filter_le [of P xs] by linarith
  with Cons show ?case by auto
qed simp

subsection \<open>Lemmas on the codecs\<close>

lemma length_put_uint [simp]:
  "length (put_uint16 v) = 2" "length (put_uint32 w) = 4" "length (put_uint64 x) = 8"
  by (simp_all add: put_uint16_def put_uint32_def put_uint64_def)

lemma get_put_uint16 [simp, codec_simps]: "get_uint16 (put_uint16 w @ r) = Some w"
  by (auto simp: put_uint16_def intro!: bit_word_eqI simp: bit_simps)

lemma get_put_uint32 [simp, codec_simps]: "get_uint32 (put_uint32 w @ r) = Some w"
proof -
  have "drop 2 (put_uint32 w @ r) = put_uint16 (ucast w) @ r"
    by (simp add: put_uint32_def)
  then show ?thesis
    by (simp add: get_uint32_def put_uint32_def)
       (auto intro!: bit_word_eqI simp: bit_simps)
qed

lemma get_put_uint64 [simp, codec_simps]: "get_uint64 (put_uint64 w @ r) = Some w"
proof -
  have "drop 4 (put_uint64 w @ r) = put_uint32 (ucast w) @ r"
    by (simp add: put_uint64_def)
  then show ?thesis
    by (simp add: get_uint64_def put_uint64_def)
       (auto intro!: bit_word_eqI simp: bit_simps)
qed

lemma put_uint16_inject [simp]: "put_uint16 v = put_uint16 w \<longleftrightarrow> v = w"
  by (metis append_Nil2 get_put_uint16 option.inject)

lemma get_uint16_None_iff: "get_uint16 bs = None \<longleftrightarrow> length bs < 2"
  by (cases bs rule: get_uint16.cases) auto

lemma get_uint32_None_iff: "get_uint32 bs = None \<longleftrightarrow> length bs < 4"
  by (auto simp: get_uint32_def bind_eq_None_conv get_uint16_None_iff)

lemma get_uint64_None_iff: "get_uint64 bs = None \<longleftrightarrow> length bs < 8"
  by (auto simp: get_uint64_def bind_eq_None_conv get_uint32_None_iff)

lemma get_uint16_take: "2 \<le> n \<Longrightarrow> get_uint16 (take n bs) = get_uint16 bs"
proof -
  assume "2 \<le> n"
  then have "n = Suc (Suc (n - 2))" by simp
  then obtain m where "n = Suc (Suc m)" by blast
  then show ?thesis by (cases bs rule: get_uint16.cases) auto
qed

lemma get_uint32_take: "4 \<le> n \<Longrightarrow> get_uint32 (take n bs) = get_uint32 bs"
  by (simp add: get_uint32_def get_uint16_take drop_take)

lemma get_uint64_take: "8 \<le> n \<Longrightarrow> get_uint64 (take n bs) = get_uint64 bs"
  by (simp add: get_uint64_def get_uint32_take drop_take)

subsection \<open>Lemmas on strings\<close>

lemma string_of_bytes_of [simp, codec_simps]: "string_of (bytes_of s) = s"
proof -
  have "char_of (unat (word_of_nat (of_char c) :: byte)) = c" for c
    by (simp add: unat_of_nat)
  then show ?thesis by (simp add: string_of_def bytes_of_def o_def map_idI)
qed

lemma bytes_of_inject [simp]: "bytes_of s = bytes_of t \<longleftrightarrow> s = t"
  by (metis string_of_bytes_of)

lemma length_bytes_of [simp]: "length (bytes_of s) = length s"
  by (simp add: bytes_of_def)

lemma length_to_lower [simp]: "length (to_lower s) = length s"
  by (simp add: to_lower_def)

lemma of_char_lower:
  "of_char (char_lower c) =
     (if 65 \<le> (of_char c :: nat) \<and> (of_char c :: nat) \<le> 90 then of_char c + 32 else of_char c :: nat)"
  by (simp add: char_lower_def)

text \<open>Lower-casing neither yields nor loses a character that is not a letter.\<close>

lemma char_lower_eq_iff:
  assumes "(of_char d :: nat) < 65"
  shows "char_lower c = d \<longleftrightarrow> c = d"
proof
  assume "char_lower c = d"
  with assms have "(of_char (char_lower c) :: nat) < 65" by simp
  then have "char_lower c = c" by (simp add: of_char_lower char_lower_def split: if_splits)
  with \<open>char_lower c = d\<close> show "c = d" by simp
next
  assume "c = d"
  with assms show "char_lower c = d" by (simp add: char_lower_def)
qed

lemma char_lower_idem [simp]: "char_lower (char_lower c) = char_lower c"
  by (auto simp: char_lower_def)

lemma to_lower_idem [simp]: "to_lower (to_lower s) = to_lower s"
  by (simp add: to_lower_def)

subsection \<open>Signed 64-bit values\<close>

lemma sint_word_of_int_64:
  assumes "- (2 ^ 63) \<le> k" "k < 2 ^ 63" shows "sint (word_of_int k :: uint64) = k"
proof -
  have "sint (word_of_int k :: uint64) = signed_take_bit (LENGTH(64) - 1) k" by (rule sint_sbintrunc')
  also have "LENGTH(64) - 1 = 63" by simp
  also have "signed_take_bit 63 k = k" using assms by (rule signed_take_bit_int_eq_self)
  finally show ?thesis .
qed

lemma uint32_lt: "uint (w :: uint32) < 4294967296"
  using uint_lt2p [of w] by simp

end
