(* ===== verification/Go_Net.thy ===== *)
theory Go_Net
  imports Prelude_Go
begin

text \<open>
  The parts of the standard library's \<^verbatim>\<open>net\<close> package that the proxy computes
  with: \<^verbatim>\<open>net.IP\<close> and \<^verbatim>\<open>net.IPMask\<close> are byte slices whose nil value is
  \<^term>\<open>None\<close>, \<^verbatim>\<open>To4\<close>, \<^verbatim>\<open>To16\<close>, \<^verbatim>\<open>IP.Mask\<close>, \<^verbatim>\<open>IP.Equal\<close>, \<^verbatim>\<open>CIDRMask\<close> and
  \<^verbatim>\<open>IPMask.Size\<close>.  The lemmas describe masking by prefix length, which the
  subnet cache relies on.
\<close>

subsection \<open>Definitions\<close>

type_synonym ip = "bytes option"

record IPNet =
  net_IP :: ip
  net_Mask :: ip

definition v4InV6Prefix :: bytes where
  "v4InV6Prefix = replicate 10 0 @ [0xff, 0xff]"

definition ip_bytes :: "ip \<Rightarrow> bytes" where
  "ip_bytes i = (case i of None \<Rightarrow> [] | Some b \<Rightarrow> b)"

definition To4 :: "ip \<Rightarrow> ip" where
  "To4 i = (let b = ip_bytes i in
     if length b = 4 then Some b
     else if length b = 16 \<and> take 12 b = v4InV6Prefix then Some (drop 12 b)
     else None)"

definition To16 :: "ip \<Rightarrow> ip" where
  "To16 i = (let b = ip_bytes i in
     if length b = 4 then Some (v4InV6Prefix @ b)
     else if length b = 16 then Some b
     else None)"

text \<open>One byte of a mask with \<^verbatim>\<open>n\<close> leading ones: \<^verbatim>\<open>^byte(0xff >> n)\<close>.\<close>

definition mask_byte :: "nat \<Rightarrow> byte" where
  "mask_byte n = NOT (drop_bit n 0xff)"

fun cidr_bytes :: "nat \<Rightarrow> nat \<Rightarrow> bytes" where
  "cidr_bytes n 0 = []"
| "cidr_bytes n (Suc l) =
     (if 8 \<le> n then 0xff # cidr_bytes (n - 8) l else mask_byte n # cidr_bytes 0 l)"

definition CIDRMask :: "int \<Rightarrow> nat \<Rightarrow> ip" where
  "CIDRMask ones bits =
     (if bits \<noteq> 32 \<and> bits \<noteq> 128 then None
      else if ones < 0 \<or> ones > int bits then None
      else Some (cidr_bytes (nat ones) (bits div 8)))"

text \<open>The number of leading ones of a byte, and \<^verbatim>\<open>-1\<close> when a one follows a zero.\<close>

fun lead_ones :: "nat \<Rightarrow> byte \<Rightarrow> nat \<Rightarrow> nat \<times> byte" where
  "lead_ones 0 v n = (n, v)"
| "lead_ones (Suc f) v n =
     (if v AND 0x80 \<noteq> 0 then lead_ones f (push_bit 1 v) (Suc n) else (n, v))"

fun simpleMaskLength :: "bytes \<Rightarrow> nat \<Rightarrow> nat option" where
  "simpleMaskLength [] n = Some n"
| "simpleMaskLength (v # vs) n =
     (if v = 0xff then simpleMaskLength vs (n + 8)
      else let (n', v') = lead_ones 8 v n in
        if v' \<noteq> 0 \<or> (\<exists>x \<in> set vs. x \<noteq> 0) then None else Some n')"

definition mask_Size :: "ip \<Rightarrow> nat \<times> nat" where
  "mask_Size m = (case simpleMaskLength (ip_bytes m) 0 of
     None \<Rightarrow> (0, 0) | Some n \<Rightarrow> (n, 8 * length (ip_bytes m)))"

definition ip_Mask :: "ip \<Rightarrow> ip \<Rightarrow> ip" where
  "ip_Mask i m =
     (let mb = ip_bytes m; ib = ip_bytes i;
          mb' = (if length mb = 16 \<and> length ib = 4 \<and> list_all (\<lambda>x. x = 0xff) (take 12 mb)
                 then drop 12 mb else mb);
          ib' = (if length mb' = 4 \<and> length ib = 16 \<and> take 12 ib = v4InV6Prefix
                 then drop 12 ib else ib)
      in if length ib' \<noteq> length mb' then None else Some (map2 (AND) ib' mb'))"

definition ip_Equal :: "ip \<Rightarrow> ip \<Rightarrow> bool" where
  "ip_Equal i j =
     (let a = ip_bytes i; b = ip_bytes j in
      if length a = length b then a = b
      else if length a = 4 \<and> length b = 16 then take 12 b = v4InV6Prefix \<and> a = drop 12 b
      else if length a = 16 \<and> length b = 4 then take 12 a = v4InV6Prefix \<and> drop 12 a = b
      else False)"

text \<open>The address with everything after the first \<^verbatim>\<open>n\<close> bits cleared.\<close>

definition mask_bytes :: "nat \<Rightarrow> bytes \<Rightarrow> bytes" where
  "mask_bytes n b = map2 (AND) b (cidr_bytes n (length b))"

subsection \<open>Masks by prefix length\<close>

lemma length_cidr_bytes [simp]: "length (cidr_bytes n l) = l"
  by (induction n l rule: cidr_bytes.induct) auto

lemma length_mask_bytes [simp]: "length (mask_bytes n b) = length b"
  by (simp add: mask_bytes_def)

lemma byte_ff: "(0xff :: byte) = - 1"
  by simp

lemma mask_byte_bit: "k < 8 \<Longrightarrow> bit (mask_byte n) k \<longleftrightarrow> 8 \<le> n + k"
  unfolding mask_byte_def byte_ff by (auto simp: bit_simps)

lemma mask_byte_0 [simp]: "mask_byte 0 = 0"
  by (rule bit_word_eqI) (simp add: mask_byte_bit)

lemma mask_byte_ff [simp]: "8 \<le> n \<Longrightarrow> mask_byte n = 0xff"
  unfolding byte_ff by (rule bit_word_eqI) (simp add: mask_byte_bit)

lemma cidr_bytes_nth: "i < l \<Longrightarrow> cidr_bytes n l ! i = mask_byte (n - 8 * i)"
proof (induction n l arbitrary: i rule: cidr_bytes.induct)
  case (2 n l)
  then show ?case by (cases i) (auto simp: diff_diff_left)
qed simp

lemma mask_bytes_nth: "i < length b \<Longrightarrow> mask_bytes n b ! i = b ! i AND mask_byte (n - 8 * i)"
  by (simp add: mask_bytes_def cidr_bytes_nth)

lemma mask_bytes_bit:
  assumes "i < length b" "k < 8"
  shows "bit (mask_bytes n b ! i) k \<longleftrightarrow> bit (b ! i) k \<and> 8 * i + (7 - k) < n"
  using assms by (auto simp: mask_bytes_nth bit_simps mask_byte_bit)

lemma bytes_eqI:
  fixes a b :: bytes
  assumes "length a = length b" "\<And>i k. i < length b \<Longrightarrow> k < 8 \<Longrightarrow> bit (a ! i) k = bit (b ! i) k"
  shows "a = b"
  using assms by (auto intro!: nth_equalityI bit_word_eqI)

lemma mask_bytes_mask_bytes [simp]: "mask_bytes m (mask_bytes n b) = mask_bytes (min m n) b"
  by (rule bytes_eqI) (auto simp: mask_bytes_bit)

lemma mask_bytes_0: "mask_bytes 0 b = replicate (length b) 0"
  by (rule bytes_eqI) (auto simp: mask_bytes_bit)

lemma bit_position:
  fixes i k m :: nat
  assumes "k < 8"
  shows "8 * i + (7 - k) = m \<longleftrightarrow> i = m div 8 \<and> k = 7 - m mod 8"
proof
  assume "8 * i + (7 - k) = m"
  then have m: "m = 8 * i + (7 - k)" by simp
  have "7 - k < 8" by simp
  then have "m div 8 = i" "m mod 8 = 7 - k" by (auto simp: m div_add1_eq)
  with assms show "i = m div 8 \<and> k = 7 - m mod 8" by simp
next
  assume "i = m div 8 \<and> k = 7 - m mod 8"
  moreover have "m mod 8 < 8" by simp
  ultimately have "7 - k = m mod 8" "i = m div 8" by linarith+
  then show "8 * i + (7 - k) = m" by simp
qed

text \<open>Going from \<^verbatim>\<open>/m+1\<close> to \<^verbatim>\<open>/m\<close> clears exactly one bit of the masked address.\<close>

lemma mask_bytes_step:
  assumes "m < 8 * length b"
  shows "mask_bytes m b =
    (mask_bytes (Suc m) b)[m div 8 :=
       mask_bytes (Suc m) b ! (m div 8) AND NOT (push_bit (7 - m mod 8) 1)]"
proof (rule bytes_eqI, goal_cases)
  case (2 i k)
  have "8 * i + (7 - k) < m \<longleftrightarrow> 8 * i + (7 - k) < Suc m \<and> \<not> (i = m div 8 \<and> k = 7 - m mod 8)"
    using bit_position [of k i m] 2 by (auto simp: less_Suc_eq)
  with 2 show ?case
    by (cases "i = m div 8") (auto simp: mask_bytes_bit bit_simps)
qed simp

subsection \<open>Prefix lengths of masks\<close>

lemma and_0x80: "v AND 0x80 \<noteq> 0 \<longleftrightarrow> bit v 7" for v :: byte
  using bit_iff_and_push_bit_not_eq_0 [of v 7] by simp

lemma bit_shl_byte: "bit (v * 2) k \<longleftrightarrow> 0 < k \<and> k < 8 \<and> bit v (k - 1)" for v :: byte
  using bit_double_iff [of v k] by (auto simp: mult.commute [of v] possible_bit_word)

lemma lead_ones_spec:
  assumes "lead_ones f v n = (n', v')"
  shows "n \<le> n' \<and> n' \<le> n + f \<and> v' = push_bit (n' - n) v \<and> (\<forall>i < n' - n. i < 8 \<longrightarrow> bit v (7 - i))"
  using assms
proof (induction f v n rule: lead_ones.induct)
  case (2 f v n)
  show ?case
  proof (cases "bit v 7")
    case True
    with 2 have *: "Suc n \<le> n'" "n' \<le> Suc n + f" "v' = push_bit (n' - Suc n) (push_bit 1 v)"
      "\<forall>i < n' - Suc n. i < 8 \<longrightarrow> bit (push_bit 1 v) (7 - i)"
      by (auto simp: and_0x80)
    have "bit v (7 - i)" if "i < n' - n" "i < 8" for i
      using that True *(4)[rule_format, of "i - 1"] by (cases i) (auto simp: bit_shl_byte)
    moreover have "n' - n = Suc (n' - Suc n)" using *(1) by simp
    ultimately show ?thesis using * by (auto simp: push_bit_Suc)
  qed (use 2 in \<open>simp add: and_0x80\<close>)
qed simp

lemma simpleMaskLength_cidr:
  "simpleMaskLength mb n = Some n' \<Longrightarrow>
     n \<le> n' \<and> n' \<le> n + 8 * length mb \<and> mb = cidr_bytes (n' - n) (length mb)"
proof (induction mb n arbitrary: n' rule: simpleMaskLength.induct)
  case (2 v vs n)
  show ?case
  proof (cases "v = 0xff")
    case True
    with 2 show ?thesis by fastforce
  next
    case False
    obtain k w where kw: "lead_ones 8 v n = (k, w)" by force
    with 2 False have w: "w = 0" "\<forall>x \<in> set vs. x = 0" "n' = k"
      by (auto simp: Let_def split: if_splits)
    note sp = lead_ones_spec [OF kw]
    have "k - n < 8"
    proof (rule ccontr)
      assume "\<not> k - n < 8"
      with sp have all: "\<forall>i < 8. bit v (7 - i)" by auto
      have "bit v j" if "j < 8" for j
        using all [rule_format, of "7 - j"] that by simp
      then have "v = 0xff" unfolding byte_ff by (intro bit_word_eqI) simp
      with False show False by simp
    qed
    have "v = mask_byte (k - n)"
    proof (rule bit_word_eqI)
      fix j assume "j < LENGTH(8)"
      then have j: "j < 8" by simp
      have low: "\<not> bit v j" if "j < 8 - (k - n)"
      proof -
        have "\<not> bit (push_bit (k - n) v) (j + (k - n))" using sp w by simp
        with that show ?thesis by (simp add: bit_push_bit_iff)
      qed
      have high: "bit v j" if "8 \<le> k - n + j"
      proof -
        have "7 - j < k - n" using that j by simp
        then have "bit v (7 - (7 - j))" using sp by simp
        with j show ?thesis by simp
      qed
      show "bit v j = bit (mask_byte (k - n)) j"
        using j low high by (cases "8 \<le> k - n + j") (auto simp: mask_byte_bit)
    qed
    moreover have "vs = cidr_bytes 0 (length vs)"
      using w(2) by (intro nth_equalityI) (auto simp: cidr_bytes_nth)
    ultimately show ?thesis using sp w \<open>k - n < 8\<close> by auto
  qed
qed simp

lemma ip_bytes_simps [simp]: "ip_bytes None = []" "ip_bytes (Some b) = b"
  by (simp_all add: ip_bytes_def)

lemma mask_SizeD:
  assumes "mask_Size m = (n, bits)" "bits \<noteq> 0"
  shows "ip_bytes m = cidr_bytes n (length (ip_bytes m))" "bits = 8 * length (ip_bytes m)" "n \<le> bits"
  using assms simpleMaskLength_cidr [of "ip_bytes m" 0]
  by (auto simp: mask_Size_def split: option.splits)

lemma lead_ones_run:
  "n < f \<Longrightarrow> n < 8 \<Longrightarrow> \<forall>i < n. bit v (7 - i) \<Longrightarrow> \<not> bit v (7 - n) \<Longrightarrow>
     lead_ones f v a = (a + n, push_bit n v)"
proof (induction n arbitrary: f v a)
  case 0
  then show ?case by (cases f) (auto simp: and_0x80)
next
  case (Suc n)
  obtain g where g: "f = Suc g" using Suc.prems by (cases f) auto
  have "bit v 7" using Suc.prems by force
  have "\<forall>i < n. bit (v * 2) (7 - i)"
  proof (intro allI impI)
    fix i assume "i < n"
    then show "bit (v * 2) (7 - i)"
      using Suc.prems(2) Suc.prems(3) [rule_format, of "Suc i"] by (simp add: bit_shl_byte)
  qed
  moreover have "\<not> bit (v * 2) (7 - n)"
    using Suc.prems(2,4) by (simp add: bit_shl_byte)
  ultimately show ?case
    using Suc.IH [of g "v * 2" "Suc a"] Suc.prems \<open>bit v 7\<close> by (simp add: g and_0x80)
qed

lemma lead_ones_mask_byte:
  assumes "n < 8" shows "lead_ones 8 (mask_byte n) a = (a + n, 0)"
proof -
  have "push_bit n (mask_byte n) = 0"
    by (rule bit_word_eqI) (auto simp: bit_push_bit_iff mask_byte_bit)
  then show ?thesis
    using lead_ones_run [of n 8 "mask_byte n" a] assms by (force simp: mask_byte_bit)
qed

lemma mask_byte_neq_ff: "n < 8 \<Longrightarrow> mask_byte n \<noteq> 0xff"
  using mask_byte_bit [of 0 n] unfolding byte_ff by auto

lemma simpleMaskLength_cidr_bytes:
  "n \<le> 8 * l \<Longrightarrow> simpleMaskLength (cidr_bytes n l) a = Some (a + n)"
proof (induction n l arbitrary: a rule: cidr_bytes.induct)
  case (2 n l)
  have "\<forall>x \<in> set (cidr_bytes 0 l). x = 0"
    by (auto simp: in_set_conv_nth cidr_bytes_nth)
  with 2 show ?case
    by (auto simp: lead_ones_mask_byte mask_byte_neq_ff simp del: lead_ones.simps)
qed simp

lemma mask_Size_CIDRMask [go_simps]:
  "bits = 32 \<or> bits = 128 \<Longrightarrow> n \<le> bits \<Longrightarrow> mask_Size (CIDRMask (int n) bits) = (n, bits)"
  by (auto simp: mask_Size_def CIDRMask_def simpleMaskLength_cidr_bytes)

lemma ip_Mask_cidr [go_simps]:
  "ip_Mask (Some b) (Some (cidr_bytes n (length b))) = Some (mask_bytes n b)"
  by (auto simp: ip_Mask_def mask_bytes_def Let_def)

lemma length_To4: "To4 i = Some b \<Longrightarrow> length b = 4"
  by (auto simp: To4_def Let_def split: if_splits)

lemma length_To16: "To16 i = Some b \<Longrightarrow> length b = 16"
  by (auto simp: To16_def Let_def v4InV6Prefix_def split: if_splits)

end
