(* ===== verification/Dns_Msg.thy ===== *)
theory Dns_Msg
  imports Go_Net
begin

text \<open>
  The message type of the DNS library as the proxy's code reads and writes it,
  the library's operations as a record of functions (\<^verbatim>\<open>dnslib\<close>) with their
  documented behaviour as predicates, and the code of
  \<^verbatim>\<open>internal/dnsmsg/constructor.go\<close> and \<^verbatim>\<open>proxyutil/dns.go\<close> over them.
  A pointer to an OPT record of a message is its index in the additional
  section, so that a write through it is an update of that section.
\<close>

subsection \<open>Messages\<close>

record RR_Header =
  h_Name :: string
  h_Rrtype :: uint16
  h_Class :: uint16
  h_Ttl :: uint32

record EDNS0_SUBNET =
  sn_Family :: uint16
  sn_SourceNetmask :: uint8
  sn_SourceScope :: uint8
  sn_Address :: ip

datatype EDNS0 = Subnet EDNS0_SUBNET | OtherOption uint16 bytes

record SOA =
  soa_Ns :: string
  soa_Mbox :: string
  soa_Serial :: uint32
  soa_Refresh :: uint32
  soa_Retry :: uint32
  soa_Expire :: uint32
  soa_Minttl :: uint32

datatype rdata =
    RD_A ip
  | RD_AAAA ip
  | RD_PTR string
  | RD_TXT "string list"
  | RD_SOA SOA
  | RD_OPT "EDNS0 list"
  | RD_Other bytes

record RR =
  rr_Hdr :: RR_Header
  rr_Data :: rdata

record Question =
  q_Name :: string
  q_Qtype :: uint16
  q_Qclass :: uint16

record Msg =
  m_Id :: uint16
  m_Response :: bool
  m_Opcode :: nat
  m_Authoritative :: bool
  m_Truncated :: bool
  m_RecursionDesired :: bool
  m_RecursionAvailable :: bool
  m_AuthenticatedData :: bool
  m_CheckingDisabled :: bool
  m_Rcode :: nat
  m_Compress :: bool
  m_Question :: "Question list"
  m_Answer :: "RR list"
  m_Ns :: "RR list"
  m_Extra :: "RR list"

definition empty_Msg :: Msg where
  "empty_Msg = \<lparr> m_Id = 0, m_Response = False, m_Opcode = 0, m_Authoritative = False,
     m_Truncated = False, m_RecursionDesired = False, m_RecursionAvailable = False,
     m_AuthenticatedData = False, m_CheckingDisabled = False, m_Rcode = 0, m_Compress = False,
     m_Question = [], m_Answer = [], m_Ns = [], m_Extra = [] \<rparr>"

abbreviation rr_Rrtype :: "RR \<Rightarrow> uint16" where
  "rr_Rrtype r \<equiv> h_Rrtype (rr_Hdr r)"

abbreviation rr_Ttl :: "RR \<Rightarrow> uint32" where
  "rr_Ttl r \<equiv> h_Ttl (rr_Hdr r)"

definition set_rr_Ttl :: "uint32 \<Rightarrow> RR \<Rightarrow> RR" where
  "set_rr_Ttl t r = r\<lparr>rr_Hdr := (rr_Hdr r)\<lparr>h_Ttl := t\<rparr>\<rparr>"

text \<open>Wire constants (RFC 1035, 2671, 4034, 5155, 8484).\<close>

abbreviation (input) "TypeNone \<equiv> (0 :: uint16)"
abbreviation (input) "TypeA \<equiv> (1 :: uint16)"
abbreviation (input) "TypeNS \<equiv> (2 :: uint16)"
abbreviation (input) "TypeCNAME \<equiv> (5 :: uint16)"
abbreviation (input) "TypeSOA \<equiv> (6 :: uint16)"
abbreviation (input) "TypePTR \<equiv> (12 :: uint16)"
abbreviation (input) "TypeTXT \<equiv> (16 :: uint16)"
abbreviation (input) "TypeSIG \<equiv> (24 :: uint16)"
abbreviation (input) "TypeAAAA \<equiv> (28 :: uint16)"
abbreviation (input) "TypeOPT \<equiv> (41 :: uint16)"
abbreviation (input) "TypeDS \<equiv> (43 :: uint16)"
abbreviation (input) "TypeRRSIG \<equiv> (46 :: uint16)"
abbreviation (input) "TypeNSEC \<equiv> (47 :: uint16)"
abbreviation (input) "TypeDNSKEY \<equiv> (48 :: uint16)"
abbreviation (input) "TypeNSEC3 \<equiv> (50 :: uint16)"
abbreviation (input) "TypeANY \<equiv> (255 :: uint16)"
abbreviation (input) "ClassINET \<equiv> (1 :: uint16)"
abbreviation (input) "RcodeSuccess \<equiv> (0 :: nat)"
abbreviation (input) "RcodeFormatError \<equiv> (1 :: nat)"
abbreviation (input) "RcodeServerFailure \<equiv> (2 :: nat)"
abbreviation (input) "RcodeNameError \<equiv> (3 :: nat)"
abbreviation (input) "RcodeNotImplemented \<equiv> (4 :: nat)"
abbreviation (input) "RcodeRefused \<equiv> (5 :: nat)"

subsection \<open>The message library as a parameter\<close>

record dnslib =
  lib_IsEdns0 :: "Msg \<Rightarrow> nat option"
  lib_Do :: "RR \<Rightarrow> bool"
  lib_SetDo :: "RR \<Rightarrow> RR"
  lib_UDPSize :: "RR \<Rightarrow> uint16"
  lib_SetUDPSize :: "uint16 \<Rightarrow> RR \<Rightarrow> RR"
  lib_SetEdns0 :: "uint16 \<Rightarrow> bool \<Rightarrow> Msg \<Rightarrow> Msg"
  lib_SetReply :: "Msg \<Rightarrow> Msg \<Rightarrow> Msg"
  lib_SetRcode :: "Msg \<Rightarrow> nat \<Rightarrow> Msg"
  lib_Pack :: "Msg \<Rightarrow> bytes option"
  lib_Unpack :: "bytes \<Rightarrow> Msg option"
  lib_Truncate :: "nat \<Rightarrow> Msg \<Rightarrow> Msg"
  lib_Fqdn :: "string \<Rightarrow> string"

text \<open>
  \<^verbatim>\<open>IsEdns0\<close>: "checks if the message has a EDNS0 (OPT) record, any EDNS0 record
  in the additional section will do".
\<close>

definition lib_edns_law :: "dnslib \<Rightarrow> bool" where
  "lib_edns_law L \<longleftrightarrow> (\<forall>m. case lib_IsEdns0 L m of
      None \<Rightarrow> \<forall>r \<in> set (m_Extra m). rr_Rrtype r \<noteq> TypeOPT
    | Some i \<Rightarrow> i < length (m_Extra m) \<and> rr_Rrtype (m_Extra m ! i) = TypeOPT)"

text \<open>
  \<^verbatim>\<open>m.SetReply(req)\<close> "creates a reply message from a request message": it takes over the
  identifier and the first question, sets the response bit and the code NOERROR, and leaves the
  records of \<^verbatim>\<open>m\<close>.  \<^verbatim>\<open>SetRcode\<close> "creates an error message suitable for the request" and is only
  called on a fresh message.
\<close>

definition lib_reply_law :: "dnslib \<Rightarrow> bool" where
  "lib_reply_law L \<longleftrightarrow>
     (\<forall>m req. m_Id (lib_SetReply L m req) = m_Id req \<and> m_Response (lib_SetReply L m req) \<and>
        m_Rcode (lib_SetReply L m req) = RcodeSuccess \<and>
        m_Question (lib_SetReply L m req) =
          (if m_Question req = [] then m_Question m else take 1 (m_Question req)) \<and>
        m_Answer (lib_SetReply L m req) = m_Answer m \<and> m_Ns (lib_SetReply L m req) = m_Ns m \<and>
        m_Extra (lib_SetReply L m req) = m_Extra m) \<and>
     (\<forall>req code. lib_SetRcode L req code = (lib_SetReply L empty_Msg req)\<lparr>m_Rcode := code\<rparr>)"

text \<open>
  \<^verbatim>\<open>SetEdns0\<close> "appends a EDNS0 OPT RR to the message"; the other fields of the
  message stay.
\<close>

definition lib_SetEdns0_law :: "dnslib \<Rightarrow> bool" where
  "lib_SetEdns0_law L \<longleftrightarrow> (\<forall>sz dobit m. \<exists>o'. rr_Rrtype o' = TypeOPT \<and>
     lib_UDPSize L o' = sz \<and> lib_Do L o' = dobit \<and>
     lib_SetEdns0 L sz dobit m = m\<lparr>m_Extra := m_Extra m @ [o']\<rparr>)"

definition rd_options :: "RR \<Rightarrow> EDNS0 list" where
  "rd_options r = (case rr_Data r of RD_OPT os \<Rightarrow> os | _ \<Rightarrow> [])"

definition msg_Do :: "dnslib \<Rightarrow> Msg \<Rightarrow> bool" where
  "msg_Do L m = (case lib_IsEdns0 L m of None \<Rightarrow> False | Some i \<Rightarrow> lib_Do L (m_Extra m ! i))"

subsection \<open>proxyutil/dns.go\<close>

datatype Addr = AddrZero | Addr4 bytes | Addr6 bytes

text \<open>\<^verbatim>\<open>netip.AddrFromSlice\<close>; the zero address when the slice has another length.\<close>

definition AddrFromSlice :: "bytes \<Rightarrow> Addr" where
  "AddrFromSlice b = (if length b = 4 then Addr4 b else if length b = 16 then Addr6 b else AddrZero)"

definition LengthPrefix :: "int \<Rightarrow> bytes option" where
  "LengthPrefix n = (if n < 0 \<or> n > 65535 then None else Some (put_uint16 (word_of_int n)))"

definition IPFromRR :: "RR \<Rightarrow> Addr" where
  "IPFromRR rr = (case rr_Data rr of
      RD_A a \<Rightarrow> AddrFromSlice (ip_bytes (To4 a))
    | RD_AAAA a \<Rightarrow> AddrFromSlice (ip_bytes a)
    | _ \<Rightarrow> AddrZero)"

subsection \<open>internal/dnsmsg/constructor.go\<close>

definition reply :: "dnslib \<Rightarrow> Msg \<Rightarrow> nat \<Rightarrow> Msg" where
  "reply L req code = (lib_SetRcode L req code)\<lparr>m_RecursionAvailable := True\<rparr>"

definition NewMsgNXDOMAIN :: "dnslib \<Rightarrow> Msg \<Rightarrow> Msg" where
  "NewMsgNXDOMAIN L req = reply L req RcodeNameError"

definition NewMsgSERVFAIL :: "dnslib \<Rightarrow> Msg \<Rightarrow> Msg" where
  "NewMsgSERVFAIL L req = reply L req RcodeServerFailure"

definition NewMsgNOTIMPLEMENTED :: "dnslib \<Rightarrow> Msg \<Rightarrow> Msg" where
  "NewMsgNOTIMPLEMENTED L req =
     lib_SetEdns0 L 1452 False (reply L req RcodeNotImplemented)"

definition NewMsgNODATA :: "dnslib \<Rightarrow> Msg \<Rightarrow> Msg go" where
  "NewMsgNODATA L req = do {
     q \<leftarrow> go_index (m_Question req) 0;
     let resp = reply L req RcodeSuccess;
         zone = q_Name q;
         mbox = (if take 1 zone = ''.'' then ''hostmaster.'' else ''hostmaster.'' @ zone);
         soa = \<lparr> rr_Hdr = \<lparr> h_Name = zone, h_Rrtype = TypeSOA, h_Class = ClassINET, h_Ttl = 10 \<rparr>,
                 rr_Data = RD_SOA \<lparr> soa_Ns = ''fake-for-negative-caching.adguard.com.'',
                   soa_Mbox = mbox, soa_Serial = 100500, soa_Refresh = 1800, soa_Retry = 60,
                   soa_Expire = 604800, soa_Minttl = 86400 \<rparr> \<rparr>
     in Some (resp\<lparr>m_Ns := m_Ns resp @ [soa]\<rparr>) }"

definition NewMsgFORMERR :: "dnslib \<Rightarrow> Msg \<Rightarrow> Msg" where
  "NewMsgFORMERR L req = reply L req RcodeFormatError"

subsection \<open>The contract of a message constructor\<close>

text \<open>A message that answers a request: same identifier, response bit, same question.\<close>

definition answers :: "Msg \<Rightarrow> Msg \<Rightarrow> bool" where
  "answers req resp \<longleftrightarrow> m_Id resp = m_Id req \<and> m_Response resp \<and> m_Question resp = m_Question req"

text \<open>
  The interface \<^verbatim>\<open>MessageConstructor\<close>: on a valid request every method answers it,
  with its own response code and an empty answer section.
\<close>

locale message_constructor =
  fixes valid :: "Msg \<Rightarrow> bool"
    and nxdomain servfail notimplemented formerr :: "Msg \<Rightarrow> Msg"
    and nodata :: "Msg \<Rightarrow> Msg go"
  assumes nxdomain: "valid req \<Longrightarrow>
      answers req (nxdomain req) \<and> m_Rcode (nxdomain req) = RcodeNameError \<and> m_Answer (nxdomain req) = []"
    and servfail: "valid req \<Longrightarrow>
      answers req (servfail req) \<and> m_Rcode (servfail req) = RcodeServerFailure \<and> m_Answer (servfail req) = []"
    and notimplemented: "valid req \<Longrightarrow>
      answers req (notimplemented req) \<and> m_Rcode (notimplemented req) = RcodeNotImplemented \<and>
      m_Answer (notimplemented req) = []"
    and formerr: "valid req \<Longrightarrow>
      answers req (formerr req) \<and> m_Rcode (formerr req) = RcodeFormatError \<and> m_Answer (formerr req) = []"
    and nodata: "valid req \<Longrightarrow> \<exists>resp. nodata req = Some resp \<and>
      answers req resp \<and> m_Rcode resp = RcodeSuccess \<and> m_Answer resp = [] \<and>
      (\<exists>r \<in> set (m_Ns resp). rr_Rrtype r = TypeSOA)"
begin

lemma nodata_no_panic: "valid req \<Longrightarrow> nodata req \<noteq> None"
  using nodata by force

lemma constructed_answers:
  assumes "valid req" "resp \<in> {nxdomain req, servfail req, notimplemented req, formerr req} \<or> nodata req = Some resp"
  shows "answers req resp" "m_Answer resp = []"
  using assms nxdomain servfail notimplemented formerr nodata [OF assms(1)] by auto

end

lemma reply_fields:
  assumes "lib_reply_law L"
  shows "m_Id (reply L req code) = m_Id req" "m_Response (reply L req code)"
    "m_Rcode (reply L req code) = code" "m_Question (reply L req code) = take 1 (m_Question req)"
    "m_Answer (reply L req code) = []" "m_Ns (reply L req code) = []" "m_Extra (reply L req code) = []"
    "m_RecursionAvailable (reply L req code)"
  using assms by (auto simp: reply_def lib_reply_law_def empty_Msg_def)

lemma SetEdns0_other_fields:
  assumes "lib_SetEdns0_law L"
  obtains o' where "rr_Rrtype o' = TypeOPT" "lib_SetEdns0 L sz dobit m = m\<lparr>m_Extra := m_Extra m @ [o']\<rparr>"
  using assms unfolding lib_SetEdns0_law_def by meson

definition constructor_valid :: "dnslib \<Rightarrow> Msg \<Rightarrow> bool" where
  "constructor_valid L req \<longleftrightarrow> lib_reply_law L \<and> lib_SetEdns0_law L \<and> length (m_Question req) = 1"

lemmas constructor_defs = NewMsgNXDOMAIN_def NewMsgSERVFAIL_def NewMsgNOTIMPLEMENTED_def
  NewMsgNODATA_def NewMsgFORMERR_def

interpretation default_constructor: message_constructor "constructor_valid L"
  "NewMsgNXDOMAIN L" "NewMsgSERVFAIL L" "NewMsgNOTIMPLEMENTED L" "NewMsgFORMERR L" "NewMsgNODATA L" for L
proof (unfold_locales, goal_cases)
  case (3 req)
  obtain o' where "lib_SetEdns0 L 1452 False (reply L req RcodeNotImplemented) =
      (reply L req RcodeNotImplemented)\<lparr>m_Extra := m_Extra (reply L req RcodeNotImplemented) @ [o']\<rparr>"
    using 3 by (auto simp: constructor_valid_def elim: SetEdns0_other_fields)
  with 3 show ?case
    by (simp add: constructor_defs constructor_valid_def answers_def reply_fields)
qed (auto simp: constructor_defs constructor_valid_def answers_def reply_fields go_index_def
      Let_def length_1_conv)

subsection \<open>Length prefixes\<close>

lemma LengthPrefix_Some [simp]:
  "LengthPrefix (int n) = (if n \<le> 65535 then Some (put_uint16 (word_of_nat n)) else None)"
  by (simp add: LengthPrefix_def)

lemma get_uint16_LengthPrefix [codec_simps]:
  "LengthPrefix (int n) = Some p \<Longrightarrow> get_uint16 (p @ r) = Some (word_of_nat n) \<and> unat (word_of_nat n :: uint16) = n"
  by (auto simp: unat_of_nat split: if_splits)

lemma length_LengthPrefix: "LengthPrefix n = Some p \<Longrightarrow> length p = 2"
  by (auto simp: LengthPrefix_def split: if_splits)

end
