(* ===== verification/Glcache.thy ===== *)
theory Glcache
  imports Prelude_Go
begin

text \<open>
  The LRU cache library that the response cache, the recursion detector and the
  fastest-address cache keep their entries in.  Its code is not part of the
  repository: its operations are a record of functions over an abstract state,
  and \<^verbatim>\<open>gl_items\<close> is the contents of a state.  What the proxy relies on is
  that a cache never invents an entry: a stored entry may disappear at any
  time (eviction, an entry that is too large), but what is found under a key
  was stored under that key.
\<close>

record 'c glcache =
  gl_items :: "'c \<Rightarrow> bytes \<Rightarrow> bytes option"
  gl_New :: "nat \<Rightarrow> 'c"
  gl_Get :: "'c \<Rightarrow> bytes \<Rightarrow> bytes option \<times> 'c"
  gl_Set :: "'c \<Rightarrow> bytes \<Rightarrow> bytes \<Rightarrow> 'c"
  gl_Del :: "'c \<Rightarrow> bytes \<Rightarrow> 'c"
  gl_Clear :: "'c \<Rightarrow> 'c"

definition glcache_law :: "'c glcache \<Rightarrow> bool" where
  "glcache_law G \<longleftrightarrow>
     (\<forall>n k. gl_items G (gl_New G n) k = None) \<and>
     (\<forall>c k. fst (gl_Get G c k) = gl_items G c k \<and> gl_items G (snd (gl_Get G c k)) = gl_items G c) \<and>
     (\<forall>c k v k'. gl_items G (gl_Set G c k v) k' \<in>
        {None, gl_items G c k', if k' = k then Some v else gl_items G c k'}) \<and>
     (\<forall>c k k'. gl_items G (gl_Del G c k) k' = (if k' = k then None else gl_items G c k')) \<and>
     (\<forall>c k. gl_items G (gl_Clear G c) k = None)"

text \<open>A cache that keeps everything: the law can be met.\<close>

definition map_glcache :: "(bytes \<Rightarrow> bytes option) glcache" where
  "map_glcache = \<lparr> gl_items = (\<lambda>c. c), gl_New = (\<lambda>_ _. None), gl_Get = (\<lambda>c k. (c k, c)),
     gl_Set = (\<lambda>c k v. c(k := Some v)), gl_Del = (\<lambda>c k. c(k := None)), gl_Clear = (\<lambda>_ _. None) \<rparr>"

lemma map_glcache_law: "glcache_law map_glcache"
  by (simp add: glcache_law_def map_glcache_def)

lemma gl_items_New: "glcache_law G \<Longrightarrow> gl_items G (gl_New G n) k = None"
  by (simp add: glcache_law_def)

lemma gl_Get_items:
  assumes "glcache_law G"
  shows "fst (gl_Get G c k) = gl_items G c k" "gl_items G (snd (gl_Get G c k)) = gl_items G c"
  using assms by (simp_all add: glcache_law_def)

lemma gl_GetD:
  assumes "glcache_law G" "gl_Get G c k = (d, c')"
  shows "d = gl_items G c k" "gl_items G c' = gl_items G c"
  using gl_Get_items [OF assms(1), of c k] assms(2) by simp_all

lemma gl_items_SetD:
  assumes "glcache_law G" "gl_items G (gl_Set G c k v) k' = Some d"
  shows "gl_items G c k' = Some d \<or> (k' = k \<and> d = v)"
proof -
  have "gl_items G (gl_Set G c k v) k' \<in>
      {None, gl_items G c k', if k' = k then Some v else gl_items G c k'}"
    using assms(1) unfolding glcache_law_def by blast
  with assms(2) show ?thesis by (auto split: if_splits)
qed

lemma gl_items_Del:
  "glcache_law G \<Longrightarrow> gl_items G (gl_Del G c k) k' = (if k' = k then None else gl_items G c k')"
  by (simp add: glcache_law_def)

lemma gl_items_Clear: "glcache_law G \<Longrightarrow> gl_items G (gl_Clear G c) k = None"
  by (simp add: glcache_law_def)

end
