(* ===== verification/Sample_Lib.thy ===== *)
theory Sample_Lib
  imports Dns_Msg Glcache
begin

text \<open>
  A message library that meets the laws the properties assume, so that each of
  them can be applied at a concrete input.  It models no code: packing knows
  one message only, which becomes a single byte.
\<close>

definition sample_reply :: "Msg \<Rightarrow> Msg \<Rightarrow> Msg" where
  "sample_reply m req = m\<lparr>m_Id := m_Id req, m_Response := True, m_Rcode := RcodeSuccess,
     m_RecursionDesired := m_RecursionDesired req,
     m_Question := (if m_Question req = [] then m_Question m else take 1 (m_Question req))\<rparr>"

definition sample_opt :: "uint16 \<Rightarrow> bool \<Rightarrow> RR" where
  "sample_opt sz dobit = \<lparr> rr_Hdr = \<lparr> h_Name = ''.'', h_Rrtype = TypeOPT, h_Class = sz,
     h_Ttl = (if dobit then 0x8000 else 0) \<rparr>, rr_Data = RD_OPT [] \<rparr>"

definition sample_lib :: "Msg \<Rightarrow> dnslib" where
  "sample_lib m0 = \<lparr>
     lib_IsEdns0 = (\<lambda>m. find (\<lambda>i. rr_Rrtype (m_Extra m ! i) = TypeOPT) [0..<length (m_Extra m)]),
     lib_Do = (\<lambda>r. h_Ttl (rr_Hdr r) AND 0x8000 \<noteq> 0),
     lib_SetDo = (\<lambda>r. set_rr_Ttl (h_Ttl (rr_Hdr r) OR 0x8000) r),
     lib_UDPSize = (\<lambda>r. h_Class (rr_Hdr r)),
     lib_SetUDPSize = (\<lambda>sz r. r\<lparr>rr_Hdr := (rr_Hdr r)\<lparr>h_Class := sz\<rparr>\<rparr>),
     lib_SetEdns0 = (\<lambda>sz dobit m. m\<lparr>m_Extra := m_Extra m @ [sample_opt sz dobit]\<rparr>),
     lib_SetReply = sample_reply,
     lib_SetRcode = (\<lambda>req code. (sample_reply empty_Msg req)\<lparr>m_Rcode := code\<rparr>),
     lib_Pack = (\<lambda>m. if m = m0 then Some [7] else None),
     lib_Unpack = (\<lambda>b. if b = [7] then Some m0 else None),
     lib_Truncate = (\<lambda>_ m. m),
     lib_Fqdn = (\<lambda>s. s) \<rparr>"

lemma sample_edns_law: "lib_edns_law (sample_lib m0)"
  by (auto simp: lib_edns_law_def sample_lib_def find_None_iff find_Some_iff in_set_conv_nth
      split: option.splits)

lemma sample_reply_law: "lib_reply_law (sample_lib m0)"
  by (simp add: lib_reply_law_def sample_lib_def sample_reply_def empty_Msg_def)

lemma sample_SetEdns0_law: "lib_SetEdns0_law (sample_lib m0)"
  by (auto simp: lib_SetEdns0_law_def sample_lib_def sample_opt_def
      intro!: exI [of _ "sample_opt sz dobit" for sz dobit])

text \<open>A question, a request and a response for it.\<close>

definition sample_question :: Question where
  "sample_question = \<lparr> q_Name = ''a.'', q_Qtype = TypeA, q_Qclass = ClassINET \<rparr>"

definition sample_req :: Msg where
  "sample_req = empty_Msg\<lparr>m_Id := 1, m_RecursionDesired := True, m_Question := [sample_question]\<rparr>"

definition sample_rr :: "uint32 \<Rightarrow> RR" where
  "sample_rr ttl = \<lparr> rr_Hdr = \<lparr> h_Name = ''a.'', h_Rrtype = TypeA, h_Class = ClassINET, h_Ttl = ttl \<rparr>,
     rr_Data = RD_A (Some [192, 0, 2, 1]) \<rparr>"

definition sample_resp :: Msg where
  "sample_resp = empty_Msg\<lparr>m_Id := 1, m_Response := True, m_RecursionDesired := True,
     m_Question := [sample_question], m_Answer := [sample_rr 60]\<rparr>"

lemmas sample_defs = sample_lib_def sample_reply_def sample_opt_def sample_question_def sample_req_def
  sample_rr_def sample_resp_def empty_Msg_def

lemma sample_question_length [simp]:
  "length (m_Question sample_req) = 1" "length (m_Question sample_resp) = 1"
  by (simp_all add: sample_req_def sample_resp_def)

end
