(* ===== verification/Cache_Ttl.thy ===== *)
theory Cache_Ttl
  imports Sample_Lib
begin

text \<open>
  The pure functions of \<^verbatim>\<open>proxy/cache.go\<close> that decide whether and for how long
  a response is cached (\<^verbatim>\<open>cacheTTL\<close>, \<^verbatim>\<open>calculateTTL\<close>, \<^verbatim>\<open>minTTL\<close>,
  \<^verbatim>\<open>isCacheableSucceded\<close>, \<^verbatim>\<open>isCacheableNegative\<close>, \<^verbatim>\<open>hasIPAns\<close>), that clamp TTLs
  (\<^verbatim>\<open>respectTTLOverrides\<close>) and that filter records out of a response
  (\<^verbatim>\<open>filterRRSlice\<close>, \<^verbatim>\<open>filterMsg\<close>).  The loops are compared with reference
  definitions by minimum, filter and map.
\<close>

subsection \<open>Definitions\<close>

definition hasIPAns :: "Msg \<Rightarrow> bool" where
  "hasIPAns m = list_ex (\<lambda>rr. rr_Rrtype rr = TypeA \<or> rr_Rrtype rr = TypeAAAA) (m_Answer m)"

fun cacheable_negative_loop :: "RR list \<Rightarrow> bool \<Rightarrow> bool" where
  "cacheable_negative_loop [] ok = ok"
| "cacheable_negative_loop (rr # rrs) ok =
     (if rr_Rrtype rr = TypeSOA then cacheable_negative_loop rrs True
      else if rr_Rrtype rr = TypeNS then False
      else cacheable_negative_loop rrs ok)"

definition isCacheableNegative :: "Msg \<Rightarrow> bool" where
  "isCacheableNegative m = cacheable_negative_loop (m_Ns m) False"

definition isCacheableSucceded :: "Msg \<Rightarrow> bool go" where
  "isCacheableSucceded m = do {
     q \<leftarrow> go_index (m_Question m) 0;
     Some ((q_Qtype q \<noteq> TypeA \<and> q_Qtype q \<noteq> TypeAAAA) \<or> hasIPAns m \<or> isCacheableNegative m) }"

definition ServFailMaxCacheTTL :: uint32 where
  "ServFailMaxCacheTTL = 30"

definition minTTL :: "RR_Header \<Rightarrow> uint32 \<Rightarrow> uint32" where
  "minTTL h ttl = (if h_Rrtype h = TypeOPT then ttl else if h_Ttl h < ttl then h_Ttl h else ttl)"

abbreviation (input) MaxUint32 :: uint32 where
  "MaxUint32 \<equiv> 0xffffffff"

text \<open>The inner loop; \<^term>\<open>None\<close> is its early return of zero.\<close>

fun ttl_rrset :: "RR list \<Rightarrow> uint32 \<Rightarrow> uint32 option" where
  "ttl_rrset [] ttl = Some ttl"
| "ttl_rrset (rr # rrs) ttl =
     (let ttl' = minTTL (rr_Hdr rr) ttl in if ttl' = 0 then None else ttl_rrset rrs ttl')"

fun ttl_rrsets :: "RR list list \<Rightarrow> uint32 \<Rightarrow> uint32 option" where
  "ttl_rrsets [] ttl = Some ttl"
| "ttl_rrsets (rs # rss) ttl = (case ttl_rrset rs ttl of None \<Rightarrow> None | Some t \<Rightarrow> ttl_rrsets rss t)"

definition calculateTTL :: "Msg \<Rightarrow> uint32" where
  "calculateTTL m = (case ttl_rrsets [m_Answer m, m_Ns m, m_Extra m] MaxUint32 of
      None \<Rightarrow> 0
    | Some ttl \<Rightarrow>
        if m_Rcode m = RcodeServerFailure \<and> ttl > ServFailMaxCacheTTL then ServFailMaxCacheTTL
        else if ttl = MaxUint32 then 0
        else ttl)"

definition cacheTTL :: "Msg option \<Rightarrow> uint32 go" where
  "cacheTTL mo = (case mo of
      None \<Rightarrow> Some 0
    | Some m \<Rightarrow>
        if m_Truncated m then Some 0
        else if length (m_Question m) \<noteq> 1 then Some 0
        else let ttl = calculateTTL m in
          if ttl = 0 then Some 0
          else if m_Rcode m = RcodeSuccess then
            do { ok \<leftarrow> isCacheableSucceded m; Some (if ok then ttl else 0) }
          else if m_Rcode m = RcodeNameError then
            Some (if isCacheableNegative m then ttl else 0)
          else if m_Rcode m = RcodeServerFailure then Some ttl
          else Some 0)"

definition respectTTLOverrides :: "uint32 \<Rightarrow> uint32 \<Rightarrow> uint32 \<Rightarrow> uint32" where
  "respectTTLOverrides ttl cacheMinTTL cacheMaxTTL =
     (if ttl < cacheMinTTL then cacheMinTTL
      else if cacheMaxTTL \<noteq> 0 \<and> ttl > cacheMaxTTL then cacheMaxTTL
      else ttl)"

definition isDNSSEC :: "RR \<Rightarrow> bool" where
  "isDNSSEC r = (rr_Rrtype r \<in> {TypeNSEC, TypeNSEC3, TypeDS, TypeRRSIG, TypeSIG, TypeDNSKEY})"

fun filterRRSlice :: "RR list \<Rightarrow> bool \<Rightarrow> uint32 \<Rightarrow> uint16 \<Rightarrow> RR list" where
  "filterRRSlice [] dobit ttl except = []"
| "filterRRSlice (r # rs) dobit ttl except =
     (if (\<not> dobit \<and> isDNSSEC r \<and> rr_Rrtype r \<noteq> except) \<or> rr_Rrtype r = TypeOPT
      then filterRRSlice rs dobit ttl except
      else (if ttl \<noteq> 0 then set_rr_Ttl ttl r else r) # filterRRSlice rs dobit ttl except)"

definition filterMsg :: "Msg \<Rightarrow> Msg \<Rightarrow> bool \<Rightarrow> bool \<Rightarrow> uint32 \<Rightarrow> Msg go" where
  "filterMsg dst m ad dobit ttl = do {
     q \<leftarrow> go_index (m_Question m) 0;
     Some (dst\<lparr>m_AuthenticatedData := m_AuthenticatedData dst \<and> (ad \<or> dobit),
               m_Answer := filterRRSlice (m_Answer m) dobit ttl (q_Qtype q),
               m_Ns := filterRRSlice (m_Ns m) dobit ttl TypeNone,
               m_Extra := filterRRSlice (m_Extra m) dobit ttl TypeNone\<rparr>) }"

subsection \<open>Reference definitions\<close>

text \<open>The TTLs that count: those of every record but the OPT pseudo-records.\<close>

definition msg_ttls :: "Msg \<Rightarrow> uint32 set" where
  "msg_ttls m = rr_Ttl ` {r \<in> set (m_Answer m @ m_Ns m @ m_Extra m). rr_Rrtype r \<noteq> TypeOPT}"

text \<open>RFC 2308: a negative answer is cached on the word of a SOA record and of no NS record.\<close>

definition negative_spec :: "Msg \<Rightarrow> bool" where
  "negative_spec m \<longleftrightarrow> (\<exists>r \<in> set (m_Ns m). rr_Rrtype r = TypeSOA) \<and>
                       (\<forall>r \<in> set (m_Ns m). rr_Rrtype r \<noteq> TypeNS)"

definition keep_rr :: "bool \<Rightarrow> uint16 \<Rightarrow> RR \<Rightarrow> bool" where
  "keep_rr dobit except r \<longleftrightarrow> rr_Rrtype r \<noteq> TypeOPT \<and> (isDNSSEC r \<longrightarrow> dobit \<or> rr_Rrtype r = except)"

subsection \<open>The loops meet their references\<close>

lemma rr_Rrtype_set_rr_Ttl [simp]: "rr_Rrtype (set_rr_Ttl t r) = rr_Rrtype r" "rr_Ttl (set_rr_Ttl t r) = t"
  "rr_Data (set_rr_Ttl t r) = rr_Data r"
  by (simp_all add: set_rr_Ttl_def)

lemma cacheable_negative_loop_spec:
  "cacheable_negative_loop rrs ok \<longleftrightarrow>
     (ok \<or> (\<exists>r \<in> set rrs. rr_Rrtype r = TypeSOA)) \<and> (\<forall>r \<in> set rrs. rr_Rrtype r \<noteq> TypeNS)"
  by (induction rrs ok rule: cacheable_negative_loop.induct) auto

lemma isCacheableNegative_spec: "isCacheableNegative m = negative_spec m"
  by (simp add: isCacheableNegative_def negative_spec_def cacheable_negative_loop_spec)

lemma filterRRSlice_spec:
  "filterRRSlice rs dobit ttl except =
     map (\<lambda>r. if ttl \<noteq> 0 then set_rr_Ttl ttl r else r) (filter (keep_rr dobit except) rs)"
  by (induction rs) (auto simp: keep_rr_def)

lemma minTTL_min: "minTTL (rr_Hdr r) t = (if rr_Rrtype r = TypeOPT then t else min (rr_Ttl r) t)"
  by (auto simp: minTTL_def min_def)

text \<open>The minimum of a starting value and the counted TTLs of a list of records.\<close>

definition ttl_min :: "RR list \<Rightarrow> uint32 \<Rightarrow> uint32" where
  "ttl_min rrs t = Min (insert t (rr_Ttl ` {r \<in> set rrs. rr_Rrtype r \<noteq> TypeOPT}))"

lemma ttl_min_Nil [simp]: "ttl_min [] t = t"
  by (simp add: ttl_min_def)

lemma Min_insert_min:
  "finite S \<Longrightarrow> Min (insert (min a b) S) = Min (insert a (insert b S))" for a b :: uint32
  by (cases "S = {}") (simp_all add: min.assoc)

lemma ttl_min_Cons: "ttl_min (r # rrs) t = ttl_min rrs (minTTL (rr_Hdr r) t)"
proof (cases "rr_Rrtype r = TypeOPT")
  case True
  then have "{x \<in> set (r # rrs). rr_Rrtype x \<noteq> TypeOPT} = {x \<in> set rrs. rr_Rrtype x \<noteq> TypeOPT}"
    by auto
  with True show ?thesis by (simp only: ttl_min_def minTTL_min if_True refl)
next
  case False
  then have "{x \<in> set (r # rrs). rr_Rrtype x \<noteq> TypeOPT} =
      insert r {x \<in> set rrs. rr_Rrtype x \<noteq> TypeOPT}"
    by auto
  with False show ?thesis
    by (simp only: ttl_min_def minTTL_min if_False image_insert insert_commute [of t])
       (simp add: Min_insert_min)
qed

lemma ttl_min_append: "ttl_min (xs @ ys) t = ttl_min ys (ttl_min xs t)"
  by (induction xs arbitrary: t) (simp_all add: ttl_min_Cons)

lemma ttl_min_0 [simp]: "ttl_min rrs 0 = 0"
  by (induction rrs) (simp_all add: ttl_min_Cons minTTL_def)

lemma ttl_rrset_min:
  "t \<noteq> 0 \<Longrightarrow> ttl_rrset rrs t = (if ttl_min rrs t = 0 then None else Some (ttl_min rrs t))"
  by (induction rrs arbitrary: t) (auto simp: ttl_min_Cons Let_def)

lemma ttl_rrsets_min:
  "t \<noteq> 0 \<Longrightarrow> ttl_rrsets rss t =
     (if ttl_min (concat rss) t = 0 then None else Some (ttl_min (concat rss) t))"
  by (induction rss arbitrary: t) (auto simp: ttl_rrset_min ttl_min_append)

lemma calculateTTL_min:
  "calculateTTL m =
     (let t = Min (insert MaxUint32 (msg_ttls m)) in
      if m_Rcode m = RcodeServerFailure \<and> t > ServFailMaxCacheTTL then ServFailMaxCacheTTL
      else if t = MaxUint32 then 0 else t)"
proof -
  have "ttl_min (concat [m_Answer m, m_Ns m, m_Extra m]) MaxUint32 = Min (insert MaxUint32 (msg_ttls m))"
    by (simp add: ttl_min_def msg_ttls_def)
  moreover have "ttl_rrsets [m_Answer m, m_Ns m, m_Extra m] MaxUint32 =
      (if ttl_min (concat [m_Answer m, m_Ns m, m_Extra m]) MaxUint32 = 0 then None
       else Some (ttl_min (concat [m_Answer m, m_Ns m, m_Extra m]) MaxUint32))"
    by (rule ttl_rrsets_min) simp
  moreover define t where "t = Min (insert MaxUint32 (msg_ttls m))"
  ultimately show ?thesis
    unfolding calculateTTL_def t_def [symmetric] Let_def by (simp add: ServFailMaxCacheTTL_def)
qed

lemma calculateTTL_le:
  assumes "r \<in> set (m_Answer m @ m_Ns m @ m_Extra m)" "rr_Rrtype r \<noteq> TypeOPT"
  shows "calculateTTL m \<le> rr_Ttl r"
proof -
  have "rr_Ttl r \<in> insert MaxUint32 (msg_ttls m)" using assms by (auto simp: msg_ttls_def)
  moreover have "finite (insert MaxUint32 (msg_ttls m))" by (simp add: msg_ttls_def)
  ultimately have "Min (insert MaxUint32 (msg_ttls m)) \<le> rr_Ttl r" by (rule Min_le [rotated])
  moreover define t where "t = Min (insert MaxUint32 (msg_ttls m))"
  ultimately show ?thesis
    unfolding calculateTTL_min t_def [symmetric] Let_def by auto
qed

lemma cacheTTL_no_panic: "cacheTTL mo \<noteq> None"
  by (auto simp: cacheTTL_def isCacheableSucceded_def go_index_def Let_def split: option.splits)

lemma cacheTTL_nonzeroD:
  assumes "cacheTTL (Some m) = Some t" "t \<noteq> 0"
  shows "t = calculateTTL m" "\<not> m_Truncated m" "length (m_Question m) = 1"
    "m_Rcode m \<in> {RcodeSuccess, RcodeNameError, RcodeServerFailure}"
  using assms by (auto simp: cacheTTL_def Let_def split: if_splits Option.bind_splits)

subsection \<open>Properties\<close>

definition cacheable_spec :: "Msg \<Rightarrow> bool" where
  "cacheable_spec m \<longleftrightarrow> \<not> m_Truncated m \<and> (\<exists>q. m_Question m = [q] \<and>
     (m_Rcode m = RcodeSuccess \<and>
        (q_Qtype q \<notin> {TypeA, TypeAAAA} \<or> negative_spec m \<or>
         (\<exists>r \<in> set (m_Answer m). rr_Rrtype r \<in> {TypeA, TypeAAAA})) \<or>
      m_Rcode m = RcodeNameError \<and> negative_spec m \<or>
      m_Rcode m = RcodeServerFailure))"

definition lifetime_spec :: "Msg \<Rightarrow> uint32" where
  "lifetime_spec m =
     (let t = Min (insert MaxUint32 (msg_ttls m)) in
      if m_Rcode m = RcodeServerFailure then min t 30
      else if t = MaxUint32 then 0 else t)"

text \<open>
  C39: what is cached and for how long.  \<^verbatim>\<open>cacheTTL\<close> never panics; it is zero unless the response is
  complete, has one question and is a usable success, an authoritative negative answer (a SOA and no NS
  record in the authority section) or a server failure; and then it is the least TTL of all records but
  OPT, at most 30 seconds for a server failure.
\<close>

theorem cacheTTL_spec:
  "cacheTTL (Some m) = Some (if cacheable_spec m then lifetime_spec m else 0)"
proof -
  define t where "t = Min (insert MaxUint32 (msg_ttls m))"
  have ttl: "calculateTTL m = (if m_Rcode m = RcodeServerFailure \<and> t > 30 then 30
      else if t = MaxUint32 then 0 else t)"
    unfolding calculateTTL_min t_def [symmetric] Let_def ServFailMaxCacheTTL_def ..
  have life: "lifetime_spec m = (if m_Rcode m = RcodeServerFailure then min t 30
      else if t = MaxUint32 then 0 else t)"
    unfolding lifetime_spec_def t_def [symmetric] Let_def ..
  have ans: "hasIPAns m \<longleftrightarrow> (\<exists>r \<in> set (m_Answer m). rr_Rrtype r \<in> {TypeA, TypeAAAA})"
    by (auto simp: hasIPAns_def list_ex_iff)
  have eq: "calculateTTL m = lifetime_spec m"
    unfolding ttl life by (auto simp: min_def)
  show ?thesis
  proof (cases "\<exists>q. m_Question m = [q]")
    case True
    then show ?thesis
      by (auto simp: cacheTTL_def isCacheableSucceded_def isCacheableNegative_spec cacheable_spec_def
          eq ans go_simps Let_def)
  qed (auto simp: cacheTTL_def cacheable_spec_def length_1_conv)
qed

text \<open>
  Filtering a response.  For a message with a question the filter is total: it keeps, in order,
  exactly the records that are no OPT records and, unless DNSSEC was asked for, no DNSSEC records other
  than the requested type; it rewrites only their TTL, and only when a TTL is given; the AD bit survives
  only when the request had the AD or the DO bit.
\<close>

theorem filterMsg_spec:
  assumes "m_Question m = q # qs"
  shows "filterMsg dst m ad dobit ttl = Some (dst\<lparr>
    m_AuthenticatedData := m_AuthenticatedData dst \<and> (ad \<or> dobit),
    m_Answer := map (\<lambda>r. if ttl \<noteq> 0 then set_rr_Ttl ttl r else r) (filter (keep_rr dobit (q_Qtype q)) (m_Answer m)),
    m_Ns := map (\<lambda>r. if ttl \<noteq> 0 then set_rr_Ttl ttl r else r) (filter (keep_rr dobit TypeNone) (m_Ns m)),
    m_Extra := map (\<lambda>r. if ttl \<noteq> 0 then set_rr_Ttl ttl r else r) (filter (keep_rr dobit TypeNone) (m_Extra m))\<rparr>)"
  by (simp add: filterMsg_def assms go_simps filterRRSlice_spec)

theorem filterMsg_spec_witness:
  "filterMsg sample_resp sample_resp False False 5 = Some (sample_resp\<lparr>m_Answer := [sample_rr 5]\<rparr>)"
  by (subst filterMsg_spec [where q = sample_question and qs = "[]"])
     (simp_all add: sample_defs keep_rr_def isDNSSEC_def set_rr_Ttl_def)

text \<open>
  TTL overrides.  With consistent bounds (minimum not above a non-zero maximum) the overridden TTL
  lies within them, a TTL within them is kept, and overriding again changes nothing.
\<close>

theorem respectTTLOverrides_bounds:
  assumes "hi = 0 \<or> lo \<le> hi"
  shows "lo \<le> respectTTLOverrides ttl lo hi \<and>
    (hi \<noteq> 0 \<longrightarrow> respectTTLOverrides ttl lo hi \<le> hi) \<and>
    (lo \<le> ttl \<and> (hi = 0 \<or> ttl \<le> hi) \<longrightarrow> respectTTLOverrides ttl lo hi = ttl) \<and>
    respectTTLOverrides (respectTTLOverrides ttl lo hi) lo hi = respectTTLOverrides ttl lo hi"
  using assms by (auto simp: respectTTLOverrides_def)

theorem respectTTLOverrides_bounds_witness:
  "10 \<le> respectTTLOverrides 3 10 (60 :: uint32) \<and> respectTTLOverrides 3 10 (60 :: uint32) \<le> 60"
  using respectTTLOverrides_bounds [of 60 10 3] by simp

end
