(* ===== verification/Cache_Key.thy ===== *)
theory Cache_Key
  imports Sample_Lib
begin

text \<open>
  The keys of the response cache (\<^verbatim>\<open>msgToKey\<close>, \<^verbatim>\<open>msgToKeyWithSubnet\<close>,
  \<^verbatim>\<open>cacheSubnet\<close> of \<^verbatim>\<open>proxy/cache.go\<close>) and the search loop of
  \<^verbatim>\<open>getWithSubnet\<close>, which shortens the prefix in place in the key, one bit at a
  time.  Shown: the loop is a search for the longest stored prefix among the
  keys that \<^verbatim>\<open>msgToKeyWithSubnet\<close> builds, it never indexes out of range, and
  keys of different questions or subnets differ.
\<close>

subsection \<open>Definitions\<close>

definition msgToKey :: "dnslib \<Rightarrow> Msg \<Rightarrow> bytes go" where
  "msgToKey L m = do {
     q \<leftarrow> go_index (m_Question m) 0;
     Some ([of_bool (msg_Do L m)] @ put_uint16 (q_Qtype q) @ put_uint16 (q_Qclass q) @
           go_copy (replicate (length (q_Name q)) 0) (bytes_of (to_lower (q_Name q)))) }"

definition keyMaskIndex :: nat where
  "keyMaskIndex = 5"

definition keyIPIndex :: nat where
  "keyIPIndex = keyMaskIndex + 1"

text \<open>The invalid results of the code are all \<^verbatim>\<open>(nil, 0, false)\<close>, here \<^term>\<open>None\<close>.\<close>

definition cacheSubnet :: "IPNet option \<Rightarrow> (ip \<times> uint8) option" where
  "cacheSubnet no = (case no of
      None \<Rightarrow> None
    | Some n \<Rightarrow>
        if net_Mask n = None then
          (if net_IP n = None \<or> To16 (net_IP n) \<noteq> None then Some (None, 0) else None)
        else let (ones, bits) = mask_Size (net_Mask n) in
          if bits = 32 then
            (if To4 (net_IP n) = None \<or> ones > 128 then None
             else Some (ip_Mask (To4 (net_IP n)) (net_Mask n), word_of_nat ones))
          else if bits = 128 then
            (if To4 (net_IP n) \<noteq> None then None
             else if To16 (net_IP n) = None \<or> ones > 128 then None
             else Some (ip_Mask (To16 (net_IP n)) (net_Mask n), word_of_nat ones))
          else None)"

definition msgToKeyWithSubnet :: "dnslib \<Rightarrow> Msg \<Rightarrow> ip \<Rightarrow> uint8 \<Rightarrow> bytes go" where
  "msgToKeyWithSubnet L m ecsIP pref = do {
     q \<leftarrow> go_index (m_Question m) 0;
     Some ([of_bool (msg_Do L m)] @ put_uint16 (q_Qtype q) @ put_uint16 (q_Qclass q) @ [pref] @
           (if pref \<noteq> 0 then ip_bytes ecsIP else []) @
           go_copy (replicate (length (q_Name q)) 0) (bytes_of (to_lower (q_Name q)))) }"

text \<open>Assignment to a slice element and \<^verbatim>\<open>slices.Delete\<close>; both panic out of range.\<close>

definition go_update :: "'a list \<Rightarrow> nat \<Rightarrow> 'a \<Rightarrow> 'a list go" where
  "go_update xs i v = (if i < length xs then Some (xs[i := v]) else None)"

definition slices_Delete :: "'a list \<Rightarrow> nat \<Rightarrow> nat \<Rightarrow> 'a list go" where
  "slices_Delete xs i j = (if i \<le> j \<and> j \<le> length xs then Some (take i xs @ drop j xs) else None)"

text \<open>The loop of \<^verbatim>\<open>getWithSubnet\<close>, on the prefix length \<^verbatim>\<open>m\<close>, the key and the data found.\<close>

fun subnet_search ::
  "'c glcache \<Rightarrow> 'c \<Rightarrow> nat \<Rightarrow> nat \<Rightarrow> bytes \<Rightarrow> bytes option \<Rightarrow> (bytes option \<times> bytes \<times> 'c) go" where
  "subnet_search G c ipLen 0 k data = Some (data, k, c)"
| "subnet_search G c ipLen (Suc m) k data =
     (if data \<noteq> None then Some (data, k, c)
      else do {
        k \<leftarrow> go_update k keyMaskIndex (word_of_nat m);
        if m = 0 then do {
          k \<leftarrow> slices_Delete k keyIPIndex (keyIPIndex + ipLen);
          let (data, c) = gl_Get G c k in subnet_search G c ipLen m k data }
        else do {
          b \<leftarrow> go_index k (keyIPIndex + m div 8);
          k \<leftarrow> go_update k (keyIPIndex + m div 8) (b AND NOT (push_bit (7 - m mod 8) 1));
          let (data, c) = gl_Get G c k in subnet_search G c ipLen m k data } })"

subsection \<open>Reference: the keys of all prefixes\<close>

definition subnet_key :: "bytes \<Rightarrow> bytes \<Rightarrow> nat \<Rightarrow> bytes \<Rightarrow> bytes" where
  "subnet_key hdr ip m name =
     hdr @ [word_of_nat m] @ (if m = 0 then [] else mask_bytes m ip) @ name"

text \<open>The longest stored prefix not longer than \<^verbatim>\<open>m\<close>, and the key the search ends with.\<close>

definition longest_prefix :: "(bytes \<Rightarrow> bytes option) \<Rightarrow> (nat \<Rightarrow> bytes) \<Rightarrow> nat \<Rightarrow> nat" where
  "longest_prefix items key m =
     (case find (\<lambda>j. items (key j) \<noteq> None) (rev [0..<Suc m]) of None \<Rightarrow> 0 | Some j \<Rightarrow> j)"

subsection \<open>The search is a longest-prefix match\<close>

lemma longest_prefix_0: "longest_prefix items key 0 = 0"
  by (simp add: longest_prefix_def)

lemma longest_prefix_Suc:
  "longest_prefix items key (Suc m) =
     (if items (key (Suc m)) \<noteq> None then Suc m else longest_prefix items key m)"
  by (simp add: longest_prefix_def)

lemma longest_prefix_le: "longest_prefix items key m \<le> m"
  by (induction m) (auto simp: longest_prefix_0 longest_prefix_Suc)

lemma longest_prefix_max:
  "j \<le> m \<Longrightarrow> items (key j) \<noteq> None \<Longrightarrow> j \<le> longest_prefix items key m"
  by (induction m) (auto simp: longest_prefix_0 longest_prefix_Suc le_Suc_eq)

lemma longest_prefix_found:
  "j \<le> m \<Longrightarrow> items (key j) \<noteq> None \<Longrightarrow> items (key (longest_prefix items key m)) \<noteq> None"
  by (induction m) (auto simp: longest_prefix_0 longest_prefix_Suc le_Suc_eq)

lemma update_after_header:
  "length hdr = keyMaskIndex \<Longrightarrow> go_update (hdr @ x # r) keyMaskIndex v = Some (hdr @ v # r)"
  by (simp add: go_update_def list_update_append keyMaskIndex_def)

lemma subnet_key_step:
  assumes "length hdr = keyMaskIndex" "0 < m" "m < 8 * length ip"
  shows "go_index (hdr @ word_of_nat m # mask_bytes (Suc m) ip @ name) (keyIPIndex + m div 8) =
      Some (mask_bytes (Suc m) ip ! (m div 8))"
    and "go_update (hdr @ word_of_nat m # mask_bytes (Suc m) ip @ name) (keyIPIndex + m div 8)
        (mask_bytes (Suc m) ip ! (m div 8) AND NOT (push_bit (7 - m mod 8) 1)) =
      Some (subnet_key hdr ip m name)"
proof -
  have "m div 8 < length ip" using assms(3) by (simp add: less_mult_imp_div_less mult.commute)
  with assms mask_bytes_step [OF assms(3)] show
    "go_index (hdr @ word_of_nat m # mask_bytes (Suc m) ip @ name) (keyIPIndex + m div 8) =
      Some (mask_bytes (Suc m) ip ! (m div 8))"
    "go_update (hdr @ word_of_nat m # mask_bytes (Suc m) ip @ name) (keyIPIndex + m div 8)
        (mask_bytes (Suc m) ip ! (m div 8) AND NOT (push_bit (7 - m mod 8) 1)) =
      Some (subnet_key hdr ip m name)"
    by (auto simp: go_index_def go_update_def subnet_key_def keyIPIndex_def nth_append
        list_update_append)
qed

lemma subnet_search_spec:
  assumes "glcache_law G" "length hdr = keyMaskIndex" "m \<le> 8 * length ip"
    "k = subnet_key hdr ip m name" "data = gl_items G c k"
  shows "\<exists>c'. subnet_search G c (length ip) m k data =
      Some (gl_items G c (subnet_key hdr ip
              (longest_prefix (gl_items G c) (\<lambda>j. subnet_key hdr ip j name) m) name),
            subnet_key hdr ip (longest_prefix (gl_items G c) (\<lambda>j. subnet_key hdr ip j name) m) name, c')
      \<and> gl_items G c' = gl_items G c"
  using assms(3-)
proof (induction m arbitrary: c k data)
  case 0
  then show ?case by (simp add: longest_prefix_0)
next
  case (Suc m)
  show ?case
  proof (cases data)
    case (Some d)
    with Suc.prems show ?thesis by (auto simp: longest_prefix_Suc)
  next
    case None
    let ?k = "subnet_key hdr ip m name"
    obtain d c' where get: "gl_Get G c ?k = (d, c')" by force
    note d = gl_GetD [OF assms(1) get]
    have k: "k = hdr @ word_of_nat (Suc m) # mask_bytes (Suc m) ip @ name"
      using Suc.prems by (simp add: subnet_key_def)
    have "subnet_search G c (length ip) (Suc m) k data = subnet_search G c' (length ip) m ?k d"
    proof (cases "m = 0")
      case True
      have "slices_Delete (hdr @ word_of_nat 0 # mask_bytes (Suc 0) ip @ name) keyIPIndex
          (keyIPIndex + length ip) = Some ?k"
        using True assms(2) by (simp add: slices_Delete_def subnet_key_def keyIPIndex_def)
      with True None get assms(2) show ?thesis
        by (simp add: k update_after_header)
    next
      case False
      with None get Suc.prems(1) assms(2) show ?thesis
        by (simp add: k update_after_header subnet_key_step del: push_bit_of_1)
    qed
    with Suc.IH [of ?k d c'] Suc.prems None d show ?thesis
      by (simp add: longest_prefix_Suc)
  qed
qed

subsection \<open>Keys\<close>

text \<open>The five bytes every key starts with, and the question's name as it is stored.\<close>

definition key_header :: "dnslib \<Rightarrow> Msg \<Rightarrow> bytes" where
  "key_header L m = (let q = hd (m_Question m) in
     [of_bool (msg_Do L m)] @ put_uint16 (q_Qtype q) @ put_uint16 (q_Qclass q))"

definition key_name :: "Msg \<Rightarrow> bytes" where
  "key_name m = bytes_of (to_lower (q_Name (hd (m_Question m))))"

lemma length_key_header [simp]: "length (key_header L m) = keyMaskIndex"
  by (simp add: key_header_def keyMaskIndex_def Let_def)

lemma msgToKey_eq:
  "length (m_Question m) = 1 \<Longrightarrow> msgToKey L m = Some (key_header L m @ key_name m)"
  by (auto simp: msgToKey_def key_header_def key_name_def Let_def length_1_conv go_simps)

lemma msgToKeyWithSubnet_eq:
  "length (m_Question m) = 1 \<Longrightarrow> msgToKeyWithSubnet L m ip pref =
     Some (key_header L m @ [pref] @ (if pref \<noteq> 0 then ip_bytes ip else []) @ key_name m)"
  by (auto simp: msgToKeyWithSubnet_def key_header_def key_name_def Let_def length_1_conv go_simps)

lemma cacheSubnetD:
  assumes "cacheSubnet n = Some (ip, pref)"
  shows "ip = None \<and> pref = 0 \<or>
    (\<exists>b. ip = Some b \<and> length b \<in> {4, 16} \<and> unat pref \<le> 8 * length b \<and> b = mask_bytes (unat pref) b)"
proof (cases n)
  case (Some net)
  show ?thesis
  proof (cases "net_Mask net = None")
    case False
    then obtain mb where mb: "net_Mask net = Some mb" by auto
    obtain ones bits where size: "mask_Size (net_Mask net) = (ones, bits)" by force
    have pref: "unat (word_of_nat ones :: uint8) = ones" if "ones \<le> bits" "bits \<in> {32, 128}"
      using that by (auto simp: unat_of_nat)
    have masked: "ip_Mask (Some b) (net_Mask net) = Some (mask_bytes ones b)"
      if "8 * length b = bits" "bits \<noteq> 0" for b
      using mask_SizeD [OF size that(2)] that mb ip_Mask_cidr [of b ones] by simp
    have "\<exists>a. ip = ip_Mask (Some a) (net_Mask net) \<and> 8 * length a = bits \<and> pref = word_of_nat ones \<and>
        bits \<in> {32, 128}"
      using assms Some False size
      by (auto simp: cacheSubnet_def length_To4 length_To16 split: if_splits)
    then obtain a where a: "ip = ip_Mask (Some a) (net_Mask net)" "8 * length a = bits"
      "pref = word_of_nat ones" "bits \<in> {32, 128}" by blast
    then have "ones \<le> bits" using mask_SizeD(3) [OF size] by auto
    with a masked [of a] pref show ?thesis
      by (intro disjI2 exI [of _ "mask_bytes ones a"]) auto
  qed (use assms Some in \<open>auto simp: cacheSubnet_def split: if_splits\<close>)
qed (use assms in \<open>simp add: cacheSubnet_def\<close>)

lemma key_subnet_key:
  assumes "length (m_Question m) = 1" "b = mask_bytes (unat pref) b"
  shows "msgToKeyWithSubnet L m (Some b) pref = Some (subnet_key (key_header L m) b (unat pref) (key_name m))"
  using assms by (simp add: msgToKeyWithSubnet_eq subnet_key_def unat_eq_0 flip: unat_eq_0)

subsection \<open>Keys of different questions or subnets differ\<close>

text \<open>Domain names in presentation format have no NUL byte.\<close>

definition nul_free :: "string \<Rightarrow> bool" where
  "nul_free s \<longleftrightarrow> (\<forall>c \<in> set s. of_char c \<noteq> (0 :: nat))"

lemma char_lower_neq_0: "of_char c \<noteq> (0 :: nat) \<Longrightarrow> of_char (char_lower c) \<noteq> (0 :: nat)"
  by (auto simp: char_lower_def)

lemma zero_notin_bytes_of: "nul_free s \<Longrightarrow> 0 \<notin> set (bytes_of s)"
proof -
  have "of_char c = (0 :: nat)" if "word_of_nat (of_char c) = (0 :: byte)" for c
  proof -
    have "unat (word_of_nat (of_char c) :: byte) = 0" using that by simp
    then show ?thesis by (simp add: unat_of_nat)
  qed
  then show "nul_free s \<Longrightarrow> 0 \<notin> set (bytes_of s)"
    by (fastforce simp: nul_free_def bytes_of_def)
qed

lemma zero_notin_key_name: "nul_free (q_Name (hd (m_Question m))) \<Longrightarrow> 0 \<notin> set (key_name m)"
  unfolding key_name_def
  by (rule zero_notin_bytes_of) (use char_lower_neq_0 in \<open>fastforce simp: nul_free_def to_lower_def\<close>)

lemma key_header_inject:
  assumes "length (m_Question r) = 1" "length (m_Question s) = 1"
  shows "key_header L r = key_header L s \<longleftrightarrow>
     msg_Do L r = msg_Do L s \<and> q_Qtype (hd (m_Question r)) = q_Qtype (hd (m_Question s)) \<and>
     q_Qclass (hd (m_Question r)) = q_Qclass (hd (m_Question s))"
  by (auto simp: key_header_def Let_def append_eq_append_conv)

lemma masked_append_inject:
  assumes "b = mask_bytes n b" "c = mask_bytes n c" "length b \<in> {4, 16}" "length c \<in> {4, 16}"
    "n \<le> 8 * length b" "n \<le> 8 * length c" "0 \<notin> set x" "0 \<notin> set y" "b @ x = c @ y"
  shows "b = c \<and> x = y"
proof -
  have no: False
    if "b @ x = c @ y" "length b = 4" "length c = 16" "c = mask_bytes n c" "n \<le> 32" "0 \<notin> set x"
    for b c x y :: bytes
  proof -
    have "c ! 4 = 0" using that(4,5) mask_bytes_nth [of 4 c n] that(3) by simp
    moreover have "x = drop 4 c @ y" using that(2,3) arg_cong [OF that(1), of "drop 4"] by simp
    then have "c ! 4 \<in> set x" using that(3) by (auto simp: in_set_conv_nth intro!: exI [of _ 0])
    ultimately show False using that(6) by simp
  qed
  have "length b = length c"
    using no [of b x c y] no [of c y b x] assms by (auto simp: eq_commute [of "b @ x"])
  with assms(9) show ?thesis by simp
qed

text \<open>
  Two requests are stored under the same subnet key exactly when they agree on the DO bit, the
  type, the class, the lower-cased name, the prefix length and (unless the prefix is empty) the
  masked address: entries of an IPv4 and of an IPv6 subnet, or of different questions, never
  collide, for names without NUL bytes and subnets that \<^verbatim>\<open>cacheSubnet\<close> accepts.
\<close>

theorem msgToKeyWithSubnet_inject:
  assumes "length (m_Question r) = 1" "length (m_Question s) = 1"
    and "nul_free (q_Name (hd (m_Question r)))" "nul_free (q_Name (hd (m_Question s)))"
    and "cacheSubnet n = Some (ip, p)" "cacheSubnet n' = Some (ip', p')"
  shows "msgToKeyWithSubnet L r ip p = msgToKeyWithSubnet L s ip' p' \<longleftrightarrow>
    msg_Do L r = msg_Do L s \<and> q_Qtype (hd (m_Question r)) = q_Qtype (hd (m_Question s)) \<and>
    q_Qclass (hd (m_Question r)) = q_Qclass (hd (m_Question s)) \<and>
    to_lower (q_Name (hd (m_Question r))) = to_lower (q_Name (hd (m_Question s))) \<and>
    p = p' \<and> (p \<noteq> 0 \<longrightarrow> ip = ip')"
proof (cases "p = p' \<and> p \<noteq> 0")
  case True
  obtain b where b: "ip = Some b" "length b \<in> {4, 16}" "unat p \<le> 8 * length b" "b = mask_bytes (unat p) b"
    using cacheSubnetD [OF assms(5)] True by auto
  obtain c where c: "ip' = Some c" "length c \<in> {4, 16}" "unat p \<le> 8 * length c" "c = mask_bytes (unat p) c"
    using cacheSubnetD [OF assms(6)] True by auto
  have "b @ key_name r = c @ key_name s \<longleftrightarrow> b = c \<and> key_name r = key_name s"
    using masked_append_inject [OF b(4) c(4) b(2) c(2) b(3) c(3)]
      zero_notin_key_name [OF assms(3)] zero_notin_key_name [OF assms(4)] by blast
  then show ?thesis
    using True b(1) c(1) assms(1,2)
    by (auto simp: msgToKeyWithSubnet_eq append_eq_append_conv key_header_inject key_name_def)
next
  case False
  then show ?thesis
    using assms(1,2) by (auto simp: msgToKeyWithSubnet_eq append_eq_append_conv key_header_inject key_name_def)
qed

definition sample_net4 :: IPNet where
  "sample_net4 = \<lparr> net_IP = Some [192, 0, 2, 5], net_Mask = Some [255, 255, 255, 0] \<rparr>"

definition sample_net6 :: IPNet where
  "sample_net6 = \<lparr> net_IP = Some [192, 0, 2, 0, 0, 0, 0, 0, 0, 0, 0, 0, 0, 0, 0, 1],
     net_Mask = Some [255, 255, 255, 0, 0, 0, 0, 0, 0, 0, 0, 0, 0, 0, 0, 0] \<rparr>"

lemma sample_subnets:
  "cacheSubnet (Some sample_net4) = Some (Some [192, 0, 2, 0], 24)"
  "cacheSubnet (Some sample_net6) = Some (Some [192, 0, 2, 0, 0, 0, 0, 0, 0, 0, 0, 0, 0, 0, 0, 0], 24)"
  by code_simp+

lemma sample_nul_free: "nul_free (q_Name (hd (m_Question sample_req)))"
  by code_simp

theorem msgToKeyWithSubnet_inject_witness:
  "msgToKeyWithSubnet (sample_lib sample_resp) sample_req (Some [192, 0, 2, 0]) 24 \<noteq>
   msgToKeyWithSubnet (sample_lib sample_resp) sample_req
     (Some [192, 0, 2, 0, 0, 0, 0, 0, 0, 0, 0, 0, 0, 0, 0, 0]) 24"
  using msgToKeyWithSubnet_inject [OF sample_question_length(1) sample_question_length(1)
      sample_nul_free sample_nul_free sample_subnets, of "sample_lib sample_resp"]
  by simp

end
