(* ===== verification/Response_Cache.thy ===== *)
theory Response_Cache
  imports Cache_Ttl Cache_Key
begin

text \<open>
  The type \<^verbatim>\<open>cache\<close> of \<^verbatim>\<open>proxy/cache.go\<close> with all its methods: entries are packed
  to bytes with their expiration time (\<^verbatim>\<open>pack\<close>), stored in one of two byte caches
  (general, and by client subnet) and turned back into a response to the
  current request (\<^verbatim>\<open>unpackItem\<close>).  The clock is an argument: \<^verbatim>\<open>now\<close> is the
  current time in nanoseconds since the epoch.  The locks serialise the calls,
  so an interleaving of callers is a sequence of operations.
\<close>

subsection \<open>Items\<close>

record cacheItem =
  ci_m :: Msg
  ci_u :: string
  ci_ttl :: uint32

record 'c cache =
  items :: 'c
  itemsWithSubnet :: "'c option"
  optimistic :: bool
  optimisticTTL :: int
  optimisticMaxAge :: int

definition second :: int where
  "second = 1000000000"

definition unix :: "int \<Rightarrow> int" where
  "unix now = now div second"

definition respToItem :: "Msg option \<Rightarrow> string option \<Rightarrow> cacheItem option go" where
  "respToItem mo u = do {
     ttl \<leftarrow> cacheTTL mo;
     Some (case mo of
        None \<Rightarrow> None
      | Some m \<Rightarrow> if ttl = 0 then None
          else Some \<lparr> ci_m = m, ci_u = (case u of None \<Rightarrow> '''' | Some a \<Rightarrow> a), ci_ttl = ttl \<rparr>) }"

definition packedMsgLenSz :: nat where "packedMsgLenSz = 2"
definition expTimeSz :: nat where "expTimeSz = 8"
definition minPackedLen :: nat where "minPackedLen = expTimeSz + packedMsgLenSz"

datatype pack_error = PackingMessage | FrameLength

definition pack :: "dnslib \<Rightarrow> int \<Rightarrow> cacheItem \<Rightarrow> pack_error + bytes" where
  "pack L now ci = (case lib_Pack L (ci_m ci) of
      None \<Rightarrow> Inl PackingMessage
    | Some pm \<Rightarrow> (case LengthPrefix (int (length pm)) of
          None \<Rightarrow> Inl FrameLength
        | Some prefix \<Rightarrow> Inr (put_uint64 (word_of_int (unix now + uint (ci_ttl ci))) @ prefix @ pm @
                               bytes_of (ci_u ci))))"

text \<open>The remaining lifetime of an entry as a TTL, clamped to 32 bits.\<close>

definition clamp_ttl :: "int \<Rightarrow> uint32" where
  "clamp_ttl seconds =
     (if seconds < 0 then 0 else if seconds > 0xffffffff then 0xffffffff else word_of_int seconds)"

definition unpackItem :: "dnslib \<Rightarrow> 'c cache \<Rightarrow> int \<Rightarrow> bytes \<Rightarrow> Msg \<Rightarrow> (cacheItem option \<times> bool) go" where
  "unpackItem L c now data req =
     (if length data < minPackedLen then Some (None, False)
      else do {
        e \<leftarrow> get_uint64 (take expTimeSz data);
        let expire = sint e;
            expired = now > expire * second;
            rest = drop expTimeSz data;
            ttl = (if expired then word_of_int (optimisticTTL c div second)
                   else clamp_ttl (expire - unix now))
        in if expired \<and> (\<not> optimistic c \<or> now > expire * second + optimisticMaxAge c)
           then Some (None, expired)
           else do {
             l \<leftarrow> get_uint16 (take packedMsgLenSz rest);
             let rest = drop packedMsgLenSz rest
             in if l = 0 then Some (None, expired)
                else (case lib_Unpack L (take (unat l) rest) of
                    None \<Rightarrow> Some (None, expired)
                  | Some m \<Rightarrow>
                      let res = (lib_SetRcode L req (m_Rcode m))
                            \<lparr>m_AuthenticatedData := m_AuthenticatedData m,
                             m_RecursionAvailable := m_RecursionAvailable m\<rparr>
                      in do {
                        res \<leftarrow> filterMsg res m (m_AuthenticatedData req) (msg_Do L req) ttl;
                        Some (Some \<lparr> ci_m = res, ci_u = string_of (drop (unat l) rest), ci_ttl = 0 \<rparr>,
                              expired) }) } })"

subsection \<open>Operations\<close>

record cacheConfig =
  cfg_size :: int
  cfg_optimisticTTL :: int
  cfg_optimisticMaxAge :: int
  cfg_withECS :: bool
  cfg_optimistic :: bool

definition defaultCacheSize :: nat where
  "defaultCacheSize = 64 * 1024"

definition createCache :: "'c glcache \<Rightarrow> int \<Rightarrow> 'c" where
  "createCache G cacheSize = gl_New G (if cacheSize > 0 then nat cacheSize else defaultCacheSize)"

definition newCache :: "'c glcache \<Rightarrow> cacheConfig \<Rightarrow> 'c cache" where
  "newCache G conf = \<lparr> items = createCache G (cfg_size conf),
     itemsWithSubnet = (if cfg_withECS conf then Some (createCache G (cfg_size conf)) else None),
     optimistic = cfg_optimistic conf, optimisticTTL = cfg_optimisticTTL conf,
     optimisticMaxAge = cfg_optimisticMaxAge conf \<rparr>"

definition canLookUpInCache :: "'c option \<Rightarrow> Msg \<Rightarrow> bool" where
  "canLookUpInCache cache req = (cache \<noteq> None \<and> length (m_Question req) = 1)"

type_synonym lookup_result = "cacheItem option \<times> bool \<times> bytes option"

definition get :: "dnslib \<Rightarrow> 'c glcache \<Rightarrow> 'c cache \<Rightarrow> int \<Rightarrow> Msg \<Rightarrow> (lookup_result \<times> 'c cache) go" where
  "get L G c now req =
     (if \<not> canLookUpInCache (Some (items c)) req then Some ((None, False, None), c)
      else do {
        key \<leftarrow> msgToKey L req;
        let (data, it) = gl_Get G (items c) key; c = c\<lparr>items := it\<rparr> in
        case data of
          None \<Rightarrow> Some ((None, False, Some key), c)
        | Some d \<Rightarrow> do {
            (ci, expired) \<leftarrow> unpackItem L c now d req;
            Some ((ci, expired, Some key),
                  if ci = None then c\<lparr>items := gl_Del G (items c) key\<rparr> else c) } })"

definition getWithSubnet ::
  "dnslib \<Rightarrow> 'c glcache \<Rightarrow> 'c cache \<Rightarrow> int \<Rightarrow> Msg \<Rightarrow> IPNet option \<Rightarrow> (lookup_result \<times> 'c cache) go" where
  "getWithSubnet L G c now req n =
     (case itemsWithSubnet c of
        None \<Rightarrow> Some ((None, False, None), c)
      | Some its \<Rightarrow>
        if \<not> canLookUpInCache (itemsWithSubnet c) req then Some ((None, False, None), c)
        else (case cacheSubnet n of
            None \<Rightarrow> Some ((None, False, None), c)
          | Some (ecsIP, m) \<Rightarrow> do {
              k \<leftarrow> msgToKeyWithSubnet L req ecsIP m;
              let (data, its) = gl_Get G its k in do {
              (data, k, its) \<leftarrow> subnet_search G its (length (ip_bytes ecsIP)) (unat m) k data;
              let c = c\<lparr>itemsWithSubnet := Some its\<rparr> in
              case data of
                None \<Rightarrow> Some ((None, False, Some k), c)
              | Some d \<Rightarrow> do {
                  (ci, expired) \<leftarrow> unpackItem L c now d req;
                  Some ((ci, expired, Some k),
                        if ci = None then c\<lparr>itemsWithSubnet := Some (gl_Del G its k)\<rparr> else c) } } }))"

definition set_resp ::
  "dnslib \<Rightarrow> 'c glcache \<Rightarrow> 'c cache \<Rightarrow> int \<Rightarrow> Msg \<Rightarrow> Msg option \<Rightarrow> string option \<Rightarrow> 'c cache go" where
  "set_resp L G c now req m u = do {
     item \<leftarrow> respToItem m u;
     case item of
       None \<Rightarrow> Some c
     | Some ci \<Rightarrow> do {
         key \<leftarrow> msgToKey L req;
         case pack L now ci of
           Inl _ \<Rightarrow> Some c
         | Inr packed \<Rightarrow> Some (c\<lparr>items := gl_Set G (items c) key packed\<rparr>) } }"

text \<open>A call with a nil subnet cache would dereference nil; the callers guard it by the configuration.\<close>

definition setWithSubnet ::
  "dnslib \<Rightarrow> 'c glcache \<Rightarrow> 'c cache \<Rightarrow> int \<Rightarrow> Msg \<Rightarrow> Msg option \<Rightarrow> string option \<Rightarrow> IPNet option \<Rightarrow>
     'c cache go" where
  "setWithSubnet L G c now req m u n = do {
     item \<leftarrow> respToItem m u;
     case item of
       None \<Rightarrow> Some c
     | Some ci \<Rightarrow> (case cacheSubnet n of
           None \<Rightarrow> Some c
         | Some (ip, pref) \<Rightarrow> do {
             key \<leftarrow> msgToKeyWithSubnet L req ip pref;
             case pack L now ci of
               Inl _ \<Rightarrow> Some c
             | Inr packed \<Rightarrow> do {
                 its \<leftarrow> itemsWithSubnet c;
                 Some (c\<lparr>itemsWithSubnet := Some (gl_Set G its key packed)\<rparr>) } }) }"

definition clearItems :: "'c glcache \<Rightarrow> 'c cache \<Rightarrow> 'c cache" where
  "clearItems G c = c\<lparr>items := gl_Clear G (items c)\<rparr>"

definition clearItemsWithSubnet :: "'c glcache \<Rightarrow> 'c cache \<Rightarrow> 'c cache" where
  "clearItemsWithSubnet G c = (case itemsWithSubnet c of
      None \<Rightarrow> c | Some its \<Rightarrow> c\<lparr>itemsWithSubnet := Some (gl_Clear G its)\<rparr>)"

subsection \<open>Packed entries\<close>

text \<open>The wire format keeps the question section of a message.\<close>

definition lib_wire_law :: "dnslib \<Rightarrow> bool" where
  "lib_wire_law L \<longleftrightarrow>
     (\<forall>m b m'. lib_Pack L m = Some b \<longrightarrow> lib_Unpack L b = Some m' \<longrightarrow> m_Question m' = m_Question m)"

lemma length_pack:
  assumes "pack L now ci = Inr d" shows "minPackedLen \<le> length d"
  using assms by (auto simp: pack_def minPackedLen_def expTimeSz_def packedMsgLenSz_def
      dest!: length_LengthPrefix split: option.splits if_splits)

text \<open>What an entry packed at one time becomes at another.\<close>

definition unpacked :: "dnslib \<Rightarrow> 'c cache \<Rightarrow> int \<Rightarrow> int \<Rightarrow> bytes \<Rightarrow> string \<Rightarrow> Msg \<Rightarrow> (cacheItem option \<times> bool) go" where
  "unpacked L c now expire pm u req =
     (let expired = now > expire * second in
      if expired \<and> (\<not> optimistic c \<or> now > expire * second + optimisticMaxAge c) then Some (None, expired)
      else if pm = [] then Some (None, expired)
      else (case lib_Unpack L pm of
          None \<Rightarrow> Some (None, expired)
        | Some m \<Rightarrow> do {
            res \<leftarrow> filterMsg ((lib_SetRcode L req (m_Rcode m))
                \<lparr>m_AuthenticatedData := m_AuthenticatedData m, m_RecursionAvailable := m_RecursionAvailable m\<rparr>)
              m (m_AuthenticatedData req) (msg_Do L req)
              (if expired then word_of_int (optimisticTTL c div second) else clamp_ttl (expire - unix now));
            Some (Some \<lparr> ci_m = res, ci_u = u, ci_ttl = 0 \<rparr>, expired) }))"

lemma unpack_pack:
  assumes "pack L now0 ci = Inr d"
  obtains pm where "lib_Pack L (ci_m ci) = Some pm" "length pm \<le> 65535"
    "unpackItem L c now d req =
       unpacked L c now (sint (word_of_int (unix now0 + uint (ci_ttl ci)) :: uint64)) pm (ci_u ci) req"
proof -
  from assms obtain pm where pm: "lib_Pack L (ci_m ci) = Some pm" "length pm \<le> 65535"
    and d: "d = put_uint64 (word_of_int (unix now0 + uint (ci_ttl ci))) @
        put_uint16 (word_of_nat (length pm)) @ pm @ bytes_of (ci_u ci)"
    by (auto simp: pack_def split: option.splits if_splits)
  have len: "unat (word_of_nat (length pm) :: uint16) = length pm"
    using pm(2) by (simp add: unat_of_nat)
  have get: "get_uint64 (put_uint64 w) = Some w" "get_uint16 (put_uint16 v) = Some v" for w v
    using get_put_uint64 [of w "[]"] get_put_uint16 [of v "[]"] by simp_all
  have "(word_of_nat (length pm) :: uint16) = 0 \<longleftrightarrow> pm = []"
    using len by (metis length_0_conv unat_eq_zero)
  moreover define w where "w = (word_of_int (unix now0 + uint (ci_ttl ci)) :: uint64)"
  ultimately have "unpackItem L c now d req = unpacked L c now (sint w) pm (ci_u ci) req"
    unfolding d w_def [symmetric] unpackItem_def unpacked_def
    by (cases "lib_Unpack L pm")
       (auto simp: minPackedLen_def expTimeSz_def packedMsgLenSz_def get len Let_def)
  with pm show thesis unfolding w_def by (rule that)
qed

subsection \<open>Invariant\<close>

definition stored_entry :: "dnslib \<Rightarrow> bytes \<Rightarrow> bool" where
  "stored_entry L d \<longleftrightarrow> (\<exists>now ci. pack L now ci = Inr d \<and> length (m_Question (ci_m ci)) = 1)"

definition store_inv :: "dnslib \<Rightarrow> 'c glcache \<Rightarrow> 'c \<Rightarrow> bool" where
  "store_inv L G its \<longleftrightarrow> (\<forall>k d. gl_items G its k = Some d \<longrightarrow> stored_entry L d)"

definition cache_libs :: "dnslib \<Rightarrow> 'c glcache \<Rightarrow> bool" where
  "cache_libs L G \<longleftrightarrow> glcache_law G \<and> lib_wire_law L \<and> lib_reply_law L"

definition cache_inv :: "dnslib \<Rightarrow> 'c glcache \<Rightarrow> 'c cache \<Rightarrow> bool" where
  "cache_inv L G c \<longleftrightarrow> store_inv L G (items c) \<and>
     (case itemsWithSubnet c of None \<Rightarrow> True | Some its \<Rightarrow> store_inv L G its)"

lemma filterMsg_answers:
  assumes "lib_reply_law L" "length (m_Question m) = 1" "length (m_Question req) = 1"
  obtains res where "filterMsg ((lib_SetRcode L req code)\<lparr>m_AuthenticatedData := a, m_RecursionAvailable := b\<rparr>)
      m ad dobit ttl = Some res" "answers req res" "m_Rcode res = code"
  using assms that
  by (auto simp: filterMsg_def answers_def lib_reply_law_def length_1_conv go_simps empty_Msg_def)

lemma unpack_stored:
  assumes "stored_entry L d" "cache_libs L G" "length (m_Question req) = 1"
  shows "\<exists>r e. unpackItem L c now d req = Some (r, e) \<and> (\<forall>ci. r = Some ci \<longrightarrow> answers req (ci_m ci))"
proof -
  from assms(1) obtain now0 ci where ci: "pack L now0 ci = Inr d" "length (m_Question (ci_m ci)) = 1"
    by (auto simp: stored_entry_def)
  obtain pm where pm: "lib_Pack L (ci_m ci) = Some pm" and eq: "unpackItem L c now d req =
      unpacked L c now (sint (word_of_int (unix now0 + uint (ci_ttl ci)) :: uint64)) pm (ci_u ci) req"
    using unpack_pack [OF ci(1)] by metis
  show ?thesis
  proof (cases "lib_Unpack L pm")
    case (Some m)
    then have "length (m_Question m) = 1"
      using pm ci(2) assms(2) unfolding cache_libs_def lib_wire_law_def by simp
    define expire where "expire = sint (word_of_int (unix now0 + uint (ci_ttl ci)) :: uint64)"
    define ttl where "ttl = (if now > expire * second then word_of_int (optimisticTTL c div second)
      else clamp_ttl (expire - unix now))"
    obtain res where "filterMsg ((lib_SetRcode L req (m_Rcode m))
        \<lparr>m_AuthenticatedData := m_AuthenticatedData m, m_RecursionAvailable := m_RecursionAvailable m\<rparr>)
        m (m_AuthenticatedData req) (msg_Do L req) ttl = Some res" "answers req res"
      using filterMsg_answers [of L m req] \<open>length (m_Question m) = 1\<close> assms(2,3)
      unfolding cache_libs_def by metis
    then show ?thesis
      unfolding eq unpacked_def expire_def [symmetric] ttl_def [symmetric] Let_def
      by (auto simp: Some)
  qed (auto simp: eq unpacked_def Let_def)
qed

lemma respToItem_no_panic: "\<exists>r. respToItem m u = Some r"
  using cacheTTL_no_panic [of m] by (auto simp: respToItem_def)

lemma respToItem_SomeD:
  assumes "respToItem mo u = Some (Some ci)"
  shows "mo = Some (ci_m ci)" "length (m_Question (ci_m ci)) = 1" "ci_ttl ci \<noteq> 0"
    "cacheTTL mo = Some (ci_ttl ci)"
  using assms cacheTTL_nonzeroD(3)
  by (auto simp: respToItem_def split: option.splits if_splits Option.bind_splits)

lemma respToItem_stored:
  "respToItem mo u = Some (Some ci) \<Longrightarrow> pack L now ci = Inr d \<Longrightarrow> stored_entry L d"
  using respToItem_SomeD(2) unfolding stored_entry_def by blast

lemma store_inv_Set:
  assumes "glcache_law G" "store_inv L G its" "stored_entry L d"
  shows "store_inv L G (gl_Set G its k d)"
  using assms gl_items_SetD [OF assms(1)] unfolding store_inv_def by metis

lemma store_inv_Del: "glcache_law G \<Longrightarrow> store_inv L G its \<Longrightarrow> store_inv L G (gl_Del G its k)"
  by (auto simp: store_inv_def gl_items_Del split: if_splits)

lemma store_inv_Clear: "glcache_law G \<Longrightarrow> store_inv L G (gl_Clear G its)"
  by (simp add: store_inv_def gl_items_Clear)

lemma store_inv_New: "glcache_law G \<Longrightarrow> store_inv L G (gl_New G n)"
  by (simp add: store_inv_def gl_items_New)

lemma store_inv_cong: "gl_items G its = gl_items G its' \<Longrightarrow> store_inv L G its = store_inv L G its'"
  by (simp add: store_inv_def)

lemma newCache_inv [inv_intros]: "cache_libs L G \<Longrightarrow> cache_inv L G (newCache G conf)"
  by (auto simp: cache_inv_def newCache_def createCache_def cache_libs_def store_inv_New)

subsection \<open>Every operation keeps the invariant and none panics\<close>

lemma get_correct:
  assumes "cache_libs L G" "cache_inv L G c"
  shows "\<exists>ci e k c'. get L G c now req = Some ((ci, e, k), c') \<and> cache_inv L G c' \<and>
    (\<forall>it. ci = Some it \<longrightarrow> answers req (ci_m it))"
proof (cases "canLookUpInCache (Some (items c)) req")
  case True
  then have q: "length (m_Question req) = 1" by (simp add: canLookUpInCache_def)
  have law: "glcache_law G" using assms(1) by (simp add: cache_libs_def)
  let ?key = "key_header L req @ key_name req"
  obtain data its where g: "gl_Get G (items c) ?key = (data, its)" by force
  note gd = gl_GetD [OF law g]
  have its: "store_inv L G its" using assms(2) gd(2) by (auto simp: cache_inv_def cong: store_inv_cong)
  show ?thesis
  proof (cases data)
    case None
    then show ?thesis
      using True q g assms(2) its by (auto simp: get_def msgToKey_eq cache_inv_def)
  next
    case (Some d)
    then have "stored_entry L d" using gd(1) assms(2) by (auto simp: cache_inv_def store_inv_def)
    from unpack_stored [OF this assms(1) q, of "c\<lparr>items := its\<rparr>" now]
    obtain r e where "unpackItem L (c\<lparr>items := its\<rparr>) now d req = Some (r, e)"
      "\<forall>ci. r = Some ci \<longrightarrow> answers req (ci_m ci)" by blast
    then show ?thesis
      using True q g Some assms(2) its store_inv_Del [OF law its]
      by (auto simp: get_def msgToKey_eq cache_inv_def Let_def)
  qed
qed (use assms in \<open>auto simp: get_def\<close>)

lemma getWithSubnet_search:
  assumes "glcache_law G" "length (m_Question req) = 1" "cacheSubnet n = Some (ip, m)"
  shows "\<exists>k d its'. do { k \<leftarrow> msgToKeyWithSubnet L req ip m;
       let (data, its) = gl_Get G its k in subnet_search G its (length (ip_bytes ip)) (unat m) k data } =
     Some (d, k, its') \<and> d = gl_items G its k \<and> gl_items G its' = gl_items G its \<and>
     k = subnet_key (key_header L req) (ip_bytes ip)
       (longest_prefix (gl_items G its) (\<lambda>j. subnet_key (key_header L req) (ip_bytes ip) j (key_name req)) (unat m))
       (key_name req)"
proof -
  obtain k where k: "msgToKeyWithSubnet L req ip m = Some k"
    "k = subnet_key (key_header L req) (ip_bytes ip) (unat m) (key_name req)" "unat m \<le> 8 * length (ip_bytes ip)"
    using cacheSubnetD [OF assms(3)] key_subnet_key [OF assms(2)]
    by (auto simp: msgToKeyWithSubnet_eq [OF assms(2)] subnet_key_def)
  obtain data its' where g: "gl_Get G its k = (data, its')" by force
  note gd = gl_GetD [OF assms(1) g]
  have "data = gl_items G its' k" using gd by simp
  from subnet_search_spec [OF assms(1) length_key_header k(3,2) this] gd(2) g k(1)
  show ?thesis by auto
qed

lemma getWithSubnet_correct:
  assumes "cache_libs L G" "cache_inv L G c"
  shows "\<exists>ci e k c'. getWithSubnet L G c now req n = Some ((ci, e, k), c') \<and> cache_inv L G c' \<and>
    (\<forall>it. ci = Some it \<longrightarrow> answers req (ci_m it))"
proof (cases "itemsWithSubnet c")
  case (Some its)
  show ?thesis
  proof (cases "length (m_Question req) = 1 \<and> cacheSubnet n \<noteq> None")
    case True
    then obtain ip m where sn: "cacheSubnet n = Some (ip, m)" and q: "length (m_Question req) = 1" by auto
    have law: "glcache_law G" using assms(1) by (simp add: cache_libs_def)
    from getWithSubnet_search [OF law q sn, of L its]
    obtain k d its' where s: "do { k \<leftarrow> msgToKeyWithSubnet L req ip m;
         let (data, its) = gl_Get G its k in subnet_search G its (length (ip_bytes ip)) (unat m) k data } =
       Some (d, k, its')" "d = gl_items G its k" "gl_items G its' = gl_items G its" by blast
    let ?c = "c\<lparr>itemsWithSubnet := Some its'\<rparr>"
    have get: "getWithSubnet L G c now req n = (case d of None \<Rightarrow> Some ((None, False, Some k), ?c)
        | Some d \<Rightarrow> do { (ci, expired) \<leftarrow> unpackItem L ?c now d req;
            Some ((ci, expired, Some k),
              if ci = None then ?c\<lparr>itemsWithSubnet := Some (gl_Del G its' k)\<rparr> else ?c) })"
      using s(1) Some q sn
      by (auto simp: getWithSubnet_def canLookUpInCache_def Let_def split: prod.splits Option.bind_splits)
    have its': "store_inv L G its'" using assms(2) Some s(3) by (auto simp: cache_inv_def cong: store_inv_cong)
    then have inv: "cache_inv L G ?c" "cache_inv L G (?c\<lparr>itemsWithSubnet := Some (gl_Del G its' k)\<rparr>)"
      using assms(2) store_inv_Del [OF law its'] by (auto simp: cache_inv_def)
    show ?thesis
    proof (cases d)
      case None
      with get inv show ?thesis by auto
    next
      case (Some x)
      then have "stored_entry L x" using s(2,3) its' by (metis store_inv_def)
      from unpack_stored [OF this assms(1) q, of ?c now] get inv Some show ?thesis by auto
    qed
  qed (use Some assms in \<open>auto simp: getWithSubnet_def canLookUpInCache_def split: option.splits\<close>)
qed (use assms in \<open>auto simp: getWithSubnet_def\<close>)

lemma set_resp_correct:
  assumes "cache_libs L G" "cache_inv L G c" "length (m_Question req) = 1"
  shows "\<exists>c'. set_resp L G c now req m u = Some c' \<and> cache_inv L G c'"
proof -
  obtain r where r: "respToItem m u = Some r" using respToItem_no_panic by blast
  have "store_inv L G (gl_Set G (items c) k d)" if "pack L now ci = Inr d" "r = Some ci" for k ci d
    using that r assms by (auto simp: cache_libs_def cache_inv_def intro!: store_inv_Set respToItem_stored)
  then show ?thesis
    using r assms by (auto simp: set_resp_def msgToKey_eq cache_inv_def split: option.splits sum.splits)
qed

lemma setWithSubnet_correct:
  assumes "cache_libs L G" "cache_inv L G c" "length (m_Question req) = 1" "itemsWithSubnet c \<noteq> None"
  shows "\<exists>c'. setWithSubnet L G c now req m u n = Some c' \<and> cache_inv L G c' \<and> itemsWithSubnet c' \<noteq> None"
proof -
  obtain its where its: "itemsWithSubnet c = Some its" using assms(4) by auto
  obtain r where r: "respToItem m u = Some r" using respToItem_no_panic by blast
  have "store_inv L G (gl_Set G its k d)" if "pack L now ci = Inr d" "r = Some ci" for k ci d
    using that r its assms by (auto simp: cache_libs_def cache_inv_def intro!: store_inv_Set respToItem_stored)
  then show ?thesis
    using r its assms
    by (cases r; cases "cacheSubnet n"; cases "pack L now (the r)")
       (auto simp: setWithSubnet_def msgToKeyWithSubnet_eq cache_inv_def)
qed

lemma clear_correct:
  assumes "cache_libs L G" "cache_inv L G c"
  shows "cache_inv L G (clearItems G c)" "cache_inv L G (clearItemsWithSubnet G c)"
  using assms by (auto simp: cache_inv_def clearItems_def clearItemsWithSubnet_def cache_libs_def
      store_inv_Clear split: option.splits)

subsection \<open>The contract of a response store\<close>

text \<open>
  What the proxy relies on when it looks up, stores and clears: total
  operations, hits that answer the request, nothing found after a clear.  The
  general and the subnet cache both provide it.
\<close>

type_synonym 's lookup_fun = "'s \<Rightarrow> int \<Rightarrow> Msg \<Rightarrow> (lookup_result \<times> 's) go"
type_synonym 's store_fun = "'s \<Rightarrow> int \<Rightarrow> Msg \<Rightarrow> Msg option \<Rightarrow> string option \<Rightarrow> 's go"

datatype store_op = Lookup int Msg | Store int Msg "Msg option" "string option" | Clear

fun run_store :: "'s lookup_fun \<Rightarrow> 's store_fun \<Rightarrow> ('s \<Rightarrow> 's) \<Rightarrow> store_op list \<Rightarrow> 's \<Rightarrow>
    ((Msg \<times> cacheItem) list \<times> 's) go" where
  "run_store lk st cl [] s = Some ([], s)"
| "run_store lk st cl (Lookup now req # ops) s = do {
     ((ci, _, _), s) \<leftarrow> lk s now req;
     (hits, s) \<leftarrow> run_store lk st cl ops s;
     Some ((case ci of None \<Rightarrow> hits | Some it \<Rightarrow> (req, it) # hits), s) }"
| "run_store lk st cl (Store now req m u # ops) s = do {
     s \<leftarrow> st s now req m u; run_store lk st cl ops s }"
| "run_store lk st cl (Clear # ops) s = run_store lk st cl ops (cl s)"

definition op_ok :: "store_op \<Rightarrow> bool" where
  "op_ok op = (case op of Store _ req _ _ \<Rightarrow> length (m_Question req) = 1 | _ \<Rightarrow> True)"

locale response_store =
  fixes inv :: "'s \<Rightarrow> bool"
    and lookup :: "'s lookup_fun" and store :: "'s store_fun" and clear :: "'s \<Rightarrow> 's"
  assumes lookup: "inv s \<Longrightarrow> \<exists>ci e k s'. lookup s now req = Some ((ci, e, k), s') \<and> inv s' \<and>
      (\<forall>it. ci = Some it \<longrightarrow> answers req (ci_m it))"
    and store: "inv s \<Longrightarrow> length (m_Question req) = 1 \<Longrightarrow> \<exists>s'. store s now req m u = Some s' \<and> inv s'"
    and clear: "inv s \<Longrightarrow> inv (clear s)"
    and lookup_clear: "inv s \<Longrightarrow> \<exists>e k s'. lookup (clear s) now req = Some ((None, e, k), s')"
begin

lemma run_total:
  assumes "inv s" "list_all op_ok ops"
  shows "\<exists>hits s'. run_store lookup store clear ops s = Some (hits, s') \<and> inv s' \<and>
    (\<forall>(req, it) \<in> set hits. answers req (ci_m it))"
  using assms
proof (induction ops arbitrary: s)
  case (Cons op ops)
  show ?case
  proof (cases op)
    case (Lookup now req)
    from lookup [OF Cons.prems(1), of now req]
    obtain ci e k s1 where 1: "lookup s now req = Some ((ci, e, k), s1)" "inv s1"
      "\<forall>it. ci = Some it \<longrightarrow> answers req (ci_m it)" by blast
    from Cons.IH [OF 1(2)] Cons.prems(2)
    obtain hits s' where 2: "run_store lookup store clear ops s1 = Some (hits, s')" "inv s'"
      "\<forall>(req, it) \<in> set hits. answers req (ci_m it)" by auto
    show ?thesis using 1 2 Lookup by (auto split: option.splits)
  next
    case (Store now req m u)
    with store [OF Cons.prems(1), of req now m u] Cons.prems Cons.IH show ?thesis
      by (auto simp: op_ok_def)
  next
    case Clear
    with Cons clear [OF Cons.prems(1)] show ?thesis by simp
  qed
qed simp

lemma clear_forgets:
  assumes "inv s" shows "run_store lookup store clear [Clear, Lookup now req] s \<noteq> None"
    and "run_store lookup store clear [Clear, Lookup now req] s = Some (hits, s') \<Longrightarrow> hits = []"
  using lookup_clear [OF assms, of now req] by auto

end

interpretation general_cache: response_store "\<lambda>c. cache_libs L G \<and> cache_inv L G c"
  "get L G" "set_resp L G" "clearItems G" for L :: dnslib and G :: "'c glcache"
proof (unfold_locales, goal_cases)
  case (1 s now req)
  then show ?case using get_correct [of L G s now req] by auto
next
  case (2 s req now m u)
  then show ?case using set_resp_correct [of L G s req now m u] by auto
next
  case (3 s)
  then show ?case using clear_correct(1) by blast
next
  case (4 s now req)
  then have law: "glcache_law G" by (simp add: cache_libs_def)
  obtain d its where g: "gl_Get G (items (clearItems G s)) (key_header L req @ key_name req) = (d, its)" by force
  then have "d = None" using gl_GetD(1) [OF law g] gl_items_Clear [OF law] by (simp add: clearItems_def)
  with g show ?case by (auto simp: get_def canLookUpInCache_def msgToKey_eq)
qed

interpretation subnet_cache: response_store
  "\<lambda>c. cache_libs L G \<and> cache_inv L G c \<and> itemsWithSubnet c \<noteq> None"
  "\<lambda>c now req. getWithSubnet L G c now req n" "\<lambda>c now req m u. setWithSubnet L G c now req m u n"
  "clearItemsWithSubnet G" for L :: dnslib and G :: "'c glcache" and n :: "IPNet option"
proof (unfold_locales, goal_cases)
  case (1 s now req)
  have "itemsWithSubnet s' \<noteq> None" if "getWithSubnet L G s now req n = Some (r, s')" "itemsWithSubnet s \<noteq> None" for r s'
    using that by (auto simp: getWithSubnet_def Let_def split: option.splits if_splits prod.splits Option.bind_splits)
  with 1 show ?case using getWithSubnet_correct [of L G s now req n] by blast
next
  case (2 s req now m u)
  then show ?case using setWithSubnet_correct [of L G s req now m u n] by auto
next
  case (3 s)
  then show ?case using clear_correct(2) [of L G s] by (auto simp: clearItemsWithSubnet_def)
next
  case (4 s now req)
  then have law: "glcache_law G" by (simp add: cache_libs_def)
  obtain its where its: "itemsWithSubnet s = Some its" using 4 by auto
  then have c: "itemsWithSubnet (clearItemsWithSubnet G s) = Some (gl_Clear G its)"
    by (simp add: clearItemsWithSubnet_def)
  show ?case
  proof (cases "length (m_Question req) = 1 \<and> cacheSubnet n \<noteq> None")
    case True
    then obtain ip m where sn: "cacheSubnet n = Some (ip, m)" by auto
    from getWithSubnet_search [OF law _ sn, of req L "gl_Clear G its"] True
    obtain k its' where "do { k \<leftarrow> msgToKeyWithSubnet L req ip m;
         let (data, its) = gl_Get G (gl_Clear G its) k in
         subnet_search G its (length (ip_bytes ip)) (unat m) k data } = Some (None, k, its')"
      by (auto simp: gl_items_Clear [OF law])
    with c True sn show ?thesis
      by (auto simp: getWithSubnet_def canLookUpInCache_def Let_def split: prod.splits Option.bind_splits)
  qed (use c in \<open>auto simp: getWithSubnet_def canLookUpInCache_def split: option.splits\<close>)
qed

subsection \<open>Properties\<close>

lemma unpackItem_cong:
  "optimistic c = optimistic c' \<Longrightarrow> optimisticTTL c = optimisticTTL c' \<Longrightarrow>
   optimisticMaxAge c = optimisticMaxAge c' \<Longrightarrow> unpackItem L c now d req = unpackItem L c' now d req"
  by (simp only: unpackItem_def)

text \<open>The key that \<^verbatim>\<open>setWithSubnet\<close> uses for the prefix of length \<^verbatim>\<open>p\<close> of an address.\<close>

definition prefix_key :: "dnslib \<Rightarrow> Msg \<Rightarrow> ip \<Rightarrow> nat \<Rightarrow> bytes go" where
  "prefix_key L req ip p = msgToKeyWithSubnet L req (Some (mask_bytes p (ip_bytes ip))) (word_of_nat p)"

lemma prefix_key_eq:
  assumes "length (m_Question req) = 1" "p \<le> 128"
  shows "prefix_key L req ip p = Some (subnet_key (key_header L req) (ip_bytes ip) p (key_name req))"
proof -
  have "unat (word_of_nat p :: uint8) = p" using assms(2) by (simp add: unat_of_nat)
  then have "(word_of_nat p :: uint8) = 0 \<longleftrightarrow> p = 0" by (metis unat_eq_zero)
  then show ?thesis by (simp add: prefix_key_def msgToKeyWithSubnet_eq [OF assms(1)] subnet_key_def)
qed

text \<open>
  C12: a lookup by client subnet is a longest-prefix match.  It returns the key of some prefix length
  \<^verbatim>\<open>p\<close> not longer than the client's, exactly the key under which \<^verbatim>\<open>setWithSubnet\<close> stores that prefix;
  nothing is stored under any longer prefix of the client's address; and the result is the unpacked
  entry of that key, or nothing when no prefix is stored.  The in-place bit clearing of the loop never
  indexes out of range.
\<close>

theorem getWithSubnet_longest_prefix:
  assumes "cache_libs L G" "cache_inv L G c" "itemsWithSubnet c = Some its"
    and "length (m_Question req) = 1" "cacheSubnet n = Some (ip, m)"
  shows "\<exists>p ci e k c'. p \<le> unat m \<and>
    getWithSubnet L G c now req n = Some ((ci, e, Some k), c') \<and> prefix_key L req ip p = Some k \<and>
    (\<forall>j kj. p < j \<and> j \<le> unat m \<and> prefix_key L req ip j = Some kj \<longrightarrow> gl_items G its kj = None) \<and>
    (case gl_items G its k of
       None \<Rightarrow> ci = None \<and> (\<forall>j kj. j \<le> unat m \<and> prefix_key L req ip j = Some kj \<longrightarrow> gl_items G its kj = None)
     | Some d \<Rightarrow> unpackItem L c now d req = Some (ci, e))"
proof -
  have law: "glcache_law G" using assms(1) by (simp add: cache_libs_def)
  let ?key = "\<lambda>j. subnet_key (key_header L req) (ip_bytes ip) j (key_name req)"
  define p where "p = longest_prefix (gl_items G its) ?key (unat m)"
  from getWithSubnet_search [OF law assms(4,5), of L its]
  obtain its' where s: "do { k \<leftarrow> msgToKeyWithSubnet L req ip m;
       let (data, its) = gl_Get G its k in subnet_search G its (length (ip_bytes ip)) (unat m) k data } =
     Some (gl_items G its (?key p), ?key p, its')"
    unfolding p_def by blast
  have m: "unat m \<le> 128" using cacheSubnetD [OF assms(5)] by auto
  have keys: "prefix_key L req ip j = Some (?key j)" if "j \<le> unat m" for j
    using prefix_key_eq [OF assms(4)] that m by simp
  have p: "p \<le> unat m" unfolding p_def by (rule longest_prefix_le)
  have longer: "gl_items G its (?key j) = None" if "p < j" "j \<le> unat m" for j
    using longest_prefix_max [of j "unat m" "gl_items G its" ?key] that unfolding p_def by (meson leD)
  have none: "gl_items G its (?key j) = None" if "gl_items G its (?key p) = None" "j \<le> unat m" for j
    using longest_prefix_found [of j "unat m" "gl_items G its" ?key] that unfolding p_def by blast
  let ?c = "c\<lparr>itemsWithSubnet := Some its'\<rparr>"
  have get: "getWithSubnet L G c now req n = (case gl_items G its (?key p) of
        None \<Rightarrow> Some ((None, False, Some (?key p)), ?c)
      | Some d \<Rightarrow> do { (ci, expired) \<leftarrow> unpackItem L c now d req;
          Some ((ci, expired, Some (?key p)),
            if ci = None then ?c\<lparr>itemsWithSubnet := Some (gl_Del G its' (?key p))\<rparr> else ?c) })"
    using s assms(3-5) unpackItem_cong [of ?c c L now _ req]
    by (auto simp: getWithSubnet_def canLookUpInCache_def Let_def split: prod.splits Option.bind_splits option.splits)
  show ?thesis
  proof (cases "gl_items G its (?key p)")
    case None
    with get p keys longer none show ?thesis by (intro exI [of _ p]) auto
  next
    case (Some d)
    then have "stored_entry L d" using assms(2,3) by (auto simp: cache_inv_def store_inv_def)
    from unpack_stored [OF this assms(1,4)] obtain r e where "unpackItem L c now d req = Some (r, e)" by blast
    with get Some p keys longer show ?thesis by (intro exI [of _ p]) auto
  qed
qed

text \<open>
  No stale answers.  An entry is handed out only before its expiration time, or, marked as
  expired, when the cache is optimistic and the maximum age is not exceeded.
\<close>

theorem unpackItem_fresh:
  assumes "unpackItem L c now d req = Some (Some it, e)"
  shows "\<exists>w. get_uint64 d = Some w \<and> e = (now > sint w * second) \<and>
    (e \<longrightarrow> optimistic c \<and> now \<le> sint w * second + optimisticMaxAge c)"
proof -
  show ?thesis using assms
    by (auto simp: unpackItem_def Let_def expTimeSz_def get_uint64_take
        split: if_splits Option.bind_splits option.splits)
qed

lemma not_expired:
  assumes "unix now < expire" shows "\<not> now > expire * second"
proof -
  have "now < (unix now + 1) * second"
    using pos_mod_bound [of second now] by (simp add: unix_def second_def minus_mod_eq_mult_div [symmetric] algebra_simps)
  moreover have "(unix now + 1) * second \<le> expire * second"
    using assms by (simp add: second_def)
  ultimately show ?thesis by simp
qed

lemma clamp_ttl_left:
  assumes "t0 \<le> t1" "t1 < t0 + uint (ttl :: uint32)"
  shows "clamp_ttl (t0 + uint ttl - t1) = word_of_int (uint ttl - (t1 - t0))"
    and "word_of_int (uint ttl - (t1 - t0)) \<noteq> (0 :: uint32)"
proof -
  define s where "s = t0 + uint ttl - t1"
  have s: "0 < s" "s < 4294967296" "uint ttl - (t1 - t0) = s"
    using assms uint32_lt [of ttl] unfolding s_def by linarith+
  then show "clamp_ttl (t0 + uint ttl - t1) = word_of_int (uint ttl - (t1 - t0))"
    using s(1,2) by (simp add: s(3) s_def [symmetric] clamp_ttl_def)
  have "uint (word_of_int s :: uint32) = s" using s by (simp add: uint_word_of_int)
  with s show "word_of_int (uint ttl - (t1 - t0)) \<noteq> (0 :: uint32)" by force
qed

lemma sint_expire:
  assumes "0 \<le> t" "t < 2 ^ 62"
  shows "sint (word_of_int (unix t + uint (ttl :: uint32)) :: uint64) = unix t + uint ttl"
proof -
  have 0: "0 \<le> unix t" using assms(1) by (simp add: unix_def second_def pos_imp_zdiv_nonneg_iff)
  moreover have "unix t \<le> t"
    using 0 pos_mod_sign [of second t]
    by (simp add: unix_def second_def minus_mod_eq_mult_div [symmetric] algebra_simps flip: minus_mod_eq_mult_div)
  moreover have "t < 4611686018427387904" using assms(2) by simp
  moreover have "0 \<le> uint ttl" by simp
  moreover note uint32_lt [of ttl]
  ultimately have "- 9223372036854775808 \<le> unix t + uint ttl" "unix t + uint ttl < 9223372036854775808"
    by linarith+
  then show ?thesis by (intro sint_word_of_int_64) simp_all
qed



subsection \<open>Witnesses\<close>

lemma sample_wire_law: "lib_wire_law (sample_lib m0)"
  by (auto simp: lib_wire_law_def sample_lib_def split: if_splits)

lemma sample_cache_libs: "cache_libs (sample_lib m0) map_glcache"
  by (simp add: cache_libs_def map_glcache_law sample_reply_law sample_wire_law)

definition sample_conf :: cacheConfig where
  "sample_conf = \<lparr> cfg_size = 0, cfg_optimisticTTL = 0, cfg_optimisticMaxAge = 0, cfg_withECS = True,
     cfg_optimistic = False \<rparr>"

definition sample_cache :: "(bytes \<Rightarrow> bytes option) cache" where
  "sample_cache = newCache map_glcache sample_conf"


lemma sample_cacheTTL: "cacheTTL (Some sample_resp) = Some 60"
  by code_simp


lemma sample_cache_subnet: "itemsWithSubnet sample_cache = Some (\<lambda>_. None)"
  by (simp add: sample_cache_def newCache_def sample_conf_def createCache_def map_glcache_def)

theorem getWithSubnet_longest_prefix_witness:
  "\<exists>p ci e k c'. p \<le> 24 \<and>
    getWithSubnet (sample_lib sample_resp) map_glcache sample_cache 0 sample_req (Some sample_net4) =
      Some ((ci, e, Some k), c') \<and>
    prefix_key (sample_lib sample_resp) sample_req (Some [192, 0, 2, 0]) p = Some k \<and> ci = None"
proof -
  have "cache_inv (sample_lib sample_resp) map_glcache sample_cache"
    unfolding sample_cache_def by (rule newCache_inv [OF sample_cache_libs])
  from getWithSubnet_longest_prefix [OF sample_cache_libs this sample_cache_subnet
      sample_question_length(1) sample_subnets(1), of 0]
  show ?thesis by (auto simp: map_glcache_def)
qed

definition sample_entry :: bytes where
  "sample_entry = put_uint64 60 @ put_uint16 1 @ [7]"

theorem unpackItem_fresh_witness:
  "\<exists>it. unpackItem (sample_lib sample_resp) sample_cache 0 sample_entry sample_req = Some (Some it, False) \<and>
    (\<exists>w. get_uint64 sample_entry = Some w \<and> \<not> 0 > sint w * second)"
proof -
  have "\<exists>it. unpackItem (sample_lib sample_resp) sample_cache 0 sample_entry sample_req = Some (Some it, False)"
    by (simp add: unpackItem_def sample_entry_def minPackedLen_def expTimeSz_def packedMsgLenSz_def
        get_put_uint64 [of _ "[]", simplified] get_put_uint16 [of _ "[]", simplified] Let_def second_def
        sample_defs filterMsg_def go_simps)
  then obtain it where it: "unpackItem (sample_lib sample_resp) sample_cache 0 sample_entry sample_req =
      Some (Some it, False)" ..
  from unpackItem_fresh [OF it] it show ?thesis by blast
qed

end
