(* ===== verification/Go_Strings.thy ===== *)
theory Go_Strings
  imports Prelude_Go "HOL-Library.Sublist"
begin

text \<open>
  The functions of Go's package \<^verbatim>\<open>strings\<close> that the configuration parsers use, on
  ASCII strings, and the errors of the modelled packages with \<^verbatim>\<open>errors.Is\<close>.
\<close>

subsection \<open>Errors\<close>

datatype error =
    ErrNoUpstreams
  | ErrNoReply
  | ErrNoneResponded
  | ErrNoValue
  | ErrDrop
  | ErrMsg string
  | ErrJoin "error list"
  | ErrWrap string error

definition net_ErrClosed :: error where "net_ErrClosed = ErrMsg ''use of closed network connection''"

text \<open>\<^verbatim>\<open>errors.Is\<close>: the error itself or one it wraps.\<close>

fun errors_Is :: "error \<Rightarrow> error \<Rightarrow> bool" where
  "errors_Is t (ErrJoin es) = (t = ErrJoin es \<or> list_ex (errors_Is t) es)"
| "errors_Is t (ErrWrap s e) = (t = ErrWrap s e \<or> errors_Is t e)"
| "errors_Is t e = (t = e)"

text \<open>\<^verbatim>\<open>errors.Join\<close> of a list without nil errors: nil (here \<^term>\<open>None\<close>) when the list is empty.\<close>

definition errors_Join :: "error list \<Rightarrow> error option" where
  "errors_Join es = (if es = [] then None else Some (ErrJoin es))"

text \<open>\<^verbatim>\<open>errors.Join\<close>, which discards nil errors.\<close>

definition join_errors :: "error option list \<Rightarrow> error option" where
  "join_errors es = errors_Join (List.map_filter (\<lambda>e. e) es)"

subsection \<open>Strings\<close>

definition HasPrefix :: "string \<Rightarrow> string \<Rightarrow> bool" where
  "HasPrefix s p = (take (length p) s = p)"

definition TrimPrefix :: "string \<Rightarrow> string \<Rightarrow> string" where
  "TrimPrefix s p = (if HasPrefix s p then drop (length p) s else s)"

definition CutPrefix :: "string \<Rightarrow> string \<Rightarrow> string \<times> bool" where
  "CutPrefix s p = (if HasPrefix s p then (drop (length p) s, True) else (s, False))"

text \<open>\<^verbatim>\<open>strings.Cut\<close> with a non-empty separator.\<close>

fun Cut :: "string \<Rightarrow> string \<Rightarrow> string \<times> string \<times> bool" where
  "Cut [] sep = ([], [], False)"
| "Cut (c # s) sep =
     (if HasPrefix (c # s) sep then ([], drop (length sep) (c # s), True)
      else let (before, after, found) = Cut s sep in (c # before, after, found))"

text \<open>\<^verbatim>\<open>strings.Split\<close> at a single character.\<close>

fun Split :: "string \<Rightarrow> char \<Rightarrow> string list" where
  "Split [] sep = [[]]"
| "Split (c # s) sep =
     (if c = sep then [] # Split s sep
      else (case Split s sep of [] \<Rightarrow> [[c]] | w # ws \<Rightarrow> (c # w) # ws))"

definition is_space :: "char \<Rightarrow> bool" where
  "is_space c = ((of_char c :: nat) \<in> {9, 10, 11, 12, 13, 32})"

text \<open>\<^verbatim>\<open>strings.Fields\<close>; the second argument is the word read so far.\<close>

fun fields_loop :: "string \<Rightarrow> string \<Rightarrow> string list" where
  "fields_loop [] w = (if w = [] then [] else [w])"
| "fields_loop (c # s) w =
     (if is_space c then (if w = [] then fields_loop s [] else w # fields_loop s [])
      else fields_loop s (w @ [c]))"

definition Fields :: "string \<Rightarrow> string list" where
  "Fields s = fields_loop s []"

subsection \<open>Lemmas\<close>

lemma HasPrefix_iff: "HasPrefix s p \<longleftrightarrow> prefix p s"
  by (auto simp: HasPrefix_def prefix_def take_is_prefix) (metis append_take_drop_id)

lemma Cut_found:
  "Cut s sep = (a, b, True) \<Longrightarrow> s = a @ sep @ b"
proof (induction s sep arbitrary: a b rule: Cut.induct)
  case (2 c s sep)
  show ?case
  proof (cases "HasPrefix (c # s) sep")
    case True
    with 2 show ?thesis by (auto simp: HasPrefix_def) (metis append_take_drop_id)
  next
    case False
    with 2 show ?thesis by (auto split: prod.splits)
  qed
qed simp

lemma Cut_not_found: "Cut s sep = (a, b, False) \<Longrightarrow> a = s \<and> b = []"
  by (induction s sep arbitrary: a b rule: Cut.induct) (auto split: if_splits prod.splits)

lemma Cut_char_first: "Cut s [c] = (a, b, f) \<Longrightarrow> c \<notin> set a"
  by (induction s "[c]" arbitrary: a b f rule: Cut.induct) (auto simp: HasPrefix_def split: if_splits prod.splits)

lemma Cut_char_found_iff: "Cut s [c] = (a, b, f) \<Longrightarrow> f \<longleftrightarrow> c \<in> set s"
  by (induction s "[c]" arbitrary: a b f rule: Cut.induct) (auto simp: HasPrefix_def split: if_splits prod.splits)

lemma Cut_length: "Cut s sep = (a, b, f) \<Longrightarrow> sep \<noteq> [] \<Longrightarrow> s \<noteq> [] \<Longrightarrow> length b < length s"
proof -
  assume *: "Cut s sep = (a, b, f)" "sep \<noteq> []" "s \<noteq> []"
  show ?thesis
  proof (cases f)
    case True
    with * Cut_found [of s sep a b] have "length s = length a + length sep + length b" by simp
    then show ?thesis using *(2) by simp
  next
    case False
    with * Cut_not_found [of s sep a b] show ?thesis by simp
  qed
qed

lemma fields_loop_Nil: "fields_loop s w = [] \<longleftrightarrow> w = [] \<and> list_all is_space s"
  by (induction s w rule: fields_loop.induct) auto

lemma Fields_Nil: "Fields s = [] \<longleftrightarrow> list_all is_space s"
  by (simp add: Fields_def fields_loop_Nil)

end
