(* ===== verification/Upstream_Parallel.thy ===== *)
theory Upstream_Parallel
  imports Sample_Lib Go_Strings "HOL-Library.Multiset"
begin

text \<open>
  Concurrent exchanges with several upstreams (\<^verbatim>\<open>upstream/parallel.go\<close>).  The
  upstreams are values of any type \<^verbatim>\<open>'u\<close>, what they reply is a function
  \<^verbatim>\<open>ex\<close>, and the order in which the results come out of the channel is an
  argument: any permutation of the upstreams.  Shown: the first reply in that
  order wins, all replies are collected, and an error means that every
  upstream failed.
\<close>

subsection \<open>Definitions\<close>

type_synonym 'u exchange_fun = "'u \<Rightarrow> Msg \<Rightarrow> error + Msg option"

record 'u ExchangeAllResult =
  ear_Resp :: "Msg option"
  ear_Upstream :: 'u

text \<open>What a worker sends over the channel.\<close>

datatype 'u chan_value = ChanError error | ChanResult "'u ExchangeAllResult"

definition exchangeAsync :: "'u exchange_fun \<Rightarrow> Msg \<Rightarrow> 'u \<Rightarrow> 'u chan_value" where
  "exchangeAsync ex req u = (case ex u req of
      Inl err \<Rightarrow> ChanError err
    | Inr rep \<Rightarrow> ChanResult \<lparr> ear_Resp = rep, ear_Upstream = u \<rparr>)"

definition receiveAsyncResult :: "'u chan_value \<Rightarrow> error + 'u ExchangeAllResult" where
  "receiveAsyncResult v = (case v of
      ChanError err \<Rightarrow> Inl err
    | ChanResult r \<Rightarrow> if ear_Resp r = None then Inl ErrNoReply else Inr r)"

definition exchangeSingle :: "'u exchange_fun \<Rightarrow> 'u \<Rightarrow> Msg \<Rightarrow> error + Msg option \<times> 'u" where
  "exchangeSingle ex u req = (case ex u req of Inl err \<Rightarrow> Inl err | Inr resp \<Rightarrow> Inr (resp, u))"

text \<open>The receiving loop of \<^verbatim>\<open>ExchangeParallel\<close>, over the channel's contents in arrival order.\<close>

fun parallel_loop :: "'u chan_value list \<Rightarrow> error list \<Rightarrow> error + Msg option \<times> 'u" where
  "parallel_loop [] errs = Inl (if errs = [] then ErrNoneResponded else ErrJoin errs)"
| "parallel_loop (v # vs) errs = (case receiveAsyncResult v of
      Inl err \<Rightarrow> parallel_loop vs (if errors_Is ErrNoReply err then errs else errs @ [err])
    | Inr r \<Rightarrow> Inr (ear_Resp r, ear_Upstream r))"

definition ExchangeParallel ::
  "'u exchange_fun \<Rightarrow> 'u list \<Rightarrow> 'u list \<Rightarrow> Msg \<Rightarrow> error + Msg option \<times> 'u" where
  "ExchangeParallel ex arrivals ups req = (case ups of
      [] \<Rightarrow> Inl ErrNoUpstreams
    | [u] \<Rightarrow> exchangeSingle ex u req
    | _ \<Rightarrow> parallel_loop (map (exchangeAsync ex req) arrivals) [])"

fun all_loop :: "'u chan_value list \<Rightarrow> 'u ExchangeAllResult list \<Rightarrow> error list \<Rightarrow>
    'u ExchangeAllResult list \<times> error list" where
  "all_loop [] res errs = (res, errs)"
| "all_loop (v # vs) res errs = (case receiveAsyncResult v of
      Inl err \<Rightarrow> all_loop vs res (errs @ [err])
    | Inr r \<Rightarrow> all_loop vs (res @ [r]) errs)"

definition ExchangeAll ::
  "'u exchange_fun \<Rightarrow> 'u list \<Rightarrow> 'u list \<Rightarrow> Msg \<Rightarrow> error + 'u ExchangeAllResult list" where
  "ExchangeAll ex arrivals ups req = (case ups of
      [] \<Rightarrow> Inl ErrNoUpstreams
    | [u] \<Rightarrow> (case ex u req of
          Inl err \<Rightarrow> Inl err
        | Inr None \<Rightarrow> Inl ErrNoReply
        | Inr (Some rep) \<Rightarrow> Inr [\<lparr> ear_Resp = Some rep, ear_Upstream = u \<rparr>])
    | _ \<Rightarrow> (let (res, errs) = all_loop (map (exchangeAsync ex req) arrivals) [] [] in
            if length errs = length ups then Inl (ErrWrap ''all upstreams failed'' (ErrJoin errs)) else Inr res))"

subsection \<open>Reference\<close>

definition replied :: "'u exchange_fun \<Rightarrow> Msg \<Rightarrow> 'u \<Rightarrow> bool" where
  "replied ex req u = (case ex u req of Inr (Some _) \<Rightarrow> True | _ \<Rightarrow> False)"

definition reply_of :: "'u exchange_fun \<Rightarrow> Msg \<Rightarrow> 'u \<Rightarrow> 'u ExchangeAllResult" where
  "reply_of ex req u = \<lparr> ear_Resp = (case ex u req of Inr r \<Rightarrow> r | Inl _ \<Rightarrow> None), ear_Upstream = u \<rparr>"

lemma receive_exchange:
  "receiveAsyncResult (exchangeAsync ex req u) =
     (if replied ex req u then Inr (reply_of ex req u)
      else Inl (case ex u req of Inl e \<Rightarrow> e | Inr _ \<Rightarrow> ErrNoReply))"
  by (auto simp: receiveAsyncResult_def exchangeAsync_def replied_def reply_of_def
      split: sum.splits option.splits)

lemma reply_of_replied: "replied ex req u \<Longrightarrow> \<exists>m. ear_Resp (reply_of ex req u) = Some m \<and> ex u req = Inr (Some m)"
  by (auto simp: replied_def reply_of_def split: sum.splits option.splits)

lemma parallel_loop_find:
  "find (replied ex req) us = Some u \<Longrightarrow>
     parallel_loop (map (exchangeAsync ex req) us) errs = Inr (ear_Resp (reply_of ex req u), u)"
  by (induction us arbitrary: errs) (auto simp: receive_exchange reply_of_def split: if_splits)

lemma parallel_loop_error:
  "\<forall>u \<in> set us. \<not> replied ex req u \<Longrightarrow> \<exists>e. parallel_loop (map (exchangeAsync ex req) us) errs = Inl e"
  by (induction us arbitrary: errs) (auto simp: receive_exchange)

lemma all_loop_filter:
  "all_loop (map (exchangeAsync ex req) us) res errs =
     (res @ map (reply_of ex req) (filter (replied ex req) us),
      errs @ map (\<lambda>u. case ex u req of Inl e \<Rightarrow> e | Inr _ \<Rightarrow> ErrNoReply) (filter (\<lambda>u. \<not> replied ex req u) us))"
  by (induction us arbitrary: res errs) (auto simp: receive_exchange)

lemma set_arrivals: "mset arrivals = mset ups \<Longrightarrow> set arrivals = set ups"
  by (metis set_mset_mset)

subsection \<open>Properties\<close>

lemma ExchangeParallel_cases:
  assumes "mset arrivals = mset ups" "length ups \<ge> 2"
  shows "(\<exists>r. ExchangeParallel ex arrivals ups req = Inr r) \<longleftrightarrow> (\<exists>u \<in> set ups. replied ex req u)"
    and "ExchangeParallel ex arrivals ups req = Inr (resp, u) \<Longrightarrow>
      resp \<noteq> None \<and> ex u req = Inr resp \<and> find (replied ex req) arrivals = Some u"
proof -
  have eq: "ExchangeParallel ex arrivals ups req = parallel_loop (map (exchangeAsync ex req) arrivals) []"
    using assms(2) by (auto simp: ExchangeParallel_def split: list.splits)
  have none: "find (replied ex req) arrivals = None \<longleftrightarrow> \<not> (\<exists>u \<in> set ups. replied ex req u)"
    using set_arrivals [OF assms(1)] by (auto simp: find_None_iff)
  show "(\<exists>r. ExchangeParallel ex arrivals ups req = Inr r) \<longleftrightarrow> (\<exists>u \<in> set ups. replied ex req u)"
  proof (cases "find (replied ex req) arrivals")
    case None
    then have "\<forall>u \<in> set arrivals. \<not> replied ex req u" by (auto simp: find_None_iff)
    from parallel_loop_error [OF this, of "[]"] None none eq show ?thesis by auto
  qed (use eq none parallel_loop_find [of ex req arrivals _ "[]"] in auto)
  assume *: "ExchangeParallel ex arrivals ups req = Inr (resp, u)"
  show "resp \<noteq> None \<and> ex u req = Inr resp \<and> find (replied ex req) arrivals = Some u"
  proof (cases "find (replied ex req) arrivals")
    case None
    then have "\<forall>u \<in> set arrivals. \<not> replied ex req u" by (auto simp: find_None_iff)
    from parallel_loop_error [OF this, of "[]"] eq * show ?thesis by auto
  next
    case (Some v)
    then have "replied ex req v" by (auto simp: find_Some_iff)
    from reply_of_replied [OF this] Some * eq parallel_loop_find [OF Some, of "[]"] show ?thesis by auto
  qed
qed

text \<open>
  C26: with at least two upstreams, in whatever order their results arrive, the parallel exchange
  succeeds exactly when some upstream replies, and then returns the reply of the first replying
  upstream in arrival order.
\<close>

theorem ExchangeParallel_first_reply:
  assumes "mset arrivals = mset ups" "length ups \<ge> 2"
  shows "(\<exists>r. ExchangeParallel ex arrivals ups req = Inr r) = (\<exists>u \<in> set ups. replied ex req u) \<and>
    (\<forall>resp u. ExchangeParallel ex arrivals ups req = Inr (resp, u) \<longrightarrow>
       resp \<noteq> None \<and> ex u req = Inr resp \<and> find (replied ex req) arrivals = Some u)"
  using ExchangeParallel_cases [OF assms] by blast

lemma ExchangeAll_two:
  assumes "length ups \<ge> 2"
  shows "ExchangeAll ex arrivals ups req =
    (let (res, errs) = all_loop (map (exchangeAsync ex req) arrivals) [] [] in
     if length errs = length ups then Inl (ErrWrap ''all upstreams failed'' (ErrJoin errs)) else Inr res)"
  using assms by (auto simp: ExchangeAll_def split: list.splits)

lemma ExchangeAll_replies:
  assumes "mset arrivals = mset ups"
  shows "(\<exists>rs. ExchangeAll ex arrivals ups req = Inr rs) \<longleftrightarrow> (\<exists>u \<in> set ups. replied ex req u)"
    and "ExchangeAll ex arrivals ups req = Inr rs \<Longrightarrow> rs = map (reply_of ex req) (filter (replied ex req) arrivals) \<and> rs \<noteq> []"
proof -
  have len: "length arrivals = length ups" using assms by (metis size_mset)
  have arr: "arrivals = ups" if "length ups \<le> 1"
    using assms that by (cases ups) auto
  have err: "length (filter (\<lambda>u. \<not> replied ex req u) arrivals) = length ups \<longleftrightarrow> \<not> (\<exists>u \<in> set ups. replied ex req u)"
    unfolding set_arrivals [OF assms, symmetric] len [symmetric]
    by (auto simp: length_filter_eq_iff)
  have both: "(\<exists>rs. ExchangeAll ex arrivals ups req = Inr rs) \<longleftrightarrow> (\<exists>u \<in> set ups. replied ex req u)"
    "ExchangeAll ex arrivals ups req = Inr rs \<Longrightarrow> rs = map (reply_of ex req) (filter (replied ex req) arrivals)" for rs
  proof (atomize (full), cases ups)
    case Nil
    then show "((\<exists>rs. ExchangeAll ex arrivals ups req = Inr rs) \<longleftrightarrow> (\<exists>u \<in> set ups. replied ex req u)) \<and>
        (ExchangeAll ex arrivals ups req = Inr rs \<longrightarrow> rs = map (reply_of ex req) (filter (replied ex req) arrivals))"
      by (simp add: ExchangeAll_def)
  next
    case (Cons u us)
    show "((\<exists>rs. ExchangeAll ex arrivals ups req = Inr rs) \<longleftrightarrow> (\<exists>u \<in> set ups. replied ex req u)) \<and>
        (ExchangeAll ex arrivals ups req = Inr rs \<longrightarrow> rs = map (reply_of ex req) (filter (replied ex req) arrivals))"
    proof (cases us)
      case Nil
      with Cons arr show ?thesis
        by (auto simp: ExchangeAll_def replied_def reply_of_def split: sum.splits option.splits)
    next
      case (Cons v vs)
      with \<open>ups = u # us\<close> have "length ups \<ge> 2" by simp
      then show ?thesis
        unfolding ExchangeAll_two [OF \<open>length ups \<ge> 2\<close>] all_loop_filter using err by (auto simp: Let_def)
    qed
  qed
  then show "(\<exists>rs. ExchangeAll ex arrivals ups req = Inr rs) \<longleftrightarrow> (\<exists>u \<in> set ups. replied ex req u)" by blast
  assume *: "ExchangeAll ex arrivals ups req = Inr rs"
  then have "\<exists>u \<in> set arrivals. replied ex req u" using both(1) set_arrivals [OF assms] by auto
  with both(2) [OF *] show "rs = map (reply_of ex req) (filter (replied ex req) arrivals) \<and> rs \<noteq> []"
    by (auto simp: filter_empty_conv)
qed

text \<open>
  The exchange with all upstreams returns, in arrival order, exactly the replies of those that
  replied; it succeeds exactly when there is at least one, so a successful result is never empty.
\<close>

theorem ExchangeAll_collects:
  assumes "mset arrivals = mset ups"
  shows "(\<exists>rs. ExchangeAll ex arrivals ups req = Inr rs) = (\<exists>u \<in> set ups. replied ex req u) \<and>
    (\<forall>rs. ExchangeAll ex arrivals ups req = Inr rs \<longrightarrow>
       rs = map (reply_of ex req) (filter (replied ex req) arrivals) \<and> rs \<noteq> [])"
  using ExchangeAll_replies [OF assms] by blast

subsection \<open>Witnesses\<close>

definition sample_ex :: "nat \<Rightarrow> Msg \<Rightarrow> error + Msg option" where
  "sample_ex u req = (if u = 0 then Inl (ErrMsg ''refused'') else if u = 1 then Inr None else Inr (Some sample_resp))"

theorem ExchangeParallel_first_reply_witness:
  "\<exists>r. ExchangeParallel sample_ex [1, 2, 0, 3] [0, 1, 2, 3] sample_req = Inr r"
proof -
  have "mset [1, 2, 0, 3] = mset [0, 1, 2, 3 :: nat]" by (simp add: add_mset_commute)
  from ExchangeParallel_first_reply [OF this, of sample_ex sample_req] show ?thesis
    by (simp add: replied_def sample_ex_def)
qed

theorem ExchangeAll_collects_witness:
  "ExchangeAll sample_ex [1, 3, 0, 2] [0, 1, 2, 3] sample_req = Inr [reply_of sample_ex sample_req 3, reply_of sample_ex sample_req 2]"
proof -
  have "mset [1, 3, 0, 2] = mset [0, 1, 2, 3 :: nat]" by (simp add: add_mset_commute)
  from ExchangeAll_collects [OF this, of sample_ex sample_req] show ?thesis
    by (auto simp: replied_def sample_ex_def)
qed

end
