(* ===== verification/Fastip.thy ===== *)
theory Fastip
  imports Upstream_Parallel
begin

text \<open>
  The fastest-address exchange (\<^verbatim>\<open>fastip/cache.go\<close>, \<^verbatim>\<open>fastip/ping.go\<close>,
  \<^verbatim>\<open>fastip/fastest.go\<close>): all upstreams are asked, the addresses of their
  answers are probed by TCP connections, and the answer with the fastest one is
  returned, reduced to that address.  The clock, the values of the address set
  in the order the container yields them,
  and the probe results in the order they arrive before the timeout are
  arguments.  The conversion of a \<^verbatim>\<open>net.IP\<close> to an address of a family is a
  parameter.
\<close>

subsection \<open>Addresses\<close>

definition AsSlice :: "Addr \<Rightarrow> bytes" where
  "AsSlice a = (case a of AddrZero \<Rightarrow> [] | Addr4 b \<Rightarrow> b | Addr6 b \<Rightarrow> b)"

definition addr_IsValid :: "Addr \<Rightarrow> bool" where
  "addr_IsValid a = (a \<noteq> AddrZero)"

definition IsUnspecified :: "Addr \<Rightarrow> bool" where
  "IsUnspecified a = (case a of AddrZero \<Rightarrow> False | Addr4 b \<Rightarrow> b = replicate 4 0 | Addr6 b \<Rightarrow> b = replicate 16 0)"

definition Unmap :: "Addr \<Rightarrow> Addr" where
  "Unmap a = (case a of
      Addr6 b \<Rightarrow> if length b = 16 \<and> take 12 b = v4InV6Prefix then Addr4 (drop 12 b) else a
    | _ \<Rightarrow> a)"

record AddrPort =
  ap_Addr :: Addr
  ap_Port :: uint16

text \<open>
  \<^verbatim>\<open>netutil.IPToAddr\<close> (the second argument asks for IPv6): "converts a net.IP into a netip.Addr of
  the given family".
\<close>

type_synonym ip_to_addr = "ip \<Rightarrow> bool \<Rightarrow> Addr option"

definition ip_to_addr_law :: "ip_to_addr \<Rightarrow> bool" where
  "ip_to_addr_law toAddr \<longleftrightarrow>
     (\<forall>i a. toAddr i False = Some a \<longrightarrow> (\<exists>b. To4 i = Some b \<and> a = Addr4 b)) \<and>
     (\<forall>i a. toAddr i True = Some a \<longrightarrow> (\<exists>b. To16 i = Some b \<and> a = Addr6 b))"

subsection \<open>Cached probe results\<close>

definition fastestAddrCacheTTLSec :: uint32 where
  "fastestAddrCacheTTLSec = 10 * 60"

record cacheEntry =
  latencyMsec :: int
  failed :: bool

definition packCacheEntry :: "cacheEntry \<Rightarrow> uint32 \<Rightarrow> int \<Rightarrow> bytes" where
  "packCacheEntry ent ttl now =
     put_uint64 (word_of_int (now + uint ttl)) @ [of_bool (failed ent)] @
     put_uint64 (word_of_int (latencyMsec ent))"

definition unpackCacheEntry :: "bytes \<Rightarrow> int \<Rightarrow> cacheEntry option go" where
  "unpackCacheEntry data now =
     (if length data \<noteq> 17 then Some None
      else do {
        st \<leftarrow> go_index data 8;
        if st > 1 then Some None
        else do {
          e \<leftarrow> get_uint64 (take 8 data);
          if sint e \<le> now then Some None
          else do {
            l \<leftarrow> get_uint64 (drop 9 data);
            Some (Some \<lparr> latencyMsec = sint l, failed = (st = 1) \<rparr>) } } })"

record 'c FastestAddr =
  ipCache :: 'c
  pingPorts :: "uint16 list"
  pingWaitTimeout :: int

definition DefaultPingWaitTimeout :: int where
  "DefaultPingWaitTimeout = 1000000000"

definition New_FastestAddr :: "'c glcache \<Rightarrow> int \<Rightarrow> 'c FastestAddr" where
  "New_FastestAddr G pingWait = \<lparr> ipCache = gl_New G (64 * 1024), pingPorts = [80, 443],
     pingWaitTimeout = (if pingWait > 0 then pingWait else DefaultPingWaitTimeout) \<rparr>"

text \<open>The clock of these operations is \<^verbatim>\<open>time.Now().Unix()\<close>.\<close>

definition cacheFind :: "'c glcache \<Rightarrow> 'c FastestAddr \<Rightarrow> int \<Rightarrow> Addr \<Rightarrow> (cacheEntry option \<times> 'c FastestAddr) go" where
  "cacheFind G f now ip =
     (let (val, c) = gl_Get G (ipCache f) (AsSlice ip); f = f\<lparr>ipCache := c\<rparr> in
      case val of None \<Rightarrow> Some (None, f)
      | Some d \<Rightarrow> do { ent \<leftarrow> unpackCacheEntry d now; Some (ent, f) })"

definition cacheAdd :: "'c glcache \<Rightarrow> 'c FastestAddr \<Rightarrow> int \<Rightarrow> cacheEntry \<Rightarrow> Addr \<Rightarrow> uint32 \<Rightarrow> 'c FastestAddr" where
  "cacheAdd G f now ent ip ttl = f\<lparr>ipCache := gl_Set G (ipCache f) (AsSlice ip) (packCacheEntry ent ttl now)\<rparr>"

definition cacheAddFailure :: "'c glcache \<Rightarrow> 'c FastestAddr \<Rightarrow> int \<Rightarrow> Addr \<Rightarrow> 'c FastestAddr go" where
  "cacheAddFailure G f now ip = do {
     (ent, f) \<leftarrow> cacheFind G f now ip;
     Some (if ent = None then cacheAdd G f now \<lparr> latencyMsec = 0, failed = True \<rparr> ip fastestAddrCacheTTLSec else f) }"

definition cacheAddSuccessful :: "'c glcache \<Rightarrow> 'c FastestAddr \<Rightarrow> int \<Rightarrow> Addr \<Rightarrow> int \<Rightarrow> 'c FastestAddr go" where
  "cacheAddSuccessful G f now ip latency = do {
     (entCached, f) \<leftarrow> cacheFind G f now ip;
     let add = cacheAdd G f now \<lparr> latencyMsec = latency, failed = False \<rparr> ip fastestAddrCacheTTLSec in
     Some (case entCached of
        None \<Rightarrow> add
      | Some e \<Rightarrow> if failed e \<or> latencyMsec e > latency then add else f) }"

subsection \<open>Probing\<close>

record pingResult =
  pr_addrPort :: AddrPort
  pr_latency :: int
  pr_success :: bool

text \<open>
  The loop of \<^verbatim>\<open>schedulePings\<close>: the best cached result so far, and the probes started.
\<close>

fun schedulePings ::
  "'c glcache \<Rightarrow> 'c FastestAddr \<Rightarrow> int \<Rightarrow> Addr list \<Rightarrow> pingResult option \<Rightarrow> bool \<Rightarrow> AddrPort list \<Rightarrow>
     (pingResult option \<times> bool \<times> AddrPort list \<times> 'c FastestAddr) go" where
  "schedulePings G f now [] pr scheduled started = Some (pr, scheduled, started, f)"
| "schedulePings G f now (ip # ips) pr scheduled started = do {
     (cached, f) \<leftarrow> cacheFind G f now ip;
     case cached of
       None \<Rightarrow> schedulePings G f now ips pr True
         (started @ map (\<lambda>port. \<lparr> ap_Addr = ip, ap_Port = port \<rparr>) (pingPorts f))
     | Some c \<Rightarrow>
         schedulePings G f now ips
           (if \<not> failed c \<and> (case pr of None \<Rightarrow> True | Some r \<Rightarrow> latencyMsec c < pr_latency r)
            then Some \<lparr> pr_addrPort = \<lparr> ap_Addr = ip, ap_Port = 0 \<rparr>, pr_latency = latencyMsec c, pr_success = True \<rparr>
            else pr) scheduled started }"

text \<open>The first successful result of those that arrive before the timeout.\<close>

fun firstSuccessRes :: "pingResult list \<Rightarrow> pingResult option" where
  "firstSuccessRes [] = None"
| "firstSuccessRes (res # rest) = (if \<not> pr_success res then firstSuccessRes rest else Some res)"

definition pingAll ::
  "'c glcache \<Rightarrow> 'c FastestAddr \<Rightarrow> int \<Rightarrow> (AddrPort list \<Rightarrow> pingResult list) \<Rightarrow> Addr list \<Rightarrow>
     (pingResult option \<times> 'c FastestAddr) go" where
  "pingAll G f now results ips = (case ips of
      [] \<Rightarrow> Some (None, f)
    | [ip] \<Rightarrow> Some (Some \<lparr> pr_addrPort = \<lparr> ap_Addr = ip, ap_Port = 0 \<rparr>, pr_latency = 0, pr_success = True \<rparr>, f)
    | _ \<Rightarrow> do {
        (pr, scheduled, started, f) \<leftarrow> schedulePings G f now ips None False [];
        if \<not> scheduled then Some (pr, f)
        else (case firstSuccessRes (results started) of
            None \<Rightarrow> Some (pr, f)
          | Some res \<Rightarrow> Some ((case pr of
                None \<Rightarrow> Some res
              | Some p \<Rightarrow> if pr_latency res \<le> pr_latency p then Some res else Some p), f)) })"

text \<open>One probe: the result it sends and what it caches; the address is unmapped first.\<close>

definition pingDoTCP ::
  "'c glcache \<Rightarrow> 'c FastestAddr \<Rightarrow> int \<Rightarrow> AddrPort \<Rightarrow> int \<Rightarrow> bool \<Rightarrow> (pingResult \<times> 'c FastestAddr) go" where
  "pingDoTCP G f now addrPort latency success = do {
     f \<leftarrow> (if success then cacheAddSuccessful G f now (Unmap (ap_Addr addrPort)) latency
          else cacheAddFailure G f now (Unmap (ap_Addr addrPort)));
     Some (\<lparr> pr_addrPort = addrPort, pr_latency = latency, pr_success = success \<rparr>, f) }"

subsection \<open>The exchange\<close>

definition ipFromRR :: "ip_to_addr \<Rightarrow> RR \<Rightarrow> Addr" where
  "ipFromRR toAddr rr = (case rr_Data rr of
      RD_A a \<Rightarrow> (case toAddr a False of None \<Rightarrow> AddrZero | Some ip \<Rightarrow> ip)
    | RD_AAAA a \<Rightarrow> (case toAddr a True of None \<Rightarrow> AddrZero | Some ip \<Rightarrow> ip)
    | _ \<Rightarrow> AddrZero)"

definition hasInAns :: "ip_to_addr \<Rightarrow> Msg \<Rightarrow> Addr \<Rightarrow> bool" where
  "hasInAns toAddr m ip = list_ex (\<lambda>rr. ipFromRR toAddr rr = ip) (m_Answer m)"

definition filterResponseAnswer :: "Msg \<Rightarrow> Addr \<Rightarrow> Msg" where
  "filterResponseAnswer resp ip = resp\<lparr>m_Answer := filter (\<lambda>rr. case rr_Data rr of
      RD_A a \<Rightarrow> ip_Equal a (Some (AsSlice ip))
    | RD_AAAA a \<Rightarrow> ip_Equal a (Some (AsSlice ip))
    | _ \<Rightarrow> True) (m_Answer resp)\<rparr>"

definition prepareReply ::
  "ip_to_addr \<Rightarrow> pingResult \<Rightarrow> 'u ExchangeAllResult list \<Rightarrow> (Msg option \<times> 'u) go" where
  "prepareReply toAddr res replies =
     (let ip = ap_Addr (pr_addrPort res) in
      case find (\<lambda>r. case ear_Resp r of None \<Rightarrow> False | Some m \<Rightarrow> hasInAns toAddr m ip) replies of
        None \<Rightarrow> do { r \<leftarrow> go_index replies 0; Some (ear_Resp r, ear_Upstream r) }
      | Some r \<Rightarrow> do { m \<leftarrow> ear_Resp r; Some (Some (filterResponseAnswer m ip), ear_Upstream r) })"

text \<open>The addresses of all replies; a reply without a message would be a nil dereference.\<close>

definition reply_addrs :: "ip_to_addr \<Rightarrow> Msg \<Rightarrow> Addr list" where
  "reply_addrs toAddr m = filter (\<lambda>ip. addr_IsValid ip \<and> \<not> IsUnspecified ip) (map (ipFromRR toAddr) (m_Answer m))"

fun collect_addrs :: "ip_to_addr \<Rightarrow> 'u ExchangeAllResult list \<Rightarrow> Addr list go" where
  "collect_addrs toAddr [] = Some []"
| "collect_addrs toAddr (r # rs) = do {
     m \<leftarrow> ear_Resp r; rest \<leftarrow> collect_addrs toAddr rs; Some (reply_addrs toAddr m @ rest) }"

definition ExchangeFastest ::
  "'c glcache \<Rightarrow> ip_to_addr \<Rightarrow> (Addr list \<Rightarrow> Addr list) \<Rightarrow> 'u exchange_fun \<Rightarrow> 'u list \<Rightarrow>
     (AddrPort list \<Rightarrow> pingResult list) \<Rightarrow> 'c FastestAddr \<Rightarrow> int \<Rightarrow> Msg \<Rightarrow> 'u list \<Rightarrow>
     ((error + Msg option \<times> 'u) \<times> 'c FastestAddr) go" where
  "ExchangeFastest G toAddr values ex arrivals results f now req ups =
     (case ExchangeAll ex arrivals ups req of
        Inl err \<Rightarrow> Some (Inl err, f)
      | Inr replies \<Rightarrow> do {
          addrs \<leftarrow> collect_addrs toAddr replies;
          q \<leftarrow> go_index (m_Question req) 0;
          (pingRes, f) \<leftarrow> pingAll G f now results (values addrs);
          case pingRes of
            Some pr \<Rightarrow> do { r \<leftarrow> prepareReply toAddr pr replies; Some (Inr r, f) }
          | None \<Rightarrow> do { r \<leftarrow> go_index replies 0; Some (Inr (ear_Resp r, ear_Upstream r), f) } })"

subsection \<open>Cached entries\<close>

lemma unpackCacheEntry_total: "\<exists>r. unpackCacheEntry d now = Some r"
proof (cases "length d = 17")
  case True
  then have "get_uint64 (take 8 d) \<noteq> None" "get_uint64 (drop 9 d) \<noteq> None"
    by (auto simp: get_uint64_None_iff)
  with True show ?thesis by (auto simp: unpackCacheEntry_def go_index_def)
qed (simp add: unpackCacheEntry_def)

lemma cacheFind_total: "\<exists>r f'. cacheFind G f now ip = Some (r, f') \<and> pingPorts f' = pingPorts f"
proof -
  obtain v c where "gl_Get G (ipCache f) (AsSlice ip) = (v, c)" by force
  moreover obtain r where "unpackCacheEntry (the v) now = Some r" using unpackCacheEntry_total by blast
  ultimately show ?thesis by (cases v) (simp_all add: cacheFind_def)
qed

lemma unpack_packCacheEntry:
  assumes "0 \<le> now0" "now0 < 2 ^ 62" "- (2 ^ 63) \<le> latencyMsec ent" "latencyMsec ent < 2 ^ 63"
  shows "unpackCacheEntry (packCacheEntry ent ttl now0) now =
    Some (if now < now0 + uint ttl then Some ent else None)"
proof -
  have e: "sint (word_of_int (now0 + uint ttl) :: uint64) = now0 + uint ttl"
  proof (rule sint_word_of_int_64)
    have "now0 < 4611686018427387904" "0 \<le> uint ttl" using assms(2) by simp_all
    with assms(1) uint32_lt [of ttl] have "- 9223372036854775808 \<le> now0 + uint ttl"
      "now0 + uint ttl < 9223372036854775808" by linarith+
    then show "- (2 ^ 63) \<le> now0 + uint ttl" "now0 + uint ttl < 2 ^ 63" by simp_all
  qed
  have l: "sint (word_of_int (latencyMsec ent) :: uint64) = latencyMsec ent"
    using assms(3,4) by (rule sint_word_of_int_64)
  have "get_uint64 (put_uint64 w) = Some w" for w using get_put_uint64 [of w "[]"] by simp
  then show ?thesis
    using e l by (auto simp: unpackCacheEntry_def packCacheEntry_def go_index_def nth_append simp del: of_int_add)
qed

lemma cacheFind_packed:
  assumes "glcache_law G" "gl_items G (ipCache f) (AsSlice ip) = Some (packCacheEntry ent ttl now0)"
    and "0 \<le> now0" "now0 < 2 ^ 62" "- (2 ^ 63) \<le> latencyMsec ent" "latencyMsec ent < 2 ^ 63"
  shows "\<exists>f'. cacheFind G f now ip = Some (if now < now0 + uint ttl then Some ent else None, f')"
proof -
  obtain v c where g: "gl_Get G (ipCache f) (AsSlice ip) = (v, c)" by force
  then have "v = Some (packCacheEntry ent ttl now0)" using gl_GetD(1) [OF assms(1) g] assms(2) by simp
  with g unpack_packCacheEntry [OF assms(3-6), of ttl now] show ?thesis by (simp add: cacheFind_def)
qed

text \<open>
  The cached latency of an address is the least one measured.  When no valid entry is cached, or a
  failed or slower one, recording a successful probe makes every lookup of the next ten minutes find the
  new latency (while the cache keeps the entry); a cached latency that is not worse stays as it is.
\<close>

theorem cacheAddSuccessful_least:
  assumes "glcache_law G" "\<And>k d. gl_items G (gl_Set G (ipCache f') k d) k = Some d"
    and "cacheFind G f now ip = Some (old, f')"
    and "0 \<le> now" "now < 2 ^ 62" "- (2 ^ 63) \<le> latency" "latency < 2 ^ 63"
    and "now \<le> t" "t < now + 600"
  shows "if (case old of None \<Rightarrow> True | Some e \<Rightarrow> failed e \<or> latency < latencyMsec e)
    then \<exists>f1 f2. cacheAddSuccessful G f now ip latency = Some f1 \<and>
      cacheFind G f1 t ip = Some (Some \<lparr> latencyMsec = latency, failed = False \<rparr>, f2)
    else cacheAddSuccessful G f now ip latency = Some f' \<and> gl_items G (ipCache f') = gl_items G (ipCache f)"
proof (cases "case old of None \<Rightarrow> True | Some e \<Rightarrow> failed e \<or> latency < latencyMsec e")
  case False
  then have "cacheAddSuccessful G f now ip latency = Some f'"
    using assms(3) by (auto simp: cacheAddSuccessful_def split: option.splits)
  moreover have "gl_items G (ipCache f') = gl_items G (ipCache f)"
    using assms(3) gl_GetD(2) [OF assms(1)]
    by (auto simp: cacheFind_def Let_def split: prod.splits option.splits Option.bind_splits)
  ultimately show ?thesis using False by simp
next
  case True
  let ?ent = "\<lparr> latencyMsec = latency, failed = False \<rparr>"
  let ?f1 = "cacheAdd G f' now ?ent ip fastestAddrCacheTTLSec"
  have add: "cacheAddSuccessful G f now ip latency = Some ?f1"
    using assms(3) True by (auto simp: cacheAddSuccessful_def split: option.splits)
  have "gl_items G (ipCache ?f1) (AsSlice ip) = Some (packCacheEntry ?ent fastestAddrCacheTTLSec now)"
    using assms(2) by (simp add: cacheAdd_def)
  from cacheFind_packed [OF assms(1) this assms(4,5), of t] assms(6-9) add True show ?thesis
    by (simp add: fastestAddrCacheTTLSec_def)
qed

subsection \<open>The chosen address is one of the replies'\<close>

lemma schedulePings_addrs:
  assumes "case pr of None \<Rightarrow> True | Some r \<Rightarrow> ap_Addr (pr_addrPort r) \<in> S" "\<forall>a \<in> set started. ap_Addr a \<in> S"
    and "set ips \<subseteq> S"
  shows "\<exists>pr' sch' started' f'. schedulePings G f now ips pr sch started = Some (pr', sch', started', f') \<and>
    (case pr' of None \<Rightarrow> True | Some r \<Rightarrow> ap_Addr (pr_addrPort r) \<in> S) \<and> (\<forall>a \<in> set started'. ap_Addr a \<in> S)"
  using assms
proof (induction ips arbitrary: f pr sch started)
  case (Cons ip ips)
  obtain c f1 where c: "cacheFind G f now ip = Some (c, f1)" using cacheFind_total [of G f now ip] by blast
  have S: "ip \<in> S" "set ips \<subseteq> S" using Cons.prems(3) by auto
  show ?case
  proof (cases c)
    case None
    have "\<forall>a \<in> set (started @ map (\<lambda>port. \<lparr> ap_Addr = ip, ap_Port = port \<rparr>) (pingPorts f1)). ap_Addr a \<in> S"
      using Cons.prems(2) S(1) by auto
    from Cons.IH [OF Cons.prems(1) this S(2)] c None show ?thesis by simp
  next
    case (Some e)
    let ?pr = "if \<not> failed e \<and> (case pr of None \<Rightarrow> True | Some r \<Rightarrow> latencyMsec e < pr_latency r)
      then Some \<lparr> pr_addrPort = \<lparr> ap_Addr = ip, ap_Port = 0 \<rparr>, pr_latency = latencyMsec e, pr_success = True \<rparr> else pr"
    have "case ?pr of None \<Rightarrow> True | Some r \<Rightarrow> ap_Addr (pr_addrPort r) \<in> S"
      using Cons.prems(1) S(1) by simp
    from Cons.IH [OF this Cons.prems(2) S(2)] c Some show ?thesis by simp
  qed
qed simp

lemma firstSuccessRes_mem: "firstSuccessRes rs = Some r \<Longrightarrow> r \<in> set rs \<and> pr_success r"
  by (induction rs) (auto split: if_splits)

lemma pingAll_addrs:
  assumes "\<And>started r. r \<in> set (results started) \<Longrightarrow> pr_addrPort r \<in> set started"
  shows "\<exists>pr f'. pingAll G f now results ips = Some (pr, f') \<and>
    (case pr of None \<Rightarrow> True | Some r \<Rightarrow> ap_Addr (pr_addrPort r) \<in> set ips)"
proof (cases "length ips \<le> 1")
  case True
  then show ?thesis by (cases ips) (auto simp: pingAll_def)
next
  case False
  from schedulePings_addrs [where pr = None and S = "set ips" and started = "[]" and ips = ips
      and G = G and f = f and now = now and sch = False]
  obtain pr sch started f1 where s: "schedulePings G f now ips None False [] = Some (pr, sch, started, f1)"
    "case pr of None \<Rightarrow> True | Some r \<Rightarrow> ap_Addr (pr_addrPort r) \<in> set ips" "\<forall>a \<in> set started. ap_Addr a \<in> set ips"
    by auto
  have first: "ap_Addr (pr_addrPort r) \<in> set ips" if "firstSuccessRes (results started) = Some r" for r
    using firstSuccessRes_mem [OF that] assms s(3) by blast
  have eq: "pingAll G f now results ips =
      (if \<not> sch then Some (pr, f1)
       else (case firstSuccessRes (results started) of
            None \<Rightarrow> Some (pr, f1)
          | Some res \<Rightarrow> Some ((case pr of
                None \<Rightarrow> Some res
              | Some p \<Rightarrow> if pr_latency res \<le> pr_latency p then Some res else Some p), f1)))"
    using False s(1) by (auto simp: pingAll_def simp del: schedulePings.simps split: list.splits)
  show ?thesis
    unfolding eq using s(2) first by (auto split: option.splits)
qed

lemma To4_Equal: "To4 i = Some b \<Longrightarrow> ip_Equal i (Some b)"
  by (auto simp: To4_def ip_Equal_def Let_def split: if_splits)

lemma To16_Equal: "To16 i = Some b \<Longrightarrow> ip_Equal i (Some b)"
  by (auto simp: To16_def ip_Equal_def Let_def v4InV6Prefix_def split: if_splits)

lemma filterResponseAnswer_keeps:
  assumes "ip_to_addr_law toAddr" "hasInAns toAddr m ip" "addr_IsValid ip"
  shows "hasInAns toAddr (filterResponseAnswer m ip) ip"
proof -
  obtain rr where rr: "rr \<in> set (m_Answer m)" "ipFromRR toAddr rr = ip"
    using assms(2) by (auto simp: hasInAns_def list_ex_iff)
  have "case rr_Data rr of RD_A a \<Rightarrow> ip_Equal a (Some (AsSlice ip))
      | RD_AAAA a \<Rightarrow> ip_Equal a (Some (AsSlice ip)) | _ \<Rightarrow> True"
  proof (cases "rr_Data rr")
    case (RD_A a)
    then have "toAddr a False = Some ip" using rr(2) assms(3) by (auto simp: ipFromRR_def addr_IsValid_def split: option.splits)
    then obtain b where "To4 a = Some b" "ip = Addr4 b" using assms(1) unfolding ip_to_addr_law_def by blast
    then show ?thesis using RD_A To4_Equal by (simp add: AsSlice_def)
  next
    case (RD_AAAA a)
    then have "toAddr a True = Some ip" using rr(2) assms(3) by (auto simp: ipFromRR_def addr_IsValid_def split: option.splits)
    then obtain b where "To16 a = Some b" "ip = Addr6 b" using assms(1) unfolding ip_to_addr_law_def by blast
    then show ?thesis using RD_AAAA To16_Equal by (simp add: AsSlice_def)
  qed auto
  with rr show ?thesis by (auto simp: hasInAns_def filterResponseAnswer_def list_ex_iff)
qed

lemma collect_addrs_replies:
  assumes "\<forall>r \<in> set rs. ear_Resp r \<noteq> None"
  shows "\<exists>as. collect_addrs toAddr rs = Some as \<and>
    (\<forall>a \<in> set as. addr_IsValid a \<and> (\<exists>r \<in> set rs. \<exists>m. ear_Resp r = Some m \<and> hasInAns toAddr m a))"
  using assms
  by (induction rs) (fastforce simp: reply_addrs_def hasInAns_def list_ex_iff)+

lemma ExchangeFastest_result:
  assumes "ip_to_addr_law toAddr" "mset arrivals = mset ups" "m_Question req \<noteq> []"
    and "\<And>as. set (values as) = set as"
    and "\<And>started r. r \<in> set (results started) \<Longrightarrow> pr_addrPort r \<in> set started"
  shows "\<exists>res f'. ExchangeFastest G toAddr values ex arrivals results f now req ups = Some (res, f') \<and>
    (case res of
       Inl e \<Rightarrow> \<not> (\<exists>u \<in> set ups. replied ex req u)
     | Inr (resp, u) \<Rightarrow> \<exists>orig m. u \<in> set ups \<and> ex u req = Inr (Some orig) \<and> resp = Some m \<and>
         (m = orig \<or> (\<exists>ip. hasInAns toAddr orig ip \<and> m = filterResponseAnswer orig ip \<and> hasInAns toAddr m ip)))"
proof (cases "ExchangeAll ex arrivals ups req")
  case (Inl e)
  then show ?thesis using ExchangeAll_replies(1) [OF assms(2), of ex req] by (simp add: ExchangeFastest_def)
next
  case (Inr rs)
  from ExchangeAll_replies(2) [OF assms(2) this]
  have rs: "rs = map (reply_of ex req) (filter (replied ex req) arrivals)" "rs \<noteq> []" by auto
  have each: "\<exists>m. ear_Resp r = Some m \<and> ear_Upstream r \<in> set ups \<and> ex (ear_Upstream r) req = Inr (Some m)"
    if "r \<in> set rs" for r
    using that rs(1) reply_of_replied [of ex req] set_arrivals [OF assms(2)] by (fastforce simp: reply_of_def)
  obtain as where as: "collect_addrs toAddr rs = Some as"
    "\<forall>a \<in> set as. addr_IsValid a \<and> (\<exists>r \<in> set rs. \<exists>m. ear_Resp r = Some m \<and> hasInAns toAddr m a)"
    using collect_addrs_replies [of rs toAddr] each by force
  obtain q where q: "go_index (m_Question req) 0 = Some q" using assms(3) by (auto simp: go_index_def)
  obtain pr f' where pr: "pingAll G f now results (values as) = Some (pr, f')"
    "case pr of None \<Rightarrow> True | Some r \<Rightarrow> ap_Addr (pr_addrPort r) \<in> set as"
    using pingAll_addrs [where results = results and ips = "values as" and G = G and f = f and now = now]
      assms(4,5) by metis
  show ?thesis
  proof (cases pr)
    case None
    have "go_index rs 0 = Some (hd rs)" using rs(2) by (simp add: go_index_def hd_conv_nth)
    then show ?thesis
      using each [of "hd rs"] rs(2) Inr as(1) q pr(1) None by (auto simp: ExchangeFastest_def)
  next
    case (Some p)
    let ?ip = "ap_Addr (pr_addrPort p)"
    let ?P = "\<lambda>r. case ear_Resp r of None \<Rightarrow> False | Some m \<Rightarrow> hasInAns toAddr m ?ip"
    have ip: "addr_IsValid ?ip" "\<exists>r \<in> set rs. ?P r" using as(2) pr(2) Some by force+
    then obtain r where r: "find ?P rs = Some r" by (cases "find ?P rs") (auto simp: find_None_iff)
    then have "r \<in> set rs" "?P r" by (auto simp: find_Some_iff)
    with each obtain m where m: "ear_Resp r = Some m" "ear_Upstream r \<in> set ups"
      "ex (ear_Upstream r) req = Inr (Some m)" "hasInAns toAddr m ?ip" by force
    then have "prepareReply toAddr p rs = Some (Some (filterResponseAnswer m ?ip), ear_Upstream r)"
      using r by (simp add: prepareReply_def)
    with Inr as(1) q pr(1) Some m filterResponseAnswer_keeps [OF assms(1) m(4) ip(1)] show ?thesis
      by (auto simp: ExchangeFastest_def)
  qed
qed


subsection \<open>Witnesses\<close>

definition sample_to_addr :: ip_to_addr where
  "sample_to_addr i v6 = (if v6 then map_option Addr6 (To16 i) else map_option Addr4 (To4 i))"

lemma sample_to_addr_law: "ip_to_addr_law sample_to_addr"
  by (auto simp: ip_to_addr_law_def sample_to_addr_def)

definition sample_fast :: "(bytes \<Rightarrow> bytes option) FastestAddr" where
  "sample_fast = New_FastestAddr map_glcache 0"


theorem cacheAddSuccessful_least_witness:
  "\<exists>f1 f2. cacheAddSuccessful map_glcache sample_fast 0 (Addr4 [192, 0, 2, 1]) 7 = Some f1 \<and>
    cacheFind map_glcache f1 599 (Addr4 [192, 0, 2, 1]) = Some (Some \<lparr> latencyMsec = 7, failed = False \<rparr>, f2)"
proof -
  have "cacheFind map_glcache sample_fast 0 (Addr4 [192, 0, 2, 1]) = Some (None, sample_fast)"
    by (simp add: cacheFind_def sample_fast_def New_FastestAddr_def map_glcache_def)
  from cacheAddSuccessful_least [OF map_glcache_law _ this, of 7 599] show ?thesis
    by (simp add: map_glcache_def)
qed

end
