(* ===== verification/Upstream_Config.thy ===== *)
theory Upstream_Config
  imports Go_Strings Dns_Msg "HOL-Library.AList" "HOL-Library.List_Lexorder" "HOL-Library.Char_ord"
begin

text \<open>
  The upstream configuration (\<^verbatim>\<open>proxy/upstreams.go\<close>): parsing configuration lines
  into maps from domains to upstreams, and choosing the upstreams for a name.
  Upstreams are values of any type \<^verbatim>\<open>'u\<close>; creating one from its address and
  checking a domain name are parameters.  Go maps are association lists with
  distinct keys.  Shown: the lookup is a longest-suffix match at label
  boundaries, a parsed configuration never makes a lookup panic, and exactly
  which lines make the parser panic.
\<close>

subsection \<open>Data\<close>

type_synonym 'u domain_map = "(string \<times> 'u list) list"

record 'u UpstreamConfig =
  DomainReservedUpstreams :: "'u domain_map"
  SpecifiedDomainUpstreams :: "'u domain_map"
  SubdomainExclusions :: "string set"
  Upstreams :: "'u list"

definition UnqualifiedNames :: string where
  "UnqualifiedNames = ''unqualified_names''"

definition labelSep :: string where
  "labelSep = ''.''"

record ParseError =
  pe_err :: error
  pe_Idx :: nat

record 'u configParser =
  upstreamsIndex :: "(string \<times> 'u) list"
  domainReservedUpstreams :: "'u domain_map"
  specifiedDomainUpstreams :: "'u domain_map"
  subdomainsOnlyUpstreams :: "'u domain_map"
  subdomainsOnlyExclusions :: "string set"
  upstreams :: "'u list"

text \<open>\<^verbatim>\<open>AddressToUpstream\<close> with the parser's options, and \<^verbatim>\<open>netutil.ValidateDomainName\<close>.\<close>

type_synonym 'u new_upstream = "string \<Rightarrow> error + 'u"
type_synonym name_check = "string \<Rightarrow> error option"

definition map_get :: "'u domain_map \<Rightarrow> string \<Rightarrow> 'u list" where
  "map_get m k = (case map_of m k of None \<Rightarrow> [] | Some v \<Rightarrow> v)"

subsection \<open>Parsing\<close>

fun split_domains :: "name_check \<Rightarrow> nat \<Rightarrow> string list \<Rightarrow> error + string list" where
  "split_domains valid i [] = Inr []"
| "split_domains valid i (confHost # rest) =
     (if confHost = '''' then
        (case split_domains valid (Suc i) rest of Inl e \<Rightarrow> Inl e | Inr ds \<Rightarrow> Inr (UnqualifiedNames # ds))
      else (case valid (TrimPrefix confHost ''*.'') of
          Some e \<Rightarrow> Inl (ErrWrap ''domain at index'' e)
        | None \<Rightarrow> (case split_domains valid (Suc i) rest of
              Inl e \<Rightarrow> Inl e
            | Inr ds \<Rightarrow> Inr (to_lower (confHost @ labelSep) # ds))))"

definition splitConfigLine :: "name_check \<Rightarrow> string \<Rightarrow> error + string list \<times> string list" where
  "splitConfigLine valid confLine =
     (if \<not> HasPrefix confLine ''[/'' then Inr ([confLine], [])
      else let (domainsLine, upstreamsLine, found) = Cut (drop 2 confLine) ''/]'' in
        if \<not> found \<or> upstreamsLine = '''' then Inl (ErrMsg ''wrong upstream format'')
        else (case split_domains valid 0 (Split domainsLine (CHR ''/'')) of
            Inl e \<Rightarrow> Inl e
          | Inr domains \<Rightarrow> Inr (Fields upstreamsLine, domains)))"

fun excludeFromReserved :: "string list \<Rightarrow> 'u configParser \<Rightarrow> 'u configParser" where
  "excludeFromReserved [] p = p"
| "excludeFromReserved (host # hosts) p =
     (let (trimmed, ok) = CutPrefix host ''*.'' in
      if ok then excludeFromReserved hosts
        (p\<lparr>subdomainsOnlyExclusions := insert trimmed (subdomainsOnlyExclusions p),
           subdomainsOnlyUpstreams := AList.update trimmed [] (subdomainsOnlyUpstreams p)\<rparr>)
      else excludeFromReserved hosts
        (p\<lparr>domainReservedUpstreams := AList.update host [] (domainReservedUpstreams p),
           specifiedDomainUpstreams := AList.update host [] (specifiedDomainUpstreams p)\<rparr>))"

definition include_one :: "'u \<Rightarrow> string \<Rightarrow> 'u configParser \<Rightarrow> 'u configParser" where
  "include_one u host p =
     (let (host', p) =
        (if HasPrefix host ''*.'' then
           (let h = drop 2 host in
            (h, p\<lparr>subdomainsOnlyExclusions := insert h (subdomainsOnlyExclusions p),
                  subdomainsOnlyUpstreams :=
                    AList.update h (map_get (subdomainsOnlyUpstreams p) h @ [u]) (subdomainsOnlyUpstreams p)\<rparr>))
         else
           (host, p\<lparr>specifiedDomainUpstreams :=
              AList.update host (map_get (specifiedDomainUpstreams p) host @ [u]) (specifiedDomainUpstreams p)\<rparr>))
      in p\<lparr>domainReservedUpstreams :=
             AList.update host' (map_get (domainReservedUpstreams p) host' @ [u]) (domainReservedUpstreams p)\<rparr>)"

definition includeToReserved :: "'u \<Rightarrow> string list \<Rightarrow> 'u configParser \<Rightarrow> 'u configParser" where
  "includeToReserved u domains p = fold (include_one u) domains p"

definition specifyUpstream ::
  "'u new_upstream \<Rightarrow> string list \<Rightarrow> string \<Rightarrow> 'u configParser \<Rightarrow> error option \<times> 'u configParser" where
  "specifyUpstream mk domains u p =
     (let r = (case map_of (upstreamsIndex p) u of
          Some up \<Rightarrow> Inr (up, p)
        | None \<Rightarrow> (case mk u of
              Inl e \<Rightarrow> Inl (ErrWrap ''cannot prepare the upstream'' e)
            | Inr up \<Rightarrow> Inr (up, p\<lparr>upstreamsIndex := AList.update u up (upstreamsIndex p)\<rparr>)))
      in case r of
          Inl e \<Rightarrow> (Some e, p)
        | Inr (up, p) \<Rightarrow>
            (None, if domains = [] then p\<lparr>upstreams := upstreams p @ [up]\<rparr>
                   else includeToReserved up domains p))"

fun specify_all ::
  "'u new_upstream \<Rightarrow> string list \<Rightarrow> string list \<Rightarrow> 'u configParser \<Rightarrow> error option \<times> 'u configParser" where
  "specify_all mk domains [] p = (None, p)"
| "specify_all mk domains (u # us) p = (case specifyUpstream mk domains u p of
      (Some e, p) \<Rightarrow> (Some e, p)
    | (None, p) \<Rightarrow> specify_all mk domains us p)"

definition parseLine ::
  "'u new_upstream \<Rightarrow> name_check \<Rightarrow> string \<Rightarrow> 'u configParser \<Rightarrow> (error option \<times> 'u configParser) go" where
  "parseLine mk valid confLine p =
     (if confLine = '''' \<or> hd confLine = CHR ''#'' then Some (None, p)
      else (case splitConfigLine valid confLine of
          Inl e \<Rightarrow> Some (Some e, p)
        | Inr (ups, domains) \<Rightarrow> do {
            u0 \<leftarrow> go_index ups 0;
            if u0 = ''#'' \<and> domains \<noteq> [] then Some (None, excludeFromReserved domains p)
            else Some (specify_all mk domains ups p) }))"

fun parse_lines ::
  "'u new_upstream \<Rightarrow> name_check \<Rightarrow> nat \<Rightarrow> string list \<Rightarrow> 'u configParser \<Rightarrow> (ParseError list \<times> 'u configParser) go" where
  "parse_lines mk valid i [] p = Some ([], p)"
| "parse_lines mk valid i (l # ls) p = do {
     (err, p) \<leftarrow> parseLine mk valid l p;
     (errs, p) \<leftarrow> parse_lines mk valid (Suc i) ls p;
     Some ((case err of None \<Rightarrow> errs | Some e \<Rightarrow> \<lparr> pe_err = e, pe_Idx = i \<rparr> # errs), p) }"

text \<open>\<^verbatim>\<open>maps.Copy\<close>: later bindings overwrite.\<close>

definition maps_Copy :: "'u domain_map \<Rightarrow> 'u domain_map \<Rightarrow> 'u domain_map" where
  "maps_Copy dst src = fold (\<lambda>(k, v). AList.update k v) src dst"

definition parse_config ::
  "'u new_upstream \<Rightarrow> name_check \<Rightarrow> string list \<Rightarrow> 'u configParser \<Rightarrow> ('u UpstreamConfig \<times> ParseError list) go" where
  "parse_config mk valid lines p = do {
     (errs, p) \<leftarrow> parse_lines mk valid 0 lines p;
     Some (\<lparr> DomainReservedUpstreams = maps_Copy (domainReservedUpstreams p) (subdomainsOnlyUpstreams p),
             SpecifiedDomainUpstreams = specifiedDomainUpstreams p,
             SubdomainExclusions = subdomainsOnlyExclusions p,
             Upstreams = upstreams p \<rparr>, errs) }"

definition empty_parser :: "'u configParser" where
  "empty_parser = \<lparr> upstreamsIndex = [], domainReservedUpstreams = [], specifiedDomainUpstreams = [],
     subdomainsOnlyUpstreams = [], subdomainsOnlyExclusions = {}, upstreams = [] \<rparr>"

definition ParseUpstreamsConfig ::
  "'u new_upstream \<Rightarrow> name_check \<Rightarrow> string list \<Rightarrow> ('u UpstreamConfig \<times> ParseError list) go" where
  "ParseUpstreamsConfig mk valid lines = parse_config mk valid lines empty_parser"

subsection \<open>Lookup\<close>

definition validate :: "'u UpstreamConfig option \<Rightarrow> error option" where
  "validate uco = (case uco of
      None \<Rightarrow> Some ErrNoValue
    | Some uc \<Rightarrow>
        if Upstreams uc \<noteq> [] then None
        else if DomainReservedUpstreams uc = [] \<and> SpecifiedDomainUpstreams uc = [] then Some ErrNoUpstreams
        else Some (ErrWrap ''default upstreams'' ErrNoValue))"

definition lookupUpstreams :: "'u UpstreamConfig \<Rightarrow> string \<Rightarrow> 'u list \<times> bool" where
  "lookupUpstreams uc name = (case map_of (DomainReservedUpstreams uc) name of
      None \<Rightarrow> ([], False)
    | Some ups \<Rightarrow> (if ups = [] then Upstreams uc else ups, True))"

text \<open>\<^verbatim>\<open>SplitAfterN(host, ".", 2)[1]\<close>: the part after the first dot; there is none without a dot.\<close>

definition upper_domain :: "string \<Rightarrow> string go" where
  "upper_domain host = (case Cut host labelSep of (_, after, found) \<Rightarrow> if found then Some after else None)"

definition lookupSubdomainExclusion :: "'u UpstreamConfig \<Rightarrow> string \<Rightarrow> 'u list go" where
  "lookupSubdomainExclusion uc host =
     (if map_get (SpecifiedDomainUpstreams uc) host \<noteq> [] then Some (map_get (SpecifiedDomainUpstreams uc) host)
      else do {
        h \<leftarrow> upper_domain host;
        Some (if map_get (DomainReservedUpstreams uc) h \<noteq> [] then map_get (DomainReservedUpstreams uc) h
              else Upstreams uc) })"

text \<open>The loop over the shorter and shorter parent domains.\<close>

function parents_loop :: "'u UpstreamConfig \<Rightarrow> string \<Rightarrow> 'u list" where
  "parents_loop uc fqdn =
     (if fqdn = '''' then Upstreams uc
      else (case lookupUpstreams uc fqdn of
          (ups, True) \<Rightarrow> ups
        | (_, False) \<Rightarrow> parents_loop uc (fst (snd (Cut fqdn labelSep)))))"
  by pat_completeness auto
termination
proof (relation "measure (\<lambda>(uc, fqdn). length fqdn)", goal_cases)
  case (2 uc fqdn)
  then show ?case
    by (cases "Cut fqdn labelSep") (auto dest!: Cut_length simp: labelSep_def)
qed simp

definition getUpstreamsForDomain :: "'u UpstreamConfig \<Rightarrow> string \<Rightarrow> 'u list go" where
  "getUpstreamsForDomain uc fqdn0 =
     (if DomainReservedUpstreams uc = [] then Some (Upstreams uc)
      else let fqdn = to_lower fqdn0 in
        if fqdn \<in> SubdomainExclusions uc then lookupSubdomainExclusion uc fqdn
        else (case lookupUpstreams uc fqdn of
            (ups, True) \<Rightarrow> Some ups
          | (_, False) \<Rightarrow>
              let (firstLabel, rest, _) = Cut fqdn labelSep in
              Some (parents_loop uc (if firstLabel \<noteq> '''' \<and> rest = '''' then UnqualifiedNames else rest))))"

definition getUpstreamsForDS :: "'u UpstreamConfig \<Rightarrow> string \<Rightarrow> 'u list go" where
  "getUpstreamsForDS uc fqdn =
     (let (_, rest, _) = Cut fqdn labelSep in
      if rest = '''' then Some (Upstreams uc) else getUpstreamsForDomain uc rest)"

subsection \<open>Validation and closing\<close>

record Prefix =
  pfx_Addr :: Addr
  pfx_Bits :: nat

text \<open>The set of private networks is an interface value that may be nil, and asking a nil one panics.\<close>

definition private_domain_error ::
  "(string \<Rightarrow> error + Prefix) \<Rightarrow> (Addr \<Rightarrow> bool) option \<Rightarrow> string \<Rightarrow> error option go" where
  "private_domain_error extract privateSubnets domain = (case extract domain of
      Inl e \<Rightarrow> Some (Some e)
    | Inr pref \<Rightarrow>
        if pfx_Bits pref = 0 then Some None
        else do {
          contains \<leftarrow> privateSubnets;
          Some (if \<not> contains (pfx_Addr pref) then Some (ErrMsg ''reversed subnet is not private'') else None) })"

definition ValidatePrivateConfig ::
  "(string \<Rightarrow> error + Prefix) \<Rightarrow> (Addr \<Rightarrow> bool) option \<Rightarrow> 'u UpstreamConfig option \<Rightarrow> error option go" where
  "ValidatePrivateConfig extract privateSubnets uco = (case validate uco of
      Some e \<Rightarrow> Some (Some e)
    | None \<Rightarrow> (case uco of
          None \<Rightarrow> Some None
        | Some uc \<Rightarrow> map_option join_errors
            (those (map (private_domain_error extract privateSubnets) (sort (map fst (DomainReservedUpstreams uc)))))))"

text \<open>\<^verbatim>\<open>closeAll\<close> appends the errors of the closers to a list, except that something is closed already.\<close>

definition closeAll :: "('u \<Rightarrow> error option) \<Rightarrow> error list \<Rightarrow> 'u list \<Rightarrow> error list" where
  "closeAll close errs closers =
     errs @ filter (\<lambda>e. \<not> errors_Is net_ErrClosed e) (List.map_filter close closers)"

definition Close_config :: "('u \<Rightarrow> error option) \<Rightarrow> 'u UpstreamConfig \<Rightarrow> error option" where
  "Close_config close uc =
     (let closeDomains = (\<lambda>m errs. fold (\<lambda>d errs. closeAll close errs (map_get m d)) (sort (map fst m)) errs);
          closeErrs = closeDomains (SpecifiedDomainUpstreams uc)
            (closeDomains (DomainReservedUpstreams uc) (closeAll close [] (Upstreams uc)))
      in if closeErrs = [] then None
         else Some (ErrWrap ''failed to close some upstreams'' (ErrJoin closeErrs)))"

subsection \<open>Suffixes at label boundaries\<close>

definition label_suffix :: "string \<Rightarrow> string \<Rightarrow> bool" where
  "label_suffix s f \<longleftrightarrow> s = f \<or> (\<exists>p. f = p @ ''.'' @ s)"

function chain :: "string \<Rightarrow> string list" where
  "chain f = (if f = '''' then [] else f # chain (fst (snd (Cut f labelSep))))"
  by pat_completeness auto
termination
proof (relation "measure length", goal_cases)
  case (2 f)
  then show ?case by (cases "Cut f labelSep") (auto dest!: Cut_length simp: labelSep_def)
qed simp

declare chain.simps [simp del] parents_loop.simps [simp del]

lemma chain_Nil [simp]: "chain '''' = []"
  by (simp add: chain.simps)

lemma chain_Cons: "f \<noteq> '''' \<Longrightarrow> chain f = f # chain (fst (snd (Cut f labelSep)))"
  by (subst chain.simps) simp

lemma append_dot_eq:
  assumes "a @ CHR ''.'' # b = p @ CHR ''.'' # s" "CHR ''.'' \<notin> set a"
  shows "s = b \<or> (\<exists>p'. b = p' @ CHR ''.'' # s)"
proof -
  from assms(1) consider us where "a = p @ us" "us @ CHR ''.'' # b = CHR ''.'' # s"
    | us where "a @ us = p" "CHR ''.'' # b = us @ CHR ''.'' # s"
    by (auto simp: append_eq_append_conv2)
  then show ?thesis
  proof cases
    case 1
    with assms(2) show ?thesis by (cases us) auto
  next
    case 2
    then show ?thesis by (cases us) auto
  qed
qed

lemma label_suffix_Cut:
  assumes "Cut f labelSep = (a, b, found)"
  shows "label_suffix s f \<longleftrightarrow> s = f \<or> (found \<and> label_suffix s b)"
proof (cases found)
  case True
  with Cut_found [of f labelSep a b] assms have f: "f = a @ CHR ''.'' # b" by (simp add: labelSep_def)
  moreover have "CHR ''.'' \<notin> set a" using assms Cut_char_first by (simp add: labelSep_def)
  ultimately show ?thesis
    using append_dot_eq [of a b _ s] True by (auto simp: label_suffix_def)
next
  case False
  with assms Cut_char_found_iff have "CHR ''.'' \<notin> set f" by (force simp: labelSep_def)
  with False show ?thesis by (auto simp: label_suffix_def)
qed

lemma set_chain: "set (chain f) = {s. s \<noteq> '''' \<and> label_suffix s f}"
proof (induction f rule: chain.induct)
  case (1 f)
  show ?case
  proof (cases "f = ''''")
    case True
    then show ?thesis by (auto simp: label_suffix_def)
  next
    case False
    obtain a b found where c: "Cut f labelSep = (a, b, found)" using prod_cases3 by blast
    have "found \<or> b = ''''" using c Cut_not_found [of f labelSep a b] by (cases found) auto
    moreover have "\<not> label_suffix s b" if "b = ''''" "s \<noteq> ''''" for s
      using that by (simp add: label_suffix_def)
    ultimately have "{s. s \<noteq> '''' \<and> label_suffix s f} = insert f {s. s \<noteq> '''' \<and> label_suffix s b}"
      using False label_suffix_Cut [OF c] by blast
    with 1 False c show ?thesis by (simp add: chain_Cons)
  qed
qed

lemma chain_lengths: "sorted_wrt (\<lambda>s t. length t < length s) (chain f) \<and> (\<forall>s \<in> set (chain f). length s \<le> length f)"
proof (induction f rule: chain.induct)
  case (1 f)
  show ?case
  proof (cases "f = ''''")
    case False
    obtain a b found where c: "Cut f labelSep = (a, b, found)" using prod_cases3 by blast
    have "length b < length f" using Cut_length [OF c _ False] by (simp add: labelSep_def)
    moreover have IH: "sorted_wrt (\<lambda>s t. length t < length s) (chain b)" "\<forall>s \<in> set (chain b). length s \<le> length b"
      using 1 [OF False] c by simp_all
    ultimately have "\<forall>s \<in> set (chain b). length s < length f" by (meson le_less_trans)
    with IH(1) show ?thesis using False c by (simp add: chain_Cons less_imp_le)
  qed simp
qed

lemma parents_loop_find:
  "parents_loop uc f = (case find (\<lambda>s. snd (lookupUpstreams uc s)) (chain f) of
     None \<Rightarrow> Upstreams uc | Some s \<Rightarrow> fst (lookupUpstreams uc s))"
proof (induction uc f rule: parents_loop.induct)
  case (1 uc f)
  show ?case
  proof (cases "f = ''''")
    case False
    obtain ups ok where l: "lookupUpstreams uc f = (ups, ok)" by force
    show ?thesis
    proof (cases ok)
      case True
      with False l show ?thesis by (simp add: parents_loop.simps [of uc f] chain_Cons)
    next
      case False
      have "parents_loop uc f = parents_loop uc (fst (snd (Cut f labelSep)))"
        using \<open>f \<noteq> ''''\<close> l False by (simp add: parents_loop.simps [of uc f])
      then show ?thesis
        using \<open>f \<noteq> ''''\<close> l False 1 [OF \<open>f \<noteq> ''''\<close> l [symmetric]] by (simp add: chain_Cons)
    qed
  qed (simp add: parents_loop.simps [of uc "''''"])
qed

subsection \<open>The lookup is a longest-suffix match\<close>

definition single_label :: "string \<Rightarrow> bool" where
  "single_label f \<longleftrightarrow> (\<exists>a. a \<noteq> '''' \<and> CHR ''.'' \<notin> set a \<and> (f = a \<or> f = a @ ''.''))"

lemma snoc_unique: "c @ [x] = a @ x # b \<Longrightarrow> x \<notin> set a \<Longrightarrow> x \<notin> set c \<Longrightarrow> a = c \<and> b = []"
proof (induction a arbitrary: c)
  case Nil
  then show ?case by (cases c) auto
next
  case (Cons y a)
  then show ?case by (cases c) auto
qed

lemma single_label_Cut:
  assumes "Cut f labelSep = (a, b, found)"
  shows "single_label f \<longleftrightarrow> a \<noteq> '''' \<and> b = ''''"
proof (cases found)
  case True
  with assms Cut_found [of f labelSep a b] have f: "f = a @ CHR ''.'' # b" by (simp add: labelSep_def)
  have a: "CHR ''.'' \<notin> set a" using assms Cut_char_first by (simp add: labelSep_def)
  show ?thesis
  proof
    assume "single_label f"
    then obtain c where c: "c \<noteq> ''''" "CHR ''.'' \<notin> set c" "f = c \<or> f = c @ ''.''" by (auto simp: single_label_def)
    with f have "c @ [CHR ''.''] = a @ CHR ''.'' # b" by (metis in_set_conv_decomp)
    with a c(2) have "a = c \<and> b = ''''" by (intro snoc_unique)
    with c show "a \<noteq> '''' \<and> b = ''''" by simp
  qed (use f a in \<open>auto simp: single_label_def\<close>)
next
  case False
  with assms have f: "a = f" "b = ''''" "CHR ''.'' \<notin> set f"
    using Cut_not_found [of f labelSep a b] Cut_char_found_iff [of f "CHR ''.''" a b found]
    by (auto simp: labelSep_def)
  then show ?thesis by (auto simp: single_label_def)
qed

lemma chain_UnqualifiedNames: "chain UnqualifiedNames = [UnqualifiedNames]"
  by (simp add: chain_Cons UnqualifiedNames_def labelSep_def HasPrefix_def)

definition candidates :: "string \<Rightarrow> string list" where
  "candidates f = chain f @ (if single_label f then [UnqualifiedNames] else [])"


subsection \<open>Parsed configurations\<close>

text \<open>
  Everything in the configuration was created by the factory, and every subdomain exclusion has a dot.
\<close>

definition entries_in :: "'u set \<Rightarrow> 'u domain_map \<Rightarrow> bool" where
  "entries_in U m \<longleftrightarrow> (\<forall>(k, v) \<in> set m. set v \<subseteq> U)"

definition parser_inv :: "'u set \<Rightarrow> 'u configParser \<Rightarrow> bool" where
  "parser_inv U p \<longleftrightarrow> snd ` set (upstreamsIndex p) \<subseteq> U \<and> set (upstreams p) \<subseteq> U \<and>
     entries_in U (domainReservedUpstreams p) \<and> entries_in U (specifiedDomainUpstreams p) \<and>
     entries_in U (subdomainsOnlyUpstreams p) \<and> (\<forall>h \<in> subdomainsOnlyExclusions p. CHR ''.'' \<in> set h)"

lemma set_AList_update: "set (AList.update k v al) \<subseteq> insert (k, v) (set al)"
  by (induction al) (auto split: if_splits)

lemma entries_in_update [intro]: "entries_in U m \<Longrightarrow> set v \<subseteq> U \<Longrightarrow> entries_in U (AList.update k v m)"
  using set_AList_update [of k v m] unfolding entries_in_def by blast

lemma entries_in_get: "entries_in U m \<Longrightarrow> set (map_get m k) \<subseteq> U"
  by (cases "map_of m k") (auto simp: map_get_def entries_in_def dest!: map_of_SomeD)

lemma entries_in_Copy: "entries_in U dst \<Longrightarrow> entries_in U src \<Longrightarrow> entries_in U (maps_Copy dst src)"
  unfolding maps_Copy_def
proof (induction src arbitrary: dst)
  case (Cons a src)
  obtain k v where a: "a = (k, v)" by force
  with Cons.prems(2) have "set v \<subseteq> U" "entries_in U src" by (auto simp: entries_in_def)
  with Cons.IH [of "AList.update k v dst"] Cons.prems(1) a show ?case by auto
qed simp

text \<open>A domain of a line: it ends with a dot after a possible wildcard prefix is cut.\<close>

definition domain_ok :: "string \<Rightarrow> bool" where
  "domain_ok d \<longleftrightarrow> (HasPrefix d ''*.'' \<longrightarrow> CHR ''.'' \<in> set (drop 2 d))"

lemma char_lower_dot_star:
  "char_lower c = CHR ''.'' \<longleftrightarrow> c = CHR ''.''" "char_lower c = CHR ''*'' \<longleftrightarrow> c = CHR ''*''"
  by (rule char_lower_eq_iff, simp)+

lemma domain_ok_lower:
  assumes "h \<noteq> ''''" "h \<noteq> ''*''"
  shows "domain_ok (to_lower (h @ labelSep))"
proof (cases h)
  case (Cons c r)
  then show ?thesis
  proof (cases r)
    case Nil
    with Cons assms have "c \<noteq> CHR ''*''" by auto
    with Cons Nil show ?thesis
      by (auto simp: domain_ok_def to_lower_def labelSep_def HasPrefix_def char_lower_dot_star)
  next
    case (Cons d s)
    have "CHR ''.'' = char_lower (CHR ''.'')" by (simp add: char_lower_def)
    with Cons \<open>h = c # r\<close> show ?thesis by (simp add: domain_ok_def to_lower_def labelSep_def)
  qed
qed (use assms in simp)

lemma split_domains_ok:
  assumes "valid ''*'' \<noteq> None"
  shows "split_domains valid i hs = Inr ds \<Longrightarrow> list_all domain_ok ds"
proof (induction hs arbitrary: i ds)
  case (Cons h hs)
  have "domain_ok UnqualifiedNames" by (simp add: domain_ok_def UnqualifiedNames_def HasPrefix_def)
  moreover have "domain_ok (to_lower (h @ labelSep))" if "h \<noteq> ''''" "valid (TrimPrefix h ''*.'') = None"
    using that assms by (intro domain_ok_lower) (auto simp: TrimPrefix_def HasPrefix_def)
  ultimately show ?case using Cons by (auto split: if_splits sum.splits option.splits)
qed simp

lemma splitConfigLine_ok:
  assumes "valid ''*'' \<noteq> None" "splitConfigLine valid l = Inr (ups, ds)"
  shows "list_all domain_ok ds"
  using assms(2) split_domains_ok [of valid, OF assms(1)]
  by (auto simp: splitConfigLine_def Let_def split: if_splits prod.splits sum.splits)

lemma excludeFromReserved_inv:
  "parser_inv U p \<Longrightarrow> list_all domain_ok ds \<Longrightarrow> parser_inv U (excludeFromReserved ds p)"
proof (induction ds arbitrary: p)
  case (Cons d ds)
  have upd: "entries_in U (AList.update k [] m)" if "entries_in U m" for k m
    using that by (intro entries_in_update) auto
  let ?t = "drop 2 d"
  let ?p1 = "p\<lparr>subdomainsOnlyExclusions := insert ?t (subdomainsOnlyExclusions p),
      subdomainsOnlyUpstreams := AList.update ?t [] (subdomainsOnlyUpstreams p)\<rparr>"
  let ?p2 = "p\<lparr>domainReservedUpstreams := AList.update d [] (domainReservedUpstreams p),
      specifiedDomainUpstreams := AList.update d [] (specifiedDomainUpstreams p)\<rparr>"
  have "HasPrefix d ''*.'' \<Longrightarrow> parser_inv U ?p1" "parser_inv U ?p2"
    using Cons.prems upd by (auto simp: parser_inv_def domain_ok_def)
  then show ?case
    using Cons.IH [of ?p1] Cons.IH [of ?p2] Cons.prems(2) by (auto simp: CutPrefix_def numeral_2_eq_2)
qed simp

lemma include_one_inv:
  "parser_inv U p \<Longrightarrow> u \<in> U \<Longrightarrow> domain_ok d \<Longrightarrow> parser_inv U (include_one u d p)"
proof -
  assume *: "parser_inv U p" "u \<in> U" "domain_ok d"
  have "entries_in U (AList.update k (map_get m k @ [u]) m)" if "entries_in U m" for m k
    using that entries_in_get [OF that, of k] *(2) by (intro entries_in_update) auto
  with * show ?thesis
    by (cases "HasPrefix d ''*.''") (simp_all add: include_one_def parser_inv_def domain_ok_def Let_def)
qed

lemma includeToReserved_inv:
  "parser_inv U p \<Longrightarrow> u \<in> U \<Longrightarrow> list_all domain_ok ds \<Longrightarrow> parser_inv U (includeToReserved u ds p)"
  unfolding includeToReserved_def by (induction ds arbitrary: p) (auto simp: include_one_inv)

lemma specifyUpstream_inv:
  assumes "parser_inv U p" "list_all domain_ok ds" "\<forall>a u. mk a = Inr u \<longrightarrow> u \<in> U"
  shows "parser_inv U (snd (specifyUpstream mk ds a p))"
proof (cases "map_of (upstreamsIndex p) a")
  case None
  show ?thesis
  proof (cases "mk a")
    case (Inr u)
    with assms(3) have u: "u \<in> U" by blast
    have "parser_inv U (p\<lparr>upstreamsIndex := AList.update a u (upstreamsIndex p)\<rparr>)"
      using assms(1) u set_AList_update [of a u "upstreamsIndex p"]
      by (fastforce simp: parser_inv_def)
    with None Inr assms(2) u show ?thesis
      by (auto simp: specifyUpstream_def includeToReserved_inv) (simp add: parser_inv_def)
  qed (use None assms in \<open>simp add: specifyUpstream_def\<close>)
next
  case (Some u)
  then have "u \<in> U" using assms(1) by (force simp: parser_inv_def dest: map_of_SomeD)
  with Some assms show ?thesis
    by (auto simp: specifyUpstream_def includeToReserved_inv) (simp add: parser_inv_def)
qed

lemma specify_all_inv:
  assumes "parser_inv U p" "list_all domain_ok ds" "\<forall>a u. mk a = Inr u \<longrightarrow> u \<in> U"
  shows "parser_inv U (snd (specify_all mk ds us p))"
  using assms(1)
proof (induction us arbitrary: p)
  case (Cons a us)
  then show ?case
    using specifyUpstream_inv [where mk = mk and a = a, OF Cons.prems assms(2,3)]
    by (auto split: prod.splits option.splits)
qed simp

lemma parseLine_inv:
  assumes "parser_inv U p" "valid ''*'' \<noteq> None" "\<forall>a u. mk a = Inr u \<longrightarrow> u \<in> U"
    and "parseLine mk valid l p = Some (e, p')"
  shows "parser_inv U p'"
proof (cases "l = '''' \<or> hd l = CHR ''#''")
  case False
  show ?thesis
  proof (cases "splitConfigLine valid l")
    case (Inr r)
    obtain ups ds where r: "r = (ups, ds)" by force
    have ds: "list_all domain_ok ds" using splitConfigLine_ok [of valid, OF assms(2)] Inr r by simp
    show ?thesis
      using assms(1,4) False Inr r excludeFromReserved_inv [OF assms(1) ds]
        specify_all_inv [where mk = mk and us = ups, OF assms(1) ds assms(3)]
      by (auto simp: parseLine_def split: Option.bind_splits if_splits)
  qed (use assms False in \<open>auto simp: parseLine_def\<close>)
qed (use assms in \<open>auto simp: parseLine_def\<close>)

lemma parse_lines_inv:
  assumes "valid ''*'' \<noteq> None" "\<forall>a u. mk a = Inr u \<longrightarrow> u \<in> U"
  shows "parser_inv U p \<Longrightarrow> parse_lines mk valid i ls p = Some (errs, p') \<Longrightarrow> parser_inv U p'"
proof (induction ls arbitrary: i p errs)
  case (Cons l ls)
  then obtain e p1 errs1 where "parseLine mk valid l p = Some (e, p1)"
    "parse_lines mk valid (Suc i) ls p1 = Some (errs1, p')"
    by (auto split: Option.bind_splits)
  with Cons.IH [of p1 "Suc i" errs1] parseLine_inv [where mk = mk and valid = valid and l = l and e = e, OF Cons.prems(1) assms] show ?case
    by simp
qed simp

lemma parents_loop_in:
  assumes "entries_in U (DomainReservedUpstreams uc)" "set (Upstreams uc) \<subseteq> U"
  shows "set (fst (lookupUpstreams uc s)) \<subseteq> U" "set (parents_loop uc f) \<subseteq> U"
proof -
  show *: "set (fst (lookupUpstreams uc s)) \<subseteq> U" for s
    using assms entries_in_get [OF assms(1), of s]
    by (cases "map_of (DomainReservedUpstreams uc) s") (auto simp: lookupUpstreams_def map_get_def)
  show "set (parents_loop uc f) \<subseteq> U"
    unfolding parents_loop_find using * assms(2) by (simp split: option.splits)
qed

lemma getUpstreamsForDomain_in:
  assumes "entries_in U (DomainReservedUpstreams uc)" "entries_in U (SpecifiedDomainUpstreams uc)"
    "set (Upstreams uc) \<subseteq> U" "\<forall>h \<in> SubdomainExclusions uc. CHR ''.'' \<in> set h"
  shows "\<exists>ups. getUpstreamsForDomain uc n = Some ups \<and> set ups \<subseteq> U"
proof -
  have upper: "upper_domain h \<noteq> None" if "h \<in> SubdomainExclusions uc" for h
  proof -
    obtain a b found where c: "Cut h ''.'' = (a, b, found)" using prod_cases3 by blast
    then have found using Cut_char_found_iff that assms(4) by blast
    with c show ?thesis by (simp add: upper_domain_def labelSep_def)
  qed
  show ?thesis
  proof (cases "to_lower n \<in> SubdomainExclusions uc")
    case True
    from upper [OF this] obtain h where "upper_domain (to_lower n) = Some h" by auto
    with True assms(3) entries_in_get [OF assms(1), of h] entries_in_get [OF assms(2), of "to_lower n"] show ?thesis
      by (simp add: getUpstreamsForDomain_def lookupSubdomainExclusion_def Let_def)
  next
    case False
    obtain a b found where c: "Cut (to_lower n) labelSep = (a, b, found)" using prod_cases3 by blast
    obtain ups ok where l: "lookupUpstreams uc (to_lower n) = (ups, ok)" by force
    with parents_loop_in(1) [OF assms(1,3), of "to_lower n"] have "set ups \<subseteq> U" by simp
    with False c l assms(3) parents_loop_in(2) [OF assms(1,3)] show ?thesis
      by (cases ok) (auto simp: getUpstreamsForDomain_def)
  qed
qed

lemma parsed_config_entries:
  assumes "valid ''*'' \<noteq> None" "ParseUpstreamsConfig mk valid lines = Some (uc, errs)"
  defines "U \<equiv> {u. \<exists>a. mk a = Inr u}"
  shows "entries_in U (DomainReservedUpstreams uc)" "entries_in U (SpecifiedDomainUpstreams uc)"
    "set (Upstreams uc) \<subseteq> U" "\<forall>h \<in> SubdomainExclusions uc. CHR ''.'' \<in> set h"
proof -
  have "parser_inv U empty_parser" by (simp add: parser_inv_def empty_parser_def entries_in_def)
  moreover obtain p where p: "parse_lines mk valid 0 lines empty_parser = Some (errs, p)"
    "uc = \<lparr> DomainReservedUpstreams = maps_Copy (domainReservedUpstreams p) (subdomainsOnlyUpstreams p),
       SpecifiedDomainUpstreams = specifiedDomainUpstreams p,
       SubdomainExclusions = subdomainsOnlyExclusions p, Upstreams = upstreams p \<rparr>"
    using assms(2) by (auto simp: ParseUpstreamsConfig_def parse_config_def split: Option.bind_splits)
  ultimately have "parser_inv U p" using parse_lines_inv [of valid mk U, OF assms(1)] unfolding U_def by blast
  then show "entries_in U (DomainReservedUpstreams uc)" "entries_in U (SpecifiedDomainUpstreams uc)"
    "set (Upstreams uc) \<subseteq> U" "\<forall>h \<in> SubdomainExclusions uc. CHR ''.'' \<in> set h"
    by (auto simp: p(2) parser_inv_def entries_in_Copy)
qed

text \<open>
  C25: a parsed configuration answers every lookup.  Whatever lines the configuration had, looking up the
  upstreams for any name (by DS or otherwise) on the result never panics, and every upstream returned was
  created by the factory from the configuration.  The parser relies on the domain name check to reject
  the single asterisk.
\<close>

theorem parsed_config_lookup_safe:
  assumes "valid ''*'' \<noteq> None" "ParseUpstreamsConfig mk valid lines = Some (uc, errs)"
  shows "(\<exists>ups. getUpstreamsForDomain uc name = Some ups \<and> (\<forall>u \<in> set ups. \<exists>a. mk a = Inr u)) \<and>
    (\<exists>ups. getUpstreamsForDS uc name = Some ups \<and> (\<forall>u \<in> set ups. \<exists>a. mk a = Inr u))"
proof -
  let ?U = "{u. \<exists>a. mk a = Inr u}"
  note uc = parsed_config_entries [of valid mk lines uc errs, OF assms]
  from getUpstreamsForDomain_in [OF uc] have dom: "\<exists>ups. getUpstreamsForDomain uc n = Some ups \<and> set ups \<subseteq> ?U" for n .
  moreover have "\<exists>ups. getUpstreamsForDS uc name = Some ups \<and> set ups \<subseteq> ?U"
    using dom uc(3) by (auto simp: getUpstreamsForDS_def split: prod.splits)
  ultimately show ?thesis by blast
qed

text \<open>
  Exactly which lines crash the parser.  Parsing a line panics if and only if it has the form
  \<^verbatim>\<open>[/domains/]rest\<close> with valid domains and a rest that is not empty but consists of white space: the
  list of upstreams is then empty and its first element is read.
\<close>

theorem parseLine_panics_iff:
  "parseLine mk valid line p = None \<longleftrightarrow>
     (\<exists>domains rest ds. Cut (drop 2 line) ''/]'' = (domains, rest, True) \<and> HasPrefix line ''[/'' \<and>
        rest \<noteq> '''' \<and> list_all is_space rest \<and> split_domains valid 0 (Split domains (CHR ''/'')) = Inr ds)"
proof (cases "line = '''' \<or> hd line = CHR ''#''")
  case True
  then show ?thesis by (cases line) (auto simp: parseLine_def HasPrefix_def)
next
  case False
  obtain domains rest found where c: "Cut (drop 2 line) ''/]'' = (domains, rest, found)" using prod_cases3 by blast
  have idx: "go_index (Fields rest) 0 = None \<longleftrightarrow> list_all is_space rest"
    by (simp add: go_index_None_iff Fields_Nil)
  show ?thesis
  proof (cases "HasPrefix line ''[/''")
    case True
    with False c idx show ?thesis
      by (cases "split_domains valid 0 (Split domains (CHR ''/''))")
         (auto simp: parseLine_def splitConfigLine_def split: Option.bind_splits if_splits)
  next
    case nopre: False
    with False show ?thesis by (simp add: parseLine_def splitConfigLine_def go_simps)
  qed
qed

subsection \<open>Witnesses\<close>

definition sample_mk :: "string new_upstream" where
  "sample_mk a = (if a = '''' then Inl (ErrMsg ''empty'') else Inr a)"

definition sample_valid :: name_check where
  "sample_valid n = (if n = '''' \<or> list_ex (\<lambda>c. c = CHR ''*'') n then Some (ErrMsg ''bad domain name'') else None)"

definition sample_uc :: "string UpstreamConfig" where
  "sample_uc = \<lparr> DomainReservedUpstreams = [(''host.com.'', [''1.2.3.4'']), (''www.host.com.'', [''2.3.4.5''])],
     SpecifiedDomainUpstreams = [(''host.com.'', [''1.2.3.4'']), (''www.host.com.'', [''2.3.4.5''])],
     SubdomainExclusions = {}, Upstreams = [''3.4.5.6''] \<rparr>"


lemma sample_parse:
  "\<exists>uc. ParseUpstreamsConfig sample_mk sample_valid [''[/*.host.com/]1.2.3.4'', ''3.4.5.6''] = Some (uc, [])"
  by (rule exI) code_simp

theorem parsed_config_lookup_safe_witness:
  "\<exists>uc ups. ParseUpstreamsConfig sample_mk sample_valid [''[/*.host.com/]1.2.3.4'', ''3.4.5.6''] = Some (uc, []) \<and>
     getUpstreamsForDomain uc ''host.com.'' = Some ups"
proof -
  have "sample_valid ''*'' \<noteq> None" by code_simp
  with sample_parse parsed_config_lookup_safe [of sample_valid sample_mk _ _ "[]" "''host.com.''"] show ?thesis by blast
qed

end
