(* ===== verification/Dns64.thy ===== *)
theory Dns64
  imports Fastip Upstream_Config
begin

text \<open>
  DNS64 (\<^verbatim>\<open>proxy/dns64.go\<close>): the set-up of the NAT64 prefixes, filtering of excluded
  answers, synthesis of AAAA records from A records and the detection of PTR
  requests for synthesized addresses.  The subnet set, the address
  conversions and the exchange with the upstreams are arguments.
\<close>

subsection \<open>Prefixes\<close>


definition Is6 :: "Addr \<Rightarrow> bool" where
  "Is6 a = (case a of Addr6 _ \<Rightarrow> True | _ \<Rightarrow> False)"

definition Masked :: "Prefix \<Rightarrow> Prefix" where
  "Masked p = p\<lparr>pfx_Addr := (case pfx_Addr p of
      AddrZero \<Rightarrow> AddrZero
    | Addr4 b \<Rightarrow> Addr4 (mask_bytes (pfx_Bits p) b)
    | Addr6 b \<Rightarrow> Addr6 (mask_bytes (pfx_Bits p) b))\<rparr>"

text \<open>\<^verbatim>\<open>netip.Prefix.Contains\<close>: the same family and the same leading bits.\<close>

definition Prefix_Contains :: "Prefix \<Rightarrow> Addr \<Rightarrow> bool" where
  "Prefix_Contains p ip = (case (pfx_Addr p, ip) of
      (Addr4 a, Addr4 b) \<Rightarrow> mask_bytes (pfx_Bits p) a = mask_bytes (pfx_Bits p) b
    | (Addr6 a, Addr6 b) \<Rightarrow> mask_bytes (pfx_Bits p) a = mask_bytes (pfx_Bits p) b
    | _ \<Rightarrow> False)"

text \<open>\<^verbatim>\<open>Addr.As16\<close>; the address of an invalid length does not occur.\<close>

definition As16 :: "Addr \<Rightarrow> bytes" where
  "As16 a = (case a of AddrZero \<Rightarrow> replicate 16 0 | Addr4 b \<Rightarrow> v4InV6Prefix @ b | Addr6 b \<Rightarrow> b)"

text \<open>\<^verbatim>\<open>Addr.As4\<close>, which panics unless the address is an IPv4 or a v4-mapped one.\<close>

definition As4 :: "Addr \<Rightarrow> bytes go" where
  "As4 a = (case a of
      Addr4 b \<Rightarrow> Some b
    | Addr6 b \<Rightarrow> (if take 12 b = v4InV6Prefix then Some (drop 12 b) else None)
    | AddrZero \<Rightarrow> None)"

subsection \<open>Definitions\<close>

definition maxNAT64PrefixBitLen :: nat where "maxNAT64PrefixBitLen = 96"
definition NAT64PrefixLength :: nat where "NAT64PrefixLength = 12"
definition maxDNS64SynTTL :: uint32 where "maxDNS64SynTTL = 600"

definition dns64WellKnownPref :: Prefix where
  "dns64WellKnownPref = \<lparr> pfx_Addr = Addr6 ([0, 0x64, 0xff, 0x9b] @ replicate 12 0), pfx_Bits = 96 \<rparr>"

text \<open>The prefixes appended so far and the error, if any.\<close>

fun setup_loop :: "nat \<Rightarrow> Prefix list \<Rightarrow> Prefix list \<Rightarrow> Prefix list \<times> error option" where
  "setup_loop i [] acc = (acc, None)"
| "setup_loop i (pref # prefs) acc =
     (if \<not> Is6 (pfx_Addr pref) then (acc, Some (ErrMsg ''not an ipv6 prefix''))
      else if pfx_Bits pref > maxNAT64PrefixBitLen then (acc, Some (ErrMsg ''too long for dns64''))
      else setup_loop (Suc i) prefs (acc @ [Masked pref]))"

definition setupDNS64 :: "bool \<Rightarrow> Prefix list \<Rightarrow> Prefix list \<times> error option" where
  "setupDNS64 useDNS64 dns64Prefs =
     (if \<not> useDNS64 then ([], None)
      else if dns64Prefs = [] then ([dns64WellKnownPref], None)
      else setup_loop 0 dns64Prefs [])"

text \<open>What DNS64 uses of the libraries: the subnet set and the address conversions.\<close>

record dns64_env =
  set_Contains :: "Prefix list \<Rightarrow> Addr \<Rightarrow> bool"
  IPToAddrNoMapped :: "ip \<Rightarrow> Addr option"
  IPToAddr :: ip_to_addr
  IPFromReversedAddr :: "string \<Rightarrow> Addr option"

definition nat64_excluded :: "dns64_env \<Rightarrow> Prefix list \<Rightarrow> RR \<Rightarrow> bool" where
  "nat64_excluded E prefs rr = (case rr_Data rr of
      RD_AAAA a \<Rightarrow> (case IPToAddrNoMapped E a of None \<Rightarrow> True | Some addr \<Rightarrow> set_Contains E prefs addr)
    | _ \<Rightarrow> False)"

definition is_AAAA :: "RR \<Rightarrow> bool" where
  "is_AAAA rr = (case rr_Data rr of RD_AAAA _ \<Rightarrow> True | _ \<Rightarrow> False)"

definition filterNAT64Answers :: "dns64_env \<Rightarrow> Prefix list \<Rightarrow> RR list \<Rightarrow> RR list \<times> bool" where
  "filterNAT64Answers E prefs rrs =
     (filter (\<lambda>rr. \<not> nat64_excluded E prefs rr) rrs,
      list_ex (\<lambda>rr. is_AAAA rr \<and> \<not> nat64_excluded E prefs rr) rrs)"

text \<open>The second component is the response, whose answer section may have been filtered.\<close>

definition checkDNS64 :: "dns64_env \<Rightarrow> Prefix list \<Rightarrow> uint16 \<Rightarrow> Msg \<Rightarrow> Msg \<Rightarrow> (Msg option \<times> Msg) go" where
  "checkDNS64 E prefs newId req resp =
     (if prefs = [] then Some (None, resp)
      else do {
        q \<leftarrow> go_index (m_Question req) 0;
        if q_Qtype q \<noteq> TypeAAAA \<or> q_Qclass q \<noteq> ClassINET then Some (None, resp)
        else
          let dns64Req = req\<lparr>m_Id := newId, m_Question := q\<lparr>q_Qtype := TypeA\<rparr> # tl (m_Question req)\<rparr> in
          if m_Rcode resp = RcodeNameError then Some (None, resp)
          else if m_Rcode resp = RcodeSuccess then
            (let (ans, hasAnswers) = filterNAT64Answers E prefs (m_Answer resp);
                 resp = resp\<lparr>m_Answer := ans\<rparr>
             in Some (if hasAnswers then None else Some dns64Req, resp))
          else Some (Some dns64Req, resp) })"

definition mapDNS64 :: "Prefix list \<Rightarrow> Addr \<Rightarrow> ip go" where
  "mapDNS64 prefs addr = do {
     p \<leftarrow> go_index prefs 0;
     addrData \<leftarrow> As4 addr;
     Some (Some (go_copy (replicate NAT64PrefixLength 0) (As16 (pfx_Addr p)) @
                 go_copy (replicate 4 0) addrData)) }"

text \<open>\<^term>\<open>Some None\<close> is the nil record of an invalid A record.\<close>

definition synthRR :: "dns64_env \<Rightarrow> Prefix list \<Rightarrow> RR \<Rightarrow> uint32 \<Rightarrow> RR option go" where
  "synthRR E prefs rr soaTTL = (case rr_Data rr of
      RD_A a \<Rightarrow> (case IPToAddr E a False of
          None \<Rightarrow> Some None
        | Some addr \<Rightarrow> do {
            mapped \<leftarrow> mapDNS64 prefs addr;
            Some (Some \<lparr> rr_Hdr = \<lparr> h_Name = h_Name (rr_Hdr rr), h_Rrtype = TypeAAAA,
                           h_Class = h_Class (rr_Hdr rr), h_Ttl = min (rr_Ttl rr) soaTTL \<rparr>,
                         rr_Data = RD_AAAA mapped \<rparr>) })
    | _ \<Rightarrow> Some (Some rr))"

fun synth_all :: "dns64_env \<Rightarrow> Prefix list \<Rightarrow> uint32 \<Rightarrow> RR list \<Rightarrow> RR list option go" where
  "synth_all E prefs soaTTL [] = Some (Some [])"
| "synth_all E prefs soaTTL (ans # rest) = do {
     rr \<leftarrow> synthRR E prefs ans soaTTL;
     case rr of
       None \<Rightarrow> Some None
     | Some rr \<Rightarrow> do {
         newAns \<leftarrow> synth_all E prefs soaTTL rest;
         Some (map_option (\<lambda>l. rr # l) newAns) } }"

fun soa_ttl :: "Msg \<Rightarrow> RR list \<Rightarrow> uint32 go" where
  "soa_ttl origReq [] = Some maxDNS64SynTTL"
| "soa_ttl origReq (rr # ns) =
     (if rr_Rrtype rr = TypeSOA then do {
        q \<leftarrow> go_index (m_Question origReq) 0;
        if h_Name (rr_Hdr rr) = q_Name q then Some (rr_Ttl rr) else soa_ttl origReq ns }
      else soa_ttl origReq ns)"

definition synthDNS64 :: "dns64_env \<Rightarrow> Prefix list \<Rightarrow> Msg \<Rightarrow> Msg \<Rightarrow> Msg \<Rightarrow> (bool \<times> Msg) go" where
  "synthDNS64 E prefs origReq origResp resp =
     (if m_Answer resp = [] then Some (False, origResp)
      else do {
        soaTTL \<leftarrow> soa_ttl origReq (m_Ns origResp);
        newAns \<leftarrow> synth_all E prefs soaTTL (m_Answer resp);
        Some (case newAns of
            None \<Rightarrow> (False, origResp)
          | Some ans \<Rightarrow> (True, origResp\<lparr>m_Answer := ans, m_Ns := m_Ns resp, m_Extra := m_Extra resp\<rparr>)) })"

definition shouldStripDNS64 :: "dns64_env \<Rightarrow> Prefix list \<Rightarrow> Msg \<Rightarrow> bool go" where
  "shouldStripDNS64 E prefs req =
     (if prefs = [] then Some False
      else do {
        q \<leftarrow> go_index (m_Question req) 0;
        Some (q_Qtype q = TypePTR \<and> (case IPFromReversedAddr E (q_Name q) of
            None \<Rightarrow> False
          | Some ip \<Rightarrow> set_Contains E prefs ip \<or> Prefix_Contains dns64WellKnownPref ip)) })"

text \<open>
  The upstream that performed the DNS64 request, the response, modified in place, and the state of
  the exchanges, which \<^verbatim>\<open>exch\<close> (\<^verbatim>\<open>exchangeUpstreams\<close>) transforms.
\<close>

definition performDNS64 ::
  "dns64_env \<Rightarrow> Prefix list \<Rightarrow> uint16 \<Rightarrow> (Msg \<Rightarrow> 's \<Rightarrow> ((error + Msg option \<times> 'u) \<times> 's) go) \<Rightarrow>
     Msg \<Rightarrow> Msg option \<Rightarrow> 's \<Rightarrow> ('u option \<times> Msg option \<times> 's) go" where
  "performDNS64 E prefs newId exch origReq origResp s = (case origResp of
      None \<Rightarrow> Some (None, None, s)
    | Some oresp \<Rightarrow> do {
        (dns64Req, oresp) \<leftarrow> checkDNS64 E prefs newId origReq oresp;
        case dns64Req of
          None \<Rightarrow> Some (None, Some oresp, s)
        | Some r64 \<Rightarrow> do {
            (r, s) \<leftarrow> exch r64 s;
            case r of
              Inl e \<Rightarrow> Some (None, Some oresp, s)
            | Inr (None, u) \<Rightarrow> Some (None, Some oresp, s)
            | Inr (Some dns64Resp, u) \<Rightarrow> do {
                (ok, oresp) \<leftarrow> synthDNS64 E prefs origReq oresp dns64Resp;
                Some (if ok then Some u else None, Some oresp, s) } } })"

subsection \<open>The prefixes after the set-up\<close>

text \<open>What the set-up establishes of every prefix, with the length of IPv6 addresses.\<close>

definition nat64_prefix :: "Prefix \<Rightarrow> bool" where
  "nat64_prefix p \<longleftrightarrow> Is6 (pfx_Addr p) \<and> pfx_Bits p \<le> maxNAT64PrefixBitLen \<and> Masked p = p"

text \<open>An address value of the language holds four or sixteen bytes.\<close>

definition addr_wf :: "Addr \<Rightarrow> bool" where
  "addr_wf a = (case a of AddrZero \<Rightarrow> True | Addr4 b \<Rightarrow> length b = 4 | Addr6 b \<Rightarrow> length b = 16)"

lemma Masked_simps [simp]:
  "pfx_Bits (Masked p) = pfx_Bits p" "Masked (Masked p) = Masked p"
  "Is6 (pfx_Addr (Masked p)) = Is6 (pfx_Addr p)"
  "addr_wf (pfx_Addr (Masked p)) = addr_wf (pfx_Addr p)"
  by (auto simp: Masked_def Is6_def addr_wf_def split: Addr.splits)

lemma setup_loop_wf:
  assumes "setup_loop i prefs acc = (res, err)" "\<forall>p \<in> set acc. nat64_prefix p"
  shows "(\<forall>p \<in> set res. nat64_prefix p) \<and> (\<forall>p \<in> set res - set acc. \<exists>p0 \<in> set prefs. p = Masked p0) \<and>
         (err = None \<longrightarrow> res = acc @ map Masked prefs)"
  using assms
proof (induction i prefs acc rule: setup_loop.induct)
  case (2 i pref prefs acc)
  show ?case
  proof (cases "Is6 (pfx_Addr pref) \<and> pfx_Bits pref \<le> maxNAT64PrefixBitLen")
    case True
    then have "\<forall>p \<in> set (acc @ [Masked pref]). nat64_prefix p"
      using 2(3) by (auto simp: nat64_prefix_def)
    with 2(1) [OF _ _ _ this] 2(2) True show ?thesis by auto
  next
    case False
    with 2(2) have "res = acc \<and> err \<noteq> None" by (auto simp: not_le split: if_splits)
    with 2(3) show ?thesis by auto
  qed
qed auto

lemma mask_bytes_zero [simp]: "mask_bytes n (replicate k 0) = replicate k 0"
  by (rule bytes_eqI) (auto simp: mask_bytes_bit)

lemma well_known_prefix: "nat64_prefix dns64WellKnownPref" "addr_wf (pfx_Addr dns64WellKnownPref)"
proof -
  have "mask_bytes 96 ([0, 0x64, 0xff, 0x9b] @ replicate 12 0) = ([0, 0x64, 0xff, 0x9b] @ replicate 12 0)"
    by code_simp
  then show "nat64_prefix dns64WellKnownPref"
    by (simp add: nat64_prefix_def dns64WellKnownPref_def Is6_def maxNAT64PrefixBitLen_def Masked_def)
qed (simp add: dns64WellKnownPref_def addr_wf_def)

lemma setupDNS64_wf:
  assumes "setupDNS64 True cfg = (prefs, None)" "\<forall>p \<in> set cfg. addr_wf (pfx_Addr p)"
  shows "prefs \<noteq> [] \<and> (\<forall>p \<in> set prefs. nat64_prefix p \<and> addr_wf (pfx_Addr p))"
proof (cases "cfg = []")
  case True
  with assms(1) have "prefs = [dns64WellKnownPref]" by (simp add: setupDNS64_def)
  with well_known_prefix show ?thesis by simp
next
  case False
  with assms(1) have "setup_loop 0 cfg [] = (prefs, None)" by (simp add: setupDNS64_def)
  from setup_loop_wf [OF this] have "\<forall>p \<in> set prefs. nat64_prefix p" "prefs = map Masked cfg" by auto
  with assms(2) False show ?thesis by auto
qed

subsection \<open>Synthesized records\<close>

text \<open>The documented behaviour of the conversions and of the subnet set.\<close>

definition dns64_env_law :: "dns64_env \<Rightarrow> bool" where
  "dns64_env_law E \<longleftrightarrow>
     (\<forall>ip a. IPToAddr E ip False = Some a \<longrightarrow> (\<exists>b. a = Addr4 b \<and> length b = 4)) \<and>
     (\<forall>ps a. set_Contains E ps a \<longleftrightarrow> (\<exists>p \<in> set ps. Prefix_Contains p a))"

lemma mask_bytes_take_eq:
  assumes "length a = length b" "take k a = take k b" "n \<le> 8 * k"
  shows "mask_bytes n a = mask_bytes n b"
proof (rule bytes_eqI, goal_cases)
  case (2 i j)
  show ?case
  proof (cases "i < k")
    case True
    then have "a ! i = b ! i" using assms(2) by (metis nth_take)
    with 2 assms(1) show ?thesis by (simp add: mask_bytes_bit)
  next
    case False
    with 2 assms show ?thesis by (auto simp: mask_bytes_bit)
  qed
qed (use assms in simp)

text \<open>The address synthesized from an IPv4 address: the prefix and then the address.\<close>

definition nat64_bytes :: "Prefix \<Rightarrow> bytes \<Rightarrow> bytes" where
  "nat64_bytes p v4 = take 12 (As16 (pfx_Addr p)) @ v4"

lemma length_As16: "addr_wf a \<Longrightarrow> length (As16 a) = 16"
  by (auto simp: As16_def addr_wf_def v4InV6Prefix_def split: Addr.splits)

lemma go_copy_fill: "length src \<ge> length dst \<Longrightarrow> go_copy dst src = take (length dst) src"
  by (simp add: go_copy_def)

lemma mapDNS64_eq:
  assumes "addr_wf (pfx_Addr p)" "length v4 = 4"
  shows "mapDNS64 (p # ps) (Addr4 v4) = Some (Some (nat64_bytes p v4))"
  using assms length_As16 [OF assms(1)]
  by (simp add: mapDNS64_def As4_def go_index_def go_copy_fill NAT64PrefixLength_def nat64_bytes_def)

lemma nat64_bytes_in_prefix:
  assumes "nat64_prefix p" "addr_wf (pfx_Addr p)" "length v4 = 4"
  shows "Prefix_Contains p (Addr6 (nat64_bytes p v4)) \<and> length (nat64_bytes p v4) = 16 \<and>
         drop 12 (nat64_bytes p v4) = v4"
proof -
  from assms(1,2) obtain b where b: "pfx_Addr p = Addr6 b" "length b = 16" "pfx_Bits p \<le> 96"
    by (auto simp: nat64_prefix_def Is6_def addr_wf_def maxNAT64PrefixBitLen_def split: Addr.splits)
  have "mask_bytes (pfx_Bits p) b = mask_bytes (pfx_Bits p) (nat64_bytes p v4)"
    by (rule mask_bytes_take_eq [where k = 12]) (use b assms(3) in \<open>auto simp: nat64_bytes_def As16_def\<close>)
  with b assms(3) show ?thesis by (simp add: Prefix_Contains_def nat64_bytes_def As16_def)
qed

text \<open>How a record of the A response relates to the record of the synthesized answer.\<close>

definition synth_of :: "dns64_env \<Rightarrow> Prefix \<Rightarrow> uint32 \<Rightarrow> RR \<Rightarrow> RR \<Rightarrow> bool" where
  "synth_of E p ttl rr rr' = (case rr_Data rr of
      RD_A a \<Rightarrow> (\<exists>v4. IPToAddr E a False = Some (Addr4 v4) \<and> length v4 = 4 \<and>
        rr_Data rr' = RD_AAAA (Some (nat64_bytes p v4)) \<and> rr_Rrtype rr' = TypeAAAA \<and>
        h_Name (rr_Hdr rr') = h_Name (rr_Hdr rr) \<and> h_Class (rr_Hdr rr') = h_Class (rr_Hdr rr) \<and>
        rr_Ttl rr' = min (rr_Ttl rr) ttl)
    | _ \<Rightarrow> rr' = rr)"

definition bad_A :: "dns64_env \<Rightarrow> RR \<Rightarrow> bool" where
  "bad_A E rr = (case rr_Data rr of RD_A a \<Rightarrow> IPToAddr E a False = None | _ \<Rightarrow> False)"

lemma synthRR_spec:
  assumes "dns64_env_law E" "addr_wf (pfx_Addr p)"
  shows "\<exists>r. synthRR E (p # ps) rr ttl = Some r \<and>
             (case r of None \<Rightarrow> bad_A E rr | Some rr' \<Rightarrow> \<not> bad_A E rr \<and> synth_of E p ttl rr rr')"
proof (cases "\<exists>a. rr_Data rr = RD_A a")
  case True
  then obtain a where a: "rr_Data rr = RD_A a" ..
  show ?thesis
  proof (cases "IPToAddr E a False")
    case None
    with a show ?thesis by (simp add: synthRR_def bad_A_def)
  next
    case (Some addr)
    then obtain v4 where v4: "addr = Addr4 v4" "length v4 = 4"
      using assms(1) by (auto simp: dns64_env_law_def)
    with a Some mapDNS64_eq [OF assms(2) v4(2)] show ?thesis
      by (simp add: synthRR_def bad_A_def synth_of_def)
  qed
next
  case False
  then show ?thesis by (cases "rr_Data rr") (auto simp: synthRR_def bad_A_def synth_of_def)
qed

lemma synth_all_spec:
  assumes "dns64_env_law E" "addr_wf (pfx_Addr p)"
  shows "\<exists>r. synth_all E (p # ps) ttl rrs = Some r \<and>
             (case r of None \<Rightarrow> \<exists>rr \<in> set rrs. bad_A E rr
              | Some ans \<Rightarrow> (\<forall>rr \<in> set rrs. \<not> bad_A E rr) \<and> list_all2 (synth_of E p ttl) rrs ans)"
proof (induction rrs)
  case (Cons rr rrs)
  from synthRR_spec [OF assms] obtain r where
    r: "synthRR E (p # ps) rr ttl = Some r"
       "case r of None \<Rightarrow> bad_A E rr | Some rr' \<Rightarrow> \<not> bad_A E rr \<and> synth_of E p ttl rr rr'"
    by blast
  from Cons obtain s where "synth_all E (p # ps) ttl rrs = Some s"
    "case s of None \<Rightarrow> \<exists>rr \<in> set rrs. bad_A E rr
              | Some ans \<Rightarrow> (\<forall>rr \<in> set rrs. \<not> bad_A E rr) \<and> list_all2 (synth_of E p ttl) rrs ans"
    by blast
  with r show ?case by (cases r; cases s) auto
qed simp

lemma soa_ttl_Some: "m_Question req \<noteq> [] \<Longrightarrow> \<exists>t. soa_ttl req ns = Some t"
  by (induction ns) (auto simp: go_index_def)

definition soa_ttl_spec :: "string \<Rightarrow> RR list \<Rightarrow> uint32" where
  "soa_ttl_spec name ns = (case find (\<lambda>rr. rr_Rrtype rr = TypeSOA \<and> h_Name (rr_Hdr rr) = name) ns of
      None \<Rightarrow> maxDNS64SynTTL | Some rr \<Rightarrow> rr_Ttl rr)"

lemma soa_ttl_eq: "m_Question req = [q] \<Longrightarrow> soa_ttl req ns = Some (soa_ttl_spec (q_Name q) ns)"
  by (induction ns) (auto simp: go_index_def soa_ttl_spec_def)

definition usable_AAAA :: "dns64_env \<Rightarrow> Prefix list \<Rightarrow> RR \<Rightarrow> bool" where
  "usable_AAAA E prefs rr \<longleftrightarrow> is_AAAA rr \<and> \<not> nat64_excluded E prefs rr"

text \<open>When the second request is made, and what it asks.\<close>

definition wants_dns64 :: "dns64_env \<Rightarrow> Prefix list \<Rightarrow> Question \<Rightarrow> Msg \<Rightarrow> bool" where
  "wants_dns64 E prefs q resp \<longleftrightarrow> q_Qtype q = TypeAAAA \<and> q_Qclass q = ClassINET \<and>
     m_Rcode resp \<noteq> RcodeNameError \<and>
     (m_Rcode resp = RcodeSuccess \<longrightarrow> (\<forall>rr \<in> set (m_Answer resp). \<not> usable_AAAA E prefs rr))"

definition a_request :: "uint16 \<Rightarrow> Question \<Rightarrow> Msg \<Rightarrow> Msg" where
  "a_request newId q req = req\<lparr>m_Id := newId, m_Question := [q\<lparr>q_Qtype := TypeA\<rparr>]\<rparr>"

definition drop_excluded :: "dns64_env \<Rightarrow> Prefix list \<Rightarrow> Question \<Rightarrow> Msg \<Rightarrow> Msg" where
  "drop_excluded E prefs q resp =
     (if q_Qtype q = TypeAAAA \<and> q_Qclass q = ClassINET \<and> m_Rcode resp = RcodeSuccess
      then resp\<lparr>m_Answer := filter (\<lambda>rr. \<not> nat64_excluded E prefs rr) (m_Answer resp)\<rparr> else resp)"

lemma checkDNS64_eq:
  assumes "prefs \<noteq> []" "m_Question req = [q]"
  shows "checkDNS64 E prefs newId req resp =
    Some (if wants_dns64 E prefs q resp then Some (a_request newId q req) else None,
          drop_excluded E prefs q resp)"
proof (cases "q_Qtype q = TypeAAAA \<and> q_Qclass q = ClassINET")
  case True
  consider "m_Rcode resp = RcodeNameError" | "m_Rcode resp = RcodeSuccess"
    | "m_Rcode resp \<noteq> RcodeNameError" "m_Rcode resp \<noteq> RcodeSuccess" by blast
  then show ?thesis
    using True assms
    by cases (simp_all add: checkDNS64_def go_index_def wants_dns64_def drop_excluded_def a_request_def
      filterNAT64Answers_def Let_def list_ex_iff usable_AAAA_def Bex_def)
next
  case False
  then have "\<not> wants_dns64 E prefs q resp" "drop_excluded E prefs q resp = resp"
    by (auto simp: wants_dns64_def drop_excluded_def)
  with False assms show ?thesis by (auto simp: checkDNS64_def go_index_def)
qed

lemma synthDNS64_eq:
  assumes "dns64_env_law E" "prefs \<noteq> []" "addr_wf (pfx_Addr (hd prefs))" "m_Question req = [q]"
  shows "if m_Answer r64 \<noteq> [] \<and> (\<forall>rr \<in> set (m_Answer r64). \<not> bad_A E rr)
    then \<exists>ans. synthDNS64 E prefs req resp r64 =
        Some (True, resp\<lparr>m_Answer := ans, m_Ns := m_Ns r64, m_Extra := m_Extra r64\<rparr>) \<and>
       list_all2 (synth_of E (hd prefs) (soa_ttl_spec (q_Name q) (m_Ns resp))) (m_Answer r64) ans
    else synthDNS64 E prefs req resp r64 = Some (False, resp)"
proof (cases "m_Answer r64 = []")
  case True
  then show ?thesis by (simp add: synthDNS64_def)
next
  case False
  from synth_all_spec [OF assms(1,3), of "tl prefs", unfolded list.collapse [OF assms(2)]]
  obtain s where
    s: "synth_all E prefs (soa_ttl_spec (q_Name q) (m_Ns resp)) (m_Answer r64) = Some s"
       "case s of None \<Rightarrow> \<exists>rr \<in> set (m_Answer r64). bad_A E rr
        | Some ans \<Rightarrow> (\<forall>rr \<in> set (m_Answer r64). \<not> bad_A E rr) \<and>
            list_all2 (synth_of E (hd prefs) (soa_ttl_spec (q_Name q) (m_Ns resp))) (m_Answer r64) ans"
    by blast
  show ?thesis
  proof (cases s)
    case None
    with s False soa_ttl_eq [OF assms(4)] show ?thesis by (simp add: synthDNS64_def)
  next
    case (Some ans)
    with s False soa_ttl_eq [OF assms(4)]
    have "synthDNS64 E prefs req resp r64 =
        Some (True, resp\<lparr>m_Answer := ans, m_Ns := m_Ns r64, m_Extra := m_Extra r64\<rparr>)"
      by (simp add: synthDNS64_def)
    with Some s False show ?thesis by simp blast
  qed
qed

text \<open>The response to the second request, if it is used, with the upstream it came from.\<close>

definition a_answers ::
  "dns64_env \<Rightarrow> Prefix list \<Rightarrow> Question \<Rightarrow> Msg \<Rightarrow> error + Msg option \<times> 'u \<Rightarrow> (Msg \<times> 'u) option" where
  "a_answers E prefs q resp x =
     (if wants_dns64 E prefs q resp then
        (case x of
           Inr (Some r64, u) \<Rightarrow>
             if m_Answer r64 \<noteq> [] \<and> (\<forall>rr \<in> set (m_Answer r64). \<not> bad_A E rr) then Some (r64, u) else None
         | _ \<Rightarrow> None)
      else None)"


text \<open>
  The synthesis, the exclusion and the PTR detection agree: the address mapped
  from an IPv4 address is a sixteen byte address within the first prefix that
  ends with the IPv4 one, an AAAA record with it is excluded by the answer filter,
  and a PTR request for it is recognised as one to be answered with NXDOMAIN.
\<close>

theorem mapDNS64_recognised:
  assumes "setupDNS64 True cfg = (prefs, None)" "\<forall>p \<in> set cfg. addr_wf (pfx_Addr p)"
    and "dns64_env_law E" "length v4 = 4" "mapDNS64 prefs (Addr4 v4) = Some (Some b)"
    and "IPToAddrNoMapped E (Some b) = Some (Addr6 b)" "IPFromReversedAddr E (q_Name q) = Some (Addr6 b)"
    and "rr_Data rr = RD_AAAA (Some b)" "m_Question req = [q]" "q_Qtype q = TypePTR"
  shows "length b = 16 \<and> drop 12 b = v4 \<and> Prefix_Contains (hd prefs) (Addr6 b) \<and>
    rr \<notin> set (fst (filterNAT64Answers E prefs rrs)) \<and> shouldStripDNS64 E prefs req = Some True"
proof -
  from setupDNS64_wf [OF assms(1,2)] obtain p ps where
    p: "prefs = p # ps" "addr_wf (pfx_Addr p)" "nat64_prefix p" by (cases prefs) auto
  with mapDNS64_eq [OF p(2) assms(4)] assms(5) have b: "b = nat64_bytes p v4" by simp
  from nat64_bytes_in_prefix [OF p(3,2) assms(4)] b p(1) have
    c: "length b = 16" "drop 12 b = v4" "Prefix_Contains p (Addr6 b)" by auto
  have "set_Contains E prefs (Addr6 b)"
    using assms(3) c(3) p(1) by (auto simp: dns64_env_law_def)
  then have "nat64_excluded E prefs rr" "shouldStripDNS64 E prefs req = Some True"
    using assms(6-10) p(1)
    by (simp_all add: nat64_excluded_def shouldStripDNS64_def go_index_def)
  with c p(1) show ?thesis by (simp add: filterNAT64Answers_def)
qed

subsection \<open>Witnesses\<close>

definition sample_env :: dns64_env where
  "sample_env = \<lparr>
     set_Contains = (\<lambda>ps a. list_ex (\<lambda>p. Prefix_Contains p a) ps),
     IPToAddrNoMapped = (\<lambda>ip. map_option Addr6 ip),
     IPToAddr = (\<lambda>ip v6. case ip of Some b \<Rightarrow> if length b = 4 then Some (Addr4 b) else None | None \<Rightarrow> None),
     IPFromReversedAddr = (\<lambda>s. if s = ''p'' then Some (Addr6 (nat64_bytes dns64WellKnownPref [192, 0, 2, 1])) else None) \<rparr>"

lemma sample_env_law: "dns64_env_law sample_env"
  by (auto simp: dns64_env_law_def sample_env_def list_ex_iff split: option.splits if_splits)

abbreviation "sample_AAAA \<equiv> sample_question\<lparr>q_Qtype := TypeAAAA\<rparr>"
abbreviation "sample_PTR \<equiv> \<lparr> q_Name = ''p'', q_Qtype = TypePTR, q_Qclass = ClassINET \<rparr>"


theorem mapDNS64_recognised_witness:
  "shouldStripDNS64 sample_env [dns64WellKnownPref] (empty_Msg\<lparr>m_Question := [sample_PTR]\<rparr>) = Some True"
proof -
  have prefs: "setupDNS64 True [] = ([dns64WellKnownPref], None)" by (simp add: setupDNS64_def)
  let ?b = "nat64_bytes dns64WellKnownPref [192, 0, 2, 1]"
  have "mapDNS64 [dns64WellKnownPref] (Addr4 [192, 0, 2, 1]) = Some (Some ?b)"
    by (rule mapDNS64_eq) (simp_all add: well_known_prefix)
  from mapDNS64_recognised [OF prefs _ sample_env_law _ this, of sample_PTR
      "(sample_rr 1)\<lparr>rr_Data := RD_AAAA (Some ?b)\<rparr>" "empty_Msg\<lparr>m_Question := [sample_PTR]\<rparr>"]
  show ?thesis by (simp add: sample_env_def)
qed

end
