(* ===== verification/Recursion_Detector.thy ===== *)
theory Recursion_Detector
  imports Cache_Key
begin

text \<open>
  The recursion detector of \<^verbatim>\<open>proxy/recursiondetector.go\<close>: requests sent to
  private upstreams are remembered for a short time by a fixed-size signature,
  and a request seen again within that time is a loop.  Times are nanoseconds
  since the epoch, stored as 64-bit words.
\<close>

subsection \<open>Definitions\<close>

definition uint16sz :: nat where "uint16sz = 2"

text \<open>The longest domain name in presentation format (RFC 1035), \<^verbatim>\<open>netutil.MaxDomainNameLen\<close>.\<close>

definition MaxDomainNameLen :: nat where "MaxDomainNameLen = 253"

definition recursionTTL :: int where "recursionTTL = 1000000000"

definition cachedRecurrentReqNum :: nat where "cachedRecurrentReqNum = 1000"

record 'c recursionDetector =
  recentRequests :: 'c
  rd_ttl :: int

definition msgToSignature :: "Msg \<Rightarrow> bytes go" where
  "msgToSignature msg = do {
     q \<leftarrow> go_index (m_Question msg) 0;
     Some (put_uint16 (m_Id msg) @ put_uint16 (q_Qtype q) @
           go_copy (replicate MaxDomainNameLen 0) (bytes_of (q_Name q))) }"

definition rd_check :: "'c glcache \<Rightarrow> 'c recursionDetector \<Rightarrow> int \<Rightarrow> Msg \<Rightarrow> (bool \<times> 'c recursionDetector) go" where
  "rd_check G rd now msg =
     (if m_Question msg = [] then Some (False, rd)
      else do {
        key \<leftarrow> msgToSignature msg;
        let (expireData, rr) = gl_Get G (recentRequests rd) key; rd = rd\<lparr>recentRequests := rr\<rparr> in
        case expireData of
          None \<Rightarrow> Some (False, rd)
        | Some d \<Rightarrow> do { e \<leftarrow> get_uint64 d; Some (now < sint e, rd) } })"

definition rd_add :: "'c glcache \<Rightarrow> 'c recursionDetector \<Rightarrow> int \<Rightarrow> Msg \<Rightarrow> 'c recursionDetector go" where
  "rd_add G rd now msg =
     (if m_Question msg = [] then Some rd
      else do {
        key \<leftarrow> msgToSignature msg;
        Some (rd\<lparr>recentRequests :=
          gl_Set G (recentRequests rd) key (put_uint64 (word_of_int (now + rd_ttl rd)))\<rparr>) })"

definition rd_clear :: "'c glcache \<Rightarrow> 'c recursionDetector \<Rightarrow> 'c recursionDetector" where
  "rd_clear G rd = rd\<lparr>recentRequests := gl_Clear G (recentRequests rd)\<rparr>"

definition newRecursionDetector :: "'c glcache \<Rightarrow> int \<Rightarrow> nat \<Rightarrow> 'c recursionDetector" where
  "newRecursionDetector G ttl suspectsNum = \<lparr> recentRequests = gl_New G suspectsNum, rd_ttl = ttl \<rparr>"

text \<open>The requests added, oldest first, with the times of the additions.\<close>

fun rd_adds :: "'c glcache \<Rightarrow> 'c recursionDetector \<Rightarrow> (int \<times> Msg) list \<Rightarrow> 'c recursionDetector go" where
  "rd_adds G rd [] = Some rd"
| "rd_adds G rd ((t, m) # hist) = do { rd \<leftarrow> rd_add G rd t m; rd_adds G rd hist }"

subsection \<open>Signatures\<close>

definition same_request :: "Msg \<Rightarrow> Msg \<Rightarrow> bool" where
  "same_request m m' \<longleftrightarrow> m_Id m = m_Id m' \<and> (\<exists>q qs q' qs'. m_Question m = q # qs \<and> m_Question m' = q' # qs' \<and>
     q_Qtype q = q_Qtype q' \<and> q_Name q = q_Name q')"

definition short_name :: "Msg \<Rightarrow> bool" where
  "short_name m \<longleftrightarrow> (\<forall>q \<in> set (m_Question m). length (q_Name q) \<le> MaxDomainNameLen \<and> nul_free (q_Name q))"

lemma padded_inject:
  fixes x y :: bytes
  assumes "x @ replicate n 0 = y @ replicate m 0" "0 \<notin> set x" "0 \<notin> set y"
  shows "x = y"
proof -
  have strip: "filter (\<lambda>b. b \<noteq> 0) (z @ replicate k 0) = z" if "0 \<notin> set z" for z :: bytes and k
    using that by (auto simp: filter_id_conv)
  show ?thesis using arg_cong [OF assms(1), of "filter (\<lambda>b. b \<noteq> 0)"] strip assms(2,3) by metis
qed

lemma padded_name:
  "length s \<le> n \<Longrightarrow> go_copy (replicate n 0) (bytes_of s) = bytes_of s @ replicate (n - length s) 0"
  by (simp add: go_copy_def)

lemma msgToSignature_total: "m_Question m \<noteq> [] \<Longrightarrow> \<exists>s. msgToSignature m = Some s"
  by (cases "m_Question m") (auto simp: msgToSignature_def go_simps)

lemma msgToSignature_inject:
  assumes "msgToSignature m = Some s" "msgToSignature m' = Some s" "short_name m" "short_name m'"
  shows "same_request m m'"
proof -
  obtain q qs q' qs' where q: "m_Question m = q # qs" "m_Question m' = q' # qs'"
    using assms(1,2) by (cases "m_Question m"; cases "m_Question m'") (auto simp: msgToSignature_def go_index_def)
  have n: "length (q_Name q) \<le> MaxDomainNameLen" "length (q_Name q') \<le> MaxDomainNameLen"
    "0 \<notin> set (bytes_of (q_Name q))" "0 \<notin> set (bytes_of (q_Name q'))"
    using assms(3,4) q zero_notin_bytes_of by (auto simp: short_name_def)
  have "put_uint16 (m_Id m) @ put_uint16 (q_Qtype q) @ bytes_of (q_Name q) @
        replicate (MaxDomainNameLen - length (q_Name q)) 0 =
      put_uint16 (m_Id m') @ put_uint16 (q_Qtype q') @ bytes_of (q_Name q') @
        replicate (MaxDomainNameLen - length (q_Name q')) 0"
    using assms(1,2) q n by (simp add: msgToSignature_def go_simps padded_name)
  then have "m_Id m = m_Id m'" "q_Qtype q = q_Qtype q'"
    "bytes_of (q_Name q) @ replicate (MaxDomainNameLen - length (q_Name q)) 0 =
     bytes_of (q_Name q') @ replicate (MaxDomainNameLen - length (q_Name q')) 0"
    by (simp_all add: append_eq_append_conv)
  moreover from this(3) have "q_Name q = q_Name q'" using padded_inject n(3,4) by fastforce
  ultimately show ?thesis using q by (simp add: same_request_def)
qed

subsection \<open>No false alarms, no missed loops\<close>

definition rd_entries :: "'c glcache \<Rightarrow> 'c recursionDetector \<Rightarrow> (int \<times> Msg) list \<Rightarrow> bool" where
  "rd_entries G rd hist \<longleftrightarrow> (\<forall>k d. gl_items G (recentRequests rd) k = Some d \<longrightarrow>
     (\<exists>(t, m) \<in> set hist. msgToSignature m = Some k \<and> d = put_uint64 (word_of_int (t + rd_ttl rd))))"

lemma rd_add_entries:
  assumes "glcache_law G" "rd_entries G rd hist"
  shows "\<exists>rd'. rd_add G rd t m = Some rd' \<and> rd_ttl rd' = rd_ttl rd \<and> rd_entries G rd' (hist @ [(t, m)])"
proof (cases "m_Question m = []")
  case True
  with assms show ?thesis by (fastforce simp: rd_add_def rd_entries_def)
next
  case False
  then obtain k where k: "msgToSignature m = Some k" using msgToSignature_total by blast
  let ?rd = "rd\<lparr>recentRequests := gl_Set G (recentRequests rd) k (put_uint64 (word_of_int (t + rd_ttl rd)))\<rparr>"
  have "rd_entries G ?rd (hist @ [(t, m)])"
    unfolding rd_entries_def
  proof (intro allI impI)
    fix k' d assume "gl_items G (recentRequests ?rd) k' = Some d"
    then have "gl_items G (recentRequests rd) k' = Some d \<or>
        (k' = k \<and> d = put_uint64 (word_of_int (t + rd_ttl rd)))"
      using gl_items_SetD [OF assms(1)] by fastforce
    then show "\<exists>(t, m) \<in> set (hist @ [(t, m)]). msgToSignature m = Some k' \<and>
        d = put_uint64 (word_of_int (t + rd_ttl ?rd))"
      using assms(2) k by (fastforce simp: rd_entries_def)
  qed
  with False k show ?thesis by (simp add: rd_add_def)
qed

lemma rd_adds_entries:
  assumes "glcache_law G" "rd_entries G rd hist0"
  shows "\<exists>rd'. rd_adds G rd hist = Some rd' \<and> rd_ttl rd' = rd_ttl rd \<and> rd_entries G rd' (hist0 @ hist)"
  using assms(2)
proof (induction hist arbitrary: rd hist0)
  case (Cons a hist)
  obtain t m where a: "a = (t, m)" by force
  from rd_add_entries [OF assms(1) Cons.prems, of t m]
  obtain rd1 where "rd_add G rd t m = Some rd1" "rd_ttl rd1 = rd_ttl rd" "rd_entries G rd1 (hist0 @ [(t, m)])" by blast
  with Cons.IH [of rd1 "hist0 @ [(t, m)]"] a show ?case by auto
qed simp

lemma get_uint64_put_uint64 [simp]: "get_uint64 (put_uint64 w) = Some w"
  using get_put_uint64 [of w "[]"] by simp

text \<open>Every deadline that is stored has eight bytes, so that reading it never panics.\<close>

definition rd_ok :: "'c glcache \<Rightarrow> 'c recursionDetector \<Rightarrow> bool" where
  "rd_ok G rd \<longleftrightarrow> (\<forall>k d. gl_items G (recentRequests rd) k = Some d \<longrightarrow> length d = 8)"

lemma rd_ok_new: "glcache_law G \<Longrightarrow> rd_ok G (newRecursionDetector G ttl n)"
  by (simp add: rd_ok_def newRecursionDetector_def gl_items_New)

lemma rd_ok_add:
  assumes "glcache_law G" "rd_ok G rd" "rd_add G rd now msg = Some rd'"
  shows "rd_ok G rd'"
proof (cases "m_Question msg = []")
  case True
  with assms(2,3) show ?thesis by (simp add: rd_add_def)
next
  case False
  then obtain k where "msgToSignature msg = Some k" using msgToSignature_total by blast
  with False assms(3) have "rd' = rd\<lparr>recentRequests :=
      gl_Set G (recentRequests rd) k (put_uint64 (word_of_int (now + rd_ttl rd)))\<rparr>" by (simp add: rd_add_def)
  then show ?thesis using assms(2) gl_items_SetD [OF assms(1)] by (fastforce simp: rd_ok_def)
qed

lemma rd_check_total:
  assumes "glcache_law G" "rd_ok G rd"
  obtains found rd' where "rd_check G rd now msg = Some (found, rd')" "rd_ok G rd'"
proof (cases "m_Question msg = []")
  case True
  with assms(2) that [of False rd] show ?thesis by (simp add: rd_check_def)
next
  case False
  then obtain k where k: "msgToSignature msg = Some k" using msgToSignature_total by blast
  obtain d rr where g: "gl_Get G (recentRequests rd) k = (d, rr)" by fastforce
  note get = gl_GetD [OF assms(1) g]
  have ok: "rd_ok G (rd\<lparr>recentRequests := rr\<rparr>)" using assms(2) get(2) by (simp add: rd_ok_def)
  show ?thesis
  proof (cases d)
    case None
    with False k g ok that [of False] show ?thesis by (simp add: rd_check_def)
  next
    case (Some bs)
    then have "length bs = 8" using assms(2) get(1) by (simp add: rd_ok_def)
    then obtain e where "get_uint64 bs = Some e" using get_uint64_None_iff [of bs] by fastforce
    with Some False k g ok that [of "now < sint e"] show ?thesis by (simp add: rd_check_def)
  qed
qed

text \<open>
  C35: no false alarms.  After any history of additions to a new detector a check does not panic, and it
  reports a loop only for a request with the identifier, type and name of one added less than the
  detector's lifetime ago (names up to 253 bytes without NUL; times within the 64-bit range).
\<close>

theorem rd_check_sound:
  assumes "glcache_law G" "list_all (\<lambda>(t, m). short_name m \<and> 0 \<le> t + ttl \<and> t + ttl < 2 ^ 63) hist"
    and "short_name msg"
  shows "\<exists>rd found rd'. rd_adds G (newRecursionDetector G ttl n) hist = Some rd \<and>
    rd_check G rd now msg = Some (found, rd') \<and>
    (found \<longrightarrow> (\<exists>(t, m) \<in> set hist. same_request m msg \<and> now < t + ttl))"
proof -
  have "rd_entries G (newRecursionDetector G ttl n) []"
    using gl_items_New [OF assms(1)] by (simp add: rd_entries_def newRecursionDetector_def)
  from rd_adds_entries [OF assms(1) this, of hist]
  obtain rd where rd: "rd_adds G (newRecursionDetector G ttl n) hist = Some rd" "rd_ttl rd = ttl" "rd_entries G rd hist"
    by (auto simp: newRecursionDetector_def)
  show ?thesis
  proof (cases "m_Question msg = []")
    case True
    with rd(1) show ?thesis by (auto simp: rd_check_def)
  next
    case False
    then obtain k where k: "msgToSignature msg = Some k" using msgToSignature_total by blast
    obtain data rr where g: "gl_Get G (recentRequests rd) k = (data, rr)" by force
    note data = gl_GetD(1) [OF assms(1) g]
    show ?thesis
    proof (cases data)
      case None
      with rd(1) k g False show ?thesis by (auto simp: rd_check_def)
    next
      case (Some d)
      with data rd(2,3) obtain t m where m: "(t, m) \<in> set hist" "msgToSignature m = Some k"
        "d = put_uint64 (word_of_int (t + ttl))"
        by (fastforce simp: rd_entries_def)
      have "same_request m msg"
        using m(1,2) k assms(2,3) by (auto simp: list_all_iff intro!: msgToSignature_inject)
      moreover have "sint (word_of_int (t + ttl) :: uint64) = t + ttl"
        using m(1) assms(2) by (intro sint_word_of_int_64) (auto simp: list_all_iff)
      ultimately show ?thesis
        using rd(1) k g False Some m(1,3) by (auto simp: rd_check_def simp del: of_int_add)
    qed
  qed
qed

text \<open>
  No missed loops.  A request that was added and kept is reported for exactly the detector's
  lifetime.
\<close>

theorem rd_check_complete:
  assumes "glcache_law G" "rd_add G rd t m = Some rd'" "m_Question m \<noteq> []"
    and "\<And>k d. gl_items G (gl_Set G (recentRequests rd) k d) k = Some d"
    and "0 \<le> t + rd_ttl rd" "t + rd_ttl rd < 2 ^ 63"
  shows "\<exists>rd''. rd_check G rd' now m = Some (now < t + rd_ttl rd, rd'')"
proof -
  obtain k where k: "msgToSignature m = Some k" using msgToSignature_total assms(3) by blast
  have rd': "rd' = rd\<lparr>recentRequests := gl_Set G (recentRequests rd) k (put_uint64 (word_of_int (t + rd_ttl rd)))\<rparr>"
    using assms(2,3) k by (simp add: rd_add_def)
  obtain data rr where g: "gl_Get G (recentRequests rd') k = (data, rr)" by force
  then have "data = Some (put_uint64 (word_of_int (t + rd_ttl rd)))"
    using gl_GetD(1) [OF assms(1) g] assms(4) by (simp add: rd')
  moreover have "sint (word_of_int (t + rd_ttl rd) :: uint64) = t + rd_ttl rd"
    using assms(5,6) by (intro sint_word_of_int_64) auto
  ultimately show ?thesis using k g assms(3) by (simp add: rd_check_def del: of_int_add)
qed

subsection \<open>Witnesses\<close>

lemma sample_short_name: "short_name sample_req"
  by code_simp

theorem rd_check_sound_witness:
  "\<exists>rd found rd'. rd_adds map_glcache (newRecursionDetector map_glcache recursionTTL 1000) [(0, sample_req)] = Some rd \<and>
    rd_check map_glcache rd 5 sample_req = Some (found, rd') \<and>
    (found \<longrightarrow> (\<exists>(t, m) \<in> set [(0, sample_req)]. same_request m sample_req \<and> 5 < t + recursionTTL))"
proof -
  have "list_all (\<lambda>(t, m). short_name m \<and> 0 \<le> t + recursionTTL \<and> t + recursionTTL < 2 ^ 63) [(0, sample_req)]"
    by (simp add: sample_short_name recursionTTL_def)
  from rd_check_sound [OF map_glcache_law this sample_short_name] show ?thesis by blast
qed

theorem rd_check_complete_witness:
  "\<exists>rd' rd''. rd_add map_glcache (newRecursionDetector map_glcache recursionTTL 1000) 0 sample_req = Some rd' \<and>
    rd_check map_glcache rd' 5 sample_req = Some (True, rd'')"
proof -
  have q: "m_Question sample_req \<noteq> []" by (simp add: sample_req_def)
  then obtain rd' where rd': "rd_add map_glcache (newRecursionDetector map_glcache recursionTTL 1000) 0 sample_req = Some rd'"
    using msgToSignature_total [OF q] by (auto simp: rd_add_def)
  from rd_check_complete [OF map_glcache_law rd' q, of 5] show ?thesis
    using rd' by (simp add: newRecursionDetector_def recursionTTL_def map_glcache_def)
qed

end
