(* ===== verification/Upstream_Exchange.thy ===== *)
theory Upstream_Exchange
  imports Fastip Complex_Main
begin

text \<open>
  The exchange of a request with the selected upstreams
  (\<^verbatim>\<open>proxy/exchange.go\<close>, \<^verbatim>\<open>proxy/upstreammode.go\<close>) and the statistics of a query
  (\<^verbatim>\<open>proxy/stats.go\<close>).  Upstreams are references of a type \<^typ>\<open>'w\<close>.  The weighted sampler,
  the order in which concurrent exchanges report and the durations are
  arguments.  The floating-point sums of the code count microseconds and
  requests; they are integers here, and the weights are rationals.
\<close>

subsection \<open>Upstream modes\<close>

type_synonym UpstreamMode = string

definition UpstreamModeLoadBalance :: UpstreamMode where "UpstreamModeLoadBalance = ''load_balance''"
definition UpstreamModeParallel :: UpstreamMode where "UpstreamModeParallel = ''parallel''"
definition UpstreamModeFastestAddr :: UpstreamMode where "UpstreamModeFastestAddr = ''fastest_addr''"

definition mode_UnmarshalText :: "string \<Rightarrow> error + UpstreamMode" where
  "mode_UnmarshalText b =
     (if b \<in> {UpstreamModeLoadBalance, UpstreamModeParallel, UpstreamModeFastestAddr} then Inr b
      else Inl (ErrMsg ''invalid upstream mode''))"

definition mode_MarshalText :: "UpstreamMode \<Rightarrow> string" where
  "mode_MarshalText m = m"

subsection \<open>Round-trip times\<close>

record upstreamRTTStats =
  rttSum :: int
  reqNum :: int

type_synonym rtt_map = "string \<Rightarrow> upstreamRTTStats option"

definition zero_stats :: upstreamRTTStats where
  "zero_stats = \<lparr> rttSum = 0, reqNum = 0 \<rparr>"

text \<open>Durations are in nanoseconds; \<^verbatim>\<open>Duration.Microseconds\<close> truncates towards zero.\<close>

definition Microseconds :: "int \<Rightarrow> int" where
  "Microseconds d = (if d \<ge> 0 then d div 1000 else - ((- d) div 1000))"

definition stats_update :: "upstreamRTTStats \<Rightarrow> int \<Rightarrow> upstreamRTTStats" where
  "stats_update stats rtt = \<lparr> rttSum = rttSum stats + Microseconds rtt, reqNum = reqNum stats + 1 \<rparr>"

text \<open>Reading a missing key of a map gives the zero value.\<close>

definition rtt_get :: "rtt_map \<Rightarrow> string \<Rightarrow> upstreamRTTStats" where
  "rtt_get m a = (case m a of None \<Rightarrow> zero_stats | Some s \<Rightarrow> s)"

definition updateRTT :: "rtt_map \<Rightarrow> string \<Rightarrow> int \<Rightarrow> rtt_map" where
  "updateRTT m address rtt = m(address \<mapsto> stats_update (rtt_get m address) rtt)"

definition weight :: "upstreamRTTStats \<Rightarrow> rat" where
  "weight stat = (if rttSum stat = 0 \<or> reqNum stat = 0 then 1
                  else 1 / (of_int (rttSum stat) / of_int (reqNum stat)))"

definition calcWeights :: "('w \<Rightarrow> string) \<Rightarrow> rtt_map \<Rightarrow> 'w list \<Rightarrow> rat list" where
  "calcWeights addr m ups = map (\<lambda>u. weight (rtt_get m (addr u))) ups"

subsection \<open>Exchange\<close>

definition defaultTimeout :: int where
  "defaultTimeout = 10 * 1000000000"

record ('w, 'c) exch_env =
  ee_cache :: "'c glcache"
  ee_toAddr :: ip_to_addr
  ee_values :: "Addr list \<Rightarrow> Addr list"
  ee_ex :: "'w exchange_fun"
  ee_addr :: "'w \<Rightarrow> string"
  ee_elapsed :: "'w \<Rightarrow> Msg \<Rightarrow> int"
  ee_arrivals :: "Msg \<Rightarrow> 'w list"
  ee_take :: "rat list \<Rightarrow> nat list"
  ee_pings :: "AddrPort list \<Rightarrow> pingResult list"
  ee_now :: int

record 'c exch_state =
  es_rtt :: rtt_map
  es_fast :: "'c FastestAddr"

definition exchange :: "('w, 'c) exch_env \<Rightarrow> 'w \<Rightarrow> Msg \<Rightarrow> ((error + Msg option) \<times> int) go" where
  "exchange E u req = do {
     q \<leftarrow> go_index (m_Question req) 0;
     Some (ee_ex E u req, ee_elapsed E u req) }"

text \<open>The loop over the indexes that the sampler takes.\<close>

fun balance_loop :: "('w, 'c) exch_env \<Rightarrow> 'w list \<Rightarrow> Msg \<Rightarrow> nat list \<Rightarrow> error list \<Rightarrow> rtt_map \<Rightarrow>
    ((error + Msg option \<times> 'w) \<times> rtt_map) go" where
  "balance_loop E ups req [] errs m =
     Some (Inl (ErrWrap ''all upstreams failed to exchange request'' (ErrJoin errs)), m)"
| "balance_loop E ups req (i # is) errs m = do {
     u \<leftarrow> go_index ups i;
     (r, elapsed) \<leftarrow> exchange E u req;
     case r of
       Inr resp \<Rightarrow> Some (Inr (resp, u), updateRTT m (ee_addr E u) elapsed)
     | Inl err \<Rightarrow> balance_loop E ups req is (errs @ [err]) (updateRTT m (ee_addr E u) defaultTimeout) }"

definition exchange_balanced :: "('w, 'c) exch_env \<Rightarrow> Msg \<Rightarrow> 'w list \<Rightarrow> 'c exch_state \<Rightarrow>
    ((error + Msg option \<times> 'w) \<times> 'c exch_state) go" where
  "exchange_balanced E req ups s = (case ups of
      [u] \<Rightarrow> do {
        (r, _) \<leftarrow> exchange E u req;
        Some (case r of Inl err \<Rightarrow> Inl err | Inr resp \<Rightarrow> Inr (resp, u), s) }
    | _ \<Rightarrow> do {
        (r, m) \<leftarrow> balance_loop E ups req (ee_take E (calcWeights (ee_addr E) (es_rtt s) ups)) [] (es_rtt s);
        Some (r, s\<lparr>es_rtt := m\<rparr>) })"

definition exchangeUpstreams :: "('w, 'c) exch_env \<Rightarrow> UpstreamMode \<Rightarrow> Msg \<Rightarrow> 'w list \<Rightarrow> 'c exch_state \<Rightarrow>
    ((error + Msg option \<times> 'w) \<times> 'c exch_state) go" where
  "exchangeUpstreams E mode req ups s =
     (if mode = UpstreamModeParallel then Some (ExchangeParallel (ee_ex E) (ee_arrivals E req) ups req, s)
      else if mode = UpstreamModeFastestAddr then do {
        q \<leftarrow> go_index (m_Question req) 0;
        if q_Qtype q = TypeA \<or> q_Qtype q = TypeAAAA then do {
          (r, f) \<leftarrow> ExchangeFastest (ee_cache E) (ee_toAddr E) (ee_values E) (ee_ex E) (ee_arrivals E req)
                     (ee_pings E) (es_fast s) (ee_now E) req ups;
          Some (r, s\<lparr>es_fast := f\<rparr>) }
        else exchange_balanced E req ups s }
      else exchange_balanced E req ups s)"

subsection \<open>Statistics\<close>

record 'u upstreamWithStats =
  ws_upstream :: 'u
  ws_err :: "error option"
  ws_queryDuration :: int

record UpstreamStatistics =
  us_Error :: "error option"
  us_Address :: string
  us_QueryDuration :: int
  us_IsCached :: bool

record QueryStatistics =
  qs_main :: "UpstreamStatistics list"
  qs_fallback :: "UpstreamStatistics list"

definition ws_Exchange :: "'u exchange_fun \<Rightarrow> int \<Rightarrow> 'u upstreamWithStats \<Rightarrow> Msg \<Rightarrow>
    (error + Msg option) \<times> 'u upstreamWithStats" where
  "ws_Exchange ex dur w req =
     (let r = ex (ws_upstream w) req in
      (r, w\<lparr>ws_err := (case r of Inl e \<Rightarrow> Some e | Inr _ \<Rightarrow> None), ws_queryDuration := dur\<rparr>))"

definition upstreamsWithStats :: "'u list \<Rightarrow> 'u upstreamWithStats list" where
  "upstreamsWithStats ups = map (\<lambda>u. \<lparr> ws_upstream = u, ws_err = None, ws_queryDuration = 0 \<rparr>) ups"

definition cachedQueryStatistics :: "string \<Rightarrow> QueryStatistics" where
  "cachedQueryStatistics addr = \<lparr> qs_main = [\<lparr> us_Error = None, us_Address = addr, us_QueryDuration = 0,
     us_IsCached = True \<rparr>], qs_fallback = [] \<rparr>"

definition collectUpstreamStats :: "('u \<Rightarrow> string) \<Rightarrow> 'u upstreamWithStats list \<Rightarrow> UpstreamStatistics list" where
  "collectUpstreamStats addr ws = map (\<lambda>w. \<lparr> us_Error = ws_err w, us_Address = addr (ws_upstream w),
     us_QueryDuration = ws_queryDuration w, us_IsCached = False \<rparr>) ws"

definition collectQueryStats ::
  "('u \<Rightarrow> string) \<Rightarrow> UpstreamMode \<Rightarrow> 'u upstreamWithStats option \<Rightarrow> 'u upstreamWithStats list \<Rightarrow>
     'u upstreamWithStats list \<Rightarrow> 'u option \<times> QueryStatistics" where
  "collectQueryStats addr mode resolver ups fallbacks = (case resolver of
      None \<Rightarrow> (None, \<lparr> qs_main = collectUpstreamStats addr ups,
                      qs_fallback = collectUpstreamStats addr fallbacks \<rparr>)
    | Some wrapped \<Rightarrow> (Some (ws_upstream wrapped),
        if mode = UpstreamModeFastestAddr \<and> fallbacks = []
        then \<lparr> qs_main = collectUpstreamStats addr ups, qs_fallback = [] \<rparr>
        else if fallbacks \<noteq> []
        then \<lparr> qs_main = collectUpstreamStats addr ups, qs_fallback = collectUpstreamStats addr [wrapped] \<rparr>
        else \<lparr> qs_main = collectUpstreamStats addr [wrapped], qs_fallback = [] \<rparr>))"

subsection \<open>Load balancing\<close>

text \<open>
  The documented behaviour of the sampler on positive weights: every index is
  taken exactly once.
\<close>

definition sampler_law :: "(rat list \<Rightarrow> nat list) \<Rightarrow> bool" where
  "sampler_law take_all \<longleftrightarrow> (\<forall>ws. (\<forall>w \<in> set ws. w > 0) \<longrightarrow>
     distinct (take_all ws) \<and> set (take_all ws) = {0..<length ws})"

definition rtt_inv :: "rtt_map \<Rightarrow> bool" where
  "rtt_inv m \<longleftrightarrow> (\<forall>a. rttSum (rtt_get m a) \<ge> 0 \<and> reqNum (rtt_get m a) \<ge> 0)"

lemma rtt_get_updateRTT:
  "rtt_get (updateRTT m b d) a = (if a = b then stats_update (rtt_get m b) d else rtt_get m a)"
  by (simp add: rtt_get_def updateRTT_def)

lemma updateRTT_inv [inv_intros]: "rtt_inv m \<Longrightarrow> d \<ge> 0 \<Longrightarrow> rtt_inv (updateRTT m a d)"
  by (auto simp: rtt_inv_def rtt_get_updateRTT stats_update_def Microseconds_def)

lemma weight_pos: "rttSum s \<ge> 0 \<Longrightarrow> reqNum s \<ge> 0 \<Longrightarrow> weight s > 0"
  by (auto simp: weight_def)

lemma calcWeights_pos: "rtt_inv m \<Longrightarrow> \<forall>w \<in> set (calcWeights addr m ups). w > 0"
  by (auto simp: calcWeights_def rtt_inv_def intro: weight_pos)

text \<open>The exchanges that are made: upstreams with the round-trip time that is recorded.\<close>

definition fails :: "('w, 'c) exch_env \<Rightarrow> Msg \<Rightarrow> 'w \<Rightarrow> bool" where
  "fails E req u = (case ee_ex E u req of Inl _ \<Rightarrow> True | Inr _ \<Rightarrow> False)"

definition attempts :: "('w, 'c) exch_env \<Rightarrow> Msg \<Rightarrow> 'w list \<Rightarrow> ('w \<times> int) list" where
  "attempts E req order =
     map (\<lambda>u. (u, defaultTimeout)) (takeWhile (fails E req) order) @
     map (\<lambda>u. (u, ee_elapsed E u req)) (take 1 (dropWhile (fails E req) order))"

definition rtt_of :: "(string \<times> int) list \<Rightarrow> string \<Rightarrow> upstreamRTTStats \<Rightarrow> upstreamRTTStats" where
  "rtt_of tries a s = (let ds = map snd (filter (\<lambda>(b, _). b = a) tries) in
     \<lparr> rttSum = rttSum s + sum_list (map Microseconds ds), reqNum = reqNum s + int (length ds) \<rparr>)"

definition balance_result :: "('w, 'c) exch_env \<Rightarrow> Msg \<Rightarrow> 'w list \<Rightarrow> error list \<Rightarrow> error + Msg option \<times> 'w" where
  "balance_result E req order errs = (case dropWhile (fails E req) order of
      [] \<Rightarrow> Inl (ErrWrap ''all upstreams failed to exchange request''
              (ErrJoin (errs @ List.map_filter (\<lambda>u. case ee_ex E u req of Inl e \<Rightarrow> Some e | Inr _ \<Rightarrow> None) order)))
    | u # _ \<Rightarrow> Inr (case ee_ex E u req of Inr resp \<Rightarrow> resp | Inl _ \<Rightarrow> None, u))"

lemma rtt_of_Cons:
  "rtt_of ((b, d) # tries) a s = rtt_of tries a (if a = b then stats_update s d else s)"
  by (simp add: rtt_of_def stats_update_def Let_def)

lemma rtt_of_Nil [simp]: "rtt_of [] a s = s"
  by (simp add: rtt_of_def)

lemma balance_loop_eq:
  assumes "m_Question req \<noteq> []" "\<forall>i \<in> set is. i < length ups"
  shows "\<exists>m'. balance_loop E ups req is errs m = Some (balance_result E req (map ((!) ups) is) errs, m') \<and>
    (\<forall>a. rtt_get m' a =
       rtt_of (map (\<lambda>(u, d). (ee_addr E u, d)) (attempts E req (map ((!) ups) is))) a (rtt_get m a)) \<and>
    (rtt_inv m \<longrightarrow> (\<forall>u. ee_elapsed E u req \<ge> 0) \<longrightarrow> rtt_inv m')"
  using assms(2)
proof (induction "is" arbitrary: errs m)
  case Nil
  then show ?case by (simp add: balance_result_def attempts_def map_filter_def)
next
  case (Cons i is')
  have ex: "exchange E (ups ! i) req = Some (ee_ex E (ups ! i) req, ee_elapsed E (ups ! i) req)"
    using assms(1) by (simp add: exchange_def go_index_def)
  have i: "go_index ups i = Some (ups ! i)" using Cons.prems by (simp add: go_index_def)
  show ?case
  proof (cases "ee_ex E (ups ! i) req")
    case (Inr resp)
    then show ?thesis using ex i
      by (auto simp: balance_result_def attempts_def fails_def rtt_get_updateRTT rtt_of_Cons intro: inv_intros)
  next
    case (Inl err)
    from Cons.IH [of "errs @ [err]" "updateRTT m (ee_addr E (ups ! i)) defaultTimeout"] Cons.prems
    obtain m' where m': "balance_loop E ups req is' (errs @ [err]) (updateRTT m (ee_addr E (ups ! i)) defaultTimeout) =
        Some (balance_result E req (map ((!) ups) is') (errs @ [err]), m')"
      "\<forall>a. rtt_get m' a = rtt_of (map (\<lambda>(u, d). (ee_addr E u, d)) (attempts E req (map ((!) ups) is'))) a
           (rtt_get (updateRTT m (ee_addr E (ups ! i)) defaultTimeout) a)"
      "rtt_inv (updateRTT m (ee_addr E (ups ! i)) defaultTimeout) \<longrightarrow>
         (\<forall>u. ee_elapsed E u req \<ge> 0) \<longrightarrow> rtt_inv m'"
      by auto
    have f: "fails E req (ups ! i)" using Inl by (simp add: fails_def)
    have "balance_result E req (map ((!) ups) (i # is')) errs =
        balance_result E req (map ((!) ups) is') (errs @ [err])"
      using Inl f
      by (cases "dropWhile (fails E req) (map ((!) ups) is')")
        (simp_all add: balance_result_def map_filter_simps del: dropWhile_eq_Nil_conv)
    moreover have "attempts E req (map ((!) ups) (i # is')) =
        (ups ! i, defaultTimeout) # attempts E req (map ((!) ups) is')"
      using Inl by (simp add: attempts_def fails_def)
    ultimately show ?thesis using Inl ex i m'
      by (auto simp: rtt_get_updateRTT rtt_of_Cons defaultTimeout_def intro: inv_intros)
  qed
qed

lemma exchange_balanced_result:
  assumes "sampler_law (ee_take E)" "m_Question req \<noteq> []" "length ups \<noteq> 1"
    and "rtt_inv (es_rtt s)" "\<forall>u. ee_elapsed E u req \<ge> 0"
  shows "\<exists>order s'. mset order = mset ups \<and>
    exchange_balanced E req ups s = Some (balance_result E req order [], s') \<and>
    ((\<exists>e. balance_result E req order [] = Inl e) \<longleftrightarrow> (\<forall>u \<in> set ups. fails E req u)) \<and>
    (\<forall>a. rtt_get (es_rtt s') a =
       rtt_of (map (\<lambda>(u, d). (ee_addr E u, d)) (attempts E req order)) a (rtt_get (es_rtt s) a)) \<and>
    rtt_inv (es_rtt s') \<and> es_fast s' = es_fast s"
proof -
  define ids where "ids = ee_take E (calcWeights (ee_addr E) (es_rtt s) ups)"
  define order where "order = map ((!) ups) ids"
  have ids: "distinct ids" "set ids = {0..<length ups}"
    using assms(1) calcWeights_pos [OF assms(4), of "ee_addr E" ups]
    by (auto simp: sampler_law_def ids_def calcWeights_def)
  have "mset ids = mset [0..<length ups]"
    using ids by (metis set_eq_iff_mset_eq_distinct distinct_upt set_upt)
  then have "mset order = mset (map ((!) ups) [0..<length ups])" by (simp add: order_def)
  then have ord: "mset order = mset ups" by (simp add: map_nth)
  from balance_loop_eq [OF assms(2), of ids ups E "[]" "es_rtt s"] ids(2) assms(4,5)
  obtain m' where m': "balance_loop E ups req ids [] (es_rtt s) = Some (balance_result E req order [], m')"
    "\<forall>a. rtt_get m' a = rtt_of (map (\<lambda>(u, d). (ee_addr E u, d)) (attempts E req order)) a (rtt_get (es_rtt s) a)"
    "rtt_inv m'"
    by (auto simp: order_def)
  have "exchange_balanced E req ups s = Some (balance_result E req order [], s\<lparr>es_rtt := m'\<rparr>)"
    using assms(3) m'(1) by (auto simp: exchange_balanced_def ids_def split: list.splits)
  moreover have "(\<exists>e. balance_result E req order [] = Inl e) \<longleftrightarrow> (\<forall>u \<in> set ups. fails E req u)"
    using mset_eq_setD [OF ord] dropWhile_eq_Nil_conv [of "fails E req" order]
    by (cases "dropWhile (fails E req) order") (simp_all add: balance_result_def del: dropWhile_eq_Nil_conv)
  ultimately show ?thesis using ord m'(2,3)
    by (intro exI [of _ order] exI [of _ "s\<lparr>es_rtt := m'\<rparr>"]) simp
qed


subsection \<open>The contract of an exchange\<close>

text \<open>
  What resolving relies on when it sends a request to upstreams: the call returns, keeps the
  state consistent, names one of the upstreams, and a response answers the request.
\<close>

locale message_exchanger =
  fixes inv :: "'s \<Rightarrow> bool" and known :: "'w \<Rightarrow> bool"
    and exch :: "Msg \<Rightarrow> 's \<Rightarrow> ((error + Msg option \<times> 'w) \<times> 's) go"
  assumes exch_total: "inv s \<Longrightarrow> m_Question req \<noteq> [] \<Longrightarrow> \<exists>r s'. exch req s = Some (r, s') \<and> inv s' \<and>
    (case r of Inl _ \<Rightarrow> True | Inr (resp, u) \<Rightarrow> known u \<and> (case resp of None \<Rightarrow> True | Some m \<Rightarrow> answers req m))"
begin

lemma exch_cases [consumes 2, case_names err none resp]:
  assumes "inv s" "m_Question req \<noteq> []"
  obtains (err) e s' where "exch req s = Some (Inl e, s')" "inv s'"
    | (none) u s' where "exch req s = Some (Inr (None, u), s')" "inv s'" "known u"
    | (resp) m u s' where "exch req s = Some (Inr (Some m, u), s')" "inv s'" "known u" "answers req m"
proof -
  from exch_total [OF assms] obtain r s' where "exch req s = Some (r, s')" "inv s'"
    "case r of Inl _ \<Rightarrow> True | Inr (resp, u) \<Rightarrow> known u \<and> (case resp of None \<Rightarrow> True | Some m \<Rightarrow> answers req m)"
    by blast
  then show ?thesis by (auto split: sum.splits prod.splits option.splits intro: that)
qed

end

text \<open>The documented behaviour of everything an exchange calls.\<close>

definition exch_env_ok :: "('w, 'c) exch_env \<Rightarrow> 'w list \<Rightarrow> bool" where
  "exch_env_ok E ups \<longleftrightarrow> ip_to_addr_law (ee_toAddr E) \<and> (\<forall>as. set (ee_values E as) = set as) \<and>
     (\<forall>started. \<forall>r \<in> set (ee_pings E started). pr_addrPort r \<in> set started) \<and>
     (\<forall>req. mset (ee_arrivals E req) = mset ups) \<and> sampler_law (ee_take E) \<and>
     (\<forall>u req. ee_elapsed E u req \<ge> 0) \<and> (\<forall>u req m. ee_ex E u req = Inr (Some m) \<longrightarrow> answers req m)"

definition good_result :: "Msg \<Rightarrow> 'w list \<Rightarrow> error + Msg option \<times> 'w \<Rightarrow> bool" where
  "good_result req ups r = (case r of Inl _ \<Rightarrow> True
     | Inr (resp, u) \<Rightarrow> u \<in> set ups \<and> (case resp of None \<Rightarrow> True | Some m \<Rightarrow> answers req m))"

lemma answers_filterResponseAnswer [simp]: "answers req (filterResponseAnswer m ip) = answers req m"
  by (simp add: answers_def filterResponseAnswer_def)

lemma exchangeSingle_good:
  assumes "\<forall>u req m. ex u req = Inr (Some m) \<longrightarrow> answers req m" "u \<in> set ups"
  shows "good_result req ups (exchangeSingle ex u req)"
  using assms by (auto simp: good_result_def exchangeSingle_def split: sum.splits option.splits)

lemma ExchangeParallel_good:
  assumes "\<forall>u req m. ex u req = Inr (Some m) \<longrightarrow> answers req m" "mset arrivals = mset ups"
  shows "good_result req ups (ExchangeParallel ex arrivals ups req)"
proof -
  consider (none) "ups = []" | (one) u where "ups = [u]" | (two) "length ups \<ge> 2"
    by (cases ups; cases "tl ups") auto
  then show ?thesis
  proof cases
    case two
    show ?thesis
    proof (cases "ExchangeParallel ex arrivals ups req")
      case (Inr r)
      obtain resp u where "r = (resp, u)" by (cases r)
      with ExchangeParallel_cases(2) [OF assms(2) two, of ex req resp u] Inr assms set_arrivals [OF assms(2)]
      show ?thesis by (auto simp: good_result_def find_Some_iff)
    qed (simp add: good_result_def)
  next
    case one
    then show ?thesis using exchangeSingle_good [OF assms(1), of u ups req] by (simp add: ExchangeParallel_def)
  qed (simp add: ExchangeParallel_def good_result_def)
qed

lemma exchange_balanced_good:
  assumes "exch_env_ok E ups" "m_Question req \<noteq> []" "rtt_inv (es_rtt s)"
  shows "\<exists>r s'. exchange_balanced E req ups s = Some (r, s') \<and> rtt_inv (es_rtt s') \<and> good_result req ups r"
proof (cases "length ups = 1")
  case True
  then obtain u where "ups = [u]" by (auto simp: length_1_conv)
  with assms show ?thesis
    by (auto simp: exchange_balanced_def exchange_def go_index_def good_result_def exch_env_ok_def
        split: sum.splits option.splits)
next
  case False
  from exchange_balanced_result [of E req ups s] assms False
  obtain order s' where o: "mset order = mset ups"
    "exchange_balanced E req ups s = Some (balance_result E req order [], s')" "rtt_inv (es_rtt s')"
    by (auto simp: exch_env_ok_def)
  have "good_result req ups (balance_result E req order [])"
  proof (cases "dropWhile (fails E req) order")
    case (Cons u us)
    then have "u \<in> set order" by (metis list.set_intros(1) set_dropWhileD)
    with Cons o(1) assms(1) set_arrivals [OF o(1)] hd_dropWhile [of "fails E req" order]
    show ?thesis
      by (auto simp: balance_result_def good_result_def exch_env_ok_def fails_def split: sum.splits option.splits)
  qed (simp add: balance_result_def good_result_def del: dropWhile_eq_Nil_conv)
  with o show ?thesis by blast
qed

interpretation upstreams_exchanger: message_exchanger
  "\<lambda>s. exch_env_ok E ups \<and> rtt_inv (es_rtt s)" "\<lambda>u. u \<in> set ups"
  "\<lambda>req s. exchangeUpstreams E mode req ups s" for E :: "('w, 'c) exch_env" and ups mode
proof (unfold_locales, goal_cases)
  case (1 s req)
  then have ok: "exch_env_ok E ups" "rtt_inv (es_rtt s)" by auto
  obtain q where q: "go_index (m_Question req) 0 = Some q" using 1(2) by (auto simp: go_index_def)
  have par: "good_result req ups (ExchangeParallel (ee_ex E) (ee_arrivals E req) ups req)"
    using ok by (intro ExchangeParallel_good) (auto simp: exch_env_ok_def)
  obtain fr f' where fast: "ExchangeFastest (ee_cache E) (ee_toAddr E) (ee_values E) (ee_ex E)
      (ee_arrivals E req) (ee_pings E) (es_fast s) (ee_now E) req ups = Some (fr, f')" "good_result req ups fr"
    using ExchangeFastest_result [of "ee_toAddr E" "ee_arrivals E req" ups req "ee_values E" "ee_pings E"
        "ee_cache E" "ee_ex E" "es_fast s" "ee_now E"] ok 1(2)
    by (fastforce simp: exch_env_ok_def good_result_def split: sum.splits)
  obtain br s' where bal: "exchange_balanced E req ups s = Some (br, s')" "rtt_inv (es_rtt s')" "good_result req ups br"
    using exchange_balanced_good [OF ok(1) 1(2) ok(2)] by blast
  have "\<exists>r s'. exchangeUpstreams E mode req ups s = Some (r, s') \<and> rtt_inv (es_rtt s') \<and> good_result req ups r"
    using par fast bal q ok(2) by (auto simp: exchangeUpstreams_def)
  then show ?case using ok(1) by (auto simp: good_result_def)
qed

definition sample_exch :: "(nat, bytes \<Rightarrow> bytes option) exch_env" where
  "sample_exch = \<lparr> ee_cache = map_glcache, ee_toAddr = sample_to_addr, ee_values = remdups, ee_ex = sample_ex,
     ee_addr = (\<lambda>u. if u = 0 then ''a'' else ''b''), ee_elapsed = (\<lambda>_ _. 5000), ee_arrivals = (\<lambda>_. [0, 2]),
     ee_take = (\<lambda>ws. [0..<length ws]), ee_pings = (\<lambda>_. []), ee_now = 0 \<rparr>"


end
