(* ===== verification/Dns_Context.thy ===== *)
theory Dns_Context
  imports Response_Cache Dns64 Recursion_Detector Upstream_Exchange
begin

text \<open>
  The context of a request (\<^verbatim>\<open>proxy/dnscontext.go\<close>), the client subnet option
  (\<^verbatim>\<open>proxy/helpers.go\<close>) and the steps of request processing that only look at the context
  and the configuration.  The context always holds a request: the nil checks of the code for it are
  not repeated.  Connections, streams and writers are left out; a cache that belongs to a custom
  configuration is named by a number.
\<close>

subsection \<open>The context\<close>

datatype Proto = ProtoUDP | ProtoTCP | ProtoTLS | ProtoHTTPS | ProtoQUIC | ProtoDNSCrypt | ProtoOther string

record 'u CustomUpstreamConfig =
  cu_upstream :: "'u UpstreamConfig option"
  cu_cache :: "nat option"

record 'u DNSContext =
  Upstream :: "'u option"
  ReqECS :: "IPNet option"
  Custom :: "'u CustomUpstreamConfig option"
  queryStatistics :: "QueryStatistics option"
  Req :: Msg
  Res :: "Msg option"
  CtxProto :: Proto
  RequestedPrivateRDNS :: "Prefix option"
  ClientAddr :: AddrPort
  RequestID :: uint64
  udpSize :: uint16
  IsPrivateClient :: bool
  adBit :: bool
  hasEDNS0 :: bool
  doBit :: bool

text \<open>The zero prefix is \<^term>\<open>None\<close>.  The counter of the requests is part of the proxy.\<close>

definition newDNSContext :: "uint64 \<Rightarrow> Proto \<Rightarrow> Msg \<Rightarrow> AddrPort \<Rightarrow> 'u DNSContext \<times> uint64" where
  "newDNSContext counter proto req addr =
     (\<lparr> Upstream = None, ReqECS = None, Custom = None, queryStatistics = None, Req = req, Res = None,
        CtxProto = proto, RequestedPrivateRDNS = None, ClientAddr = addr, RequestID = counter + 1,
        udpSize = 0, IsPrivateClient = False, adBit = False, hasEDNS0 = False, doBit = False \<rparr>, counter + 1)"

definition defaultUDPBufSize :: uint16 where "defaultUDPBufSize = 2048"

definition calcFlagsAndSize :: "dnslib \<Rightarrow> 'u DNSContext \<Rightarrow> 'u DNSContext" where
  "calcFlagsAndSize L d =
     (if udpSize d \<noteq> 0 then d
      else let d = d\<lparr>adBit := m_AuthenticatedData (Req d), udpSize := defaultUDPBufSize\<rparr> in
        (case lib_IsEdns0 L (Req d) of
           None \<Rightarrow> d
         | Some i \<Rightarrow> let o' = m_Extra (Req d) ! i in
             d\<lparr>hasEDNS0 := True, doBit := lib_Do L o', udpSize := lib_UDPSize L o'\<rparr>))"

definition MaxMsgSize :: uint16 where "MaxMsgSize = 65535"
definition MinMsgSize :: uint16 where "MinMsgSize = 512"

definition dnsSize :: "dnslib \<Rightarrow> bool \<Rightarrow> Msg \<Rightarrow> uint16" where
  "dnsSize L isUDP r =
     (if \<not> isUDP then MaxMsgSize
      else max MinMsgSize (case lib_IsEdns0 L r of None \<Rightarrow> 0 | Some i \<Rightarrow> lib_UDPSize L (m_Extra r ! i)))"

definition scrub :: "dnslib \<Rightarrow> 'u DNSContext \<Rightarrow> 'u DNSContext" where
  "scrub L d = (case Res d of
      None \<Rightarrow> d
    | Some res \<Rightarrow>
        let d = calcFlagsAndSize L d;
            res = (if hasEDNS0 d \<and> lib_IsEdns0 L res = None then lib_SetEdns0 L (udpSize d) (doBit d) res else res);
            res = lib_Truncate L (unat (dnsSize L (CtxProto d = ProtoUDP) (Req d))) res
        in d\<lparr>Res := Some (res\<lparr>m_Compress := True\<rparr>)\<rparr>)"

text \<open>
  \<^verbatim>\<open>Truncate\<close> "ensures the reply message will fit into the requested buffer size by removing
  records that exceed the requested size": header and question stay, sections only lose
  records, the OPT record stays.
\<close>

definition has_opt :: "Msg \<Rightarrow> bool" where
  "has_opt m \<longleftrightarrow> (\<exists>r \<in> set (m_Extra m). rr_Rrtype r = TypeOPT)"

definition lib_Truncate_law :: "dnslib \<Rightarrow> bool" where
  "lib_Truncate_law L \<longleftrightarrow> (\<forall>n m. let t = lib_Truncate L n m in
     m_Id t = m_Id m \<and> m_Response t = m_Response m \<and> m_Rcode t = m_Rcode m \<and> m_Question t = m_Question m \<and>
     m_AuthenticatedData t = m_AuthenticatedData m \<and>
     set (m_Answer t) \<subseteq> set (m_Answer m) \<and> set (m_Ns t) \<subseteq> set (m_Ns m) \<and>
     set (m_Extra t) \<subseteq> set (m_Extra m) \<and> has_opt t = has_opt m)"

subsection \<open>The client subnet option\<close>

fun first_subnet :: "EDNS0 list \<Rightarrow> IPNet option \<times> int" where
  "first_subnet [] = (None, 0)"
| "first_subnet (e # es) = (case e of
      OtherOption _ _ \<Rightarrow> first_subnet es
    | Subnet sn \<Rightarrow>
        if sn_Family sn = 1 then
          (Some \<lparr> net_IP = To4 (sn_Address sn), net_Mask = CIDRMask (uint (sn_SourceNetmask sn)) 32 \<rparr>,
           uint (sn_SourceScope sn))
        else if sn_Family sn = 2 then
          (Some \<lparr> net_IP = sn_Address sn, net_Mask = CIDRMask (uint (sn_SourceNetmask sn)) 128 \<rparr>,
           uint (sn_SourceScope sn))
        else first_subnet es)"

definition ecsFromMsg :: "dnslib \<Rightarrow> Msg \<Rightarrow> IPNet option \<times> int" where
  "ecsFromMsg L m = (case lib_IsEdns0 L m of
      None \<Rightarrow> (None, 0)
    | Some i \<Rightarrow> first_subnet (rd_options (m_Extra m ! i)))"

definition defaultECSv4 :: int where "defaultECSv4 = 24"
definition defaultECSv6 :: int where "defaultECSv6 = 56"

definition setECS :: "dnslib \<Rightarrow> Msg \<Rightarrow> ip \<Rightarrow> uint8 \<Rightarrow> IPNet \<times> Msg" where
  "setECS L m ip scope =
     (let ip4 = To4 ip;
          (fam, ones, msk, ip) =
            (if ip4 \<noteq> None then (1, defaultECSv4, CIDRMask defaultECSv4 32, ip4)
             else (2, defaultECSv6, CIDRMask defaultECSv6 128, ip));
          subnet = \<lparr> net_IP = ip_Mask ip msk, net_Mask = msk \<rparr>;
          e = Subnet \<lparr> sn_Family = fam, sn_SourceNetmask = word_of_int ones, sn_SourceScope = scope,
                       sn_Address = net_IP subnet \<rparr>
      in (subnet,
          case lib_IsEdns0 L m of
            Some i \<Rightarrow> let o' = m_Extra m ! i in
              m\<lparr>m_Extra := (m_Extra m)[i := o'\<lparr>rr_Data := RD_OPT (rd_options o' @ [e])\<rparr>]\<rparr>
          | None \<Rightarrow> m\<lparr>m_Extra := m_Extra m @ [lib_SetUDPSize L 4096
              \<lparr> rr_Hdr = \<lparr> h_Name = ''.'', h_Rrtype = TypeOPT, h_Class = 0, h_Ttl = 0 \<rparr>, rr_Data = RD_OPT [e] \<rparr>]\<rparr>))"

text \<open>A nil \<^verbatim>\<open>cliIP\<close> is \<^term>\<open>None\<close>; \<^verbatim>\<open>special\<close> is \<^verbatim>\<open>netutil.IsSpecialPurpose\<close>.\<close>

definition processECS :: "dnslib \<Rightarrow> (Addr \<Rightarrow> bool) \<Rightarrow> ip \<Rightarrow> 'u DNSContext \<Rightarrow> 'u DNSContext" where
  "processECS L special cliIP d =
     (let ecs = fst (ecsFromMsg L (Req d)) in
      if (case ecs of None \<Rightarrow> False | Some n \<Rightarrow> fst (mask_Size (net_Mask n)) \<noteq> 0) then d\<lparr>ReqECS := ecs\<rparr>
      else
        let (cliAddr, cliIP) =
              (case cliIP of
                 None \<Rightarrow> (ap_Addr (ClientAddr d), Some (AsSlice (ap_Addr (ClientAddr d))))
               | Some b \<Rightarrow> (AddrFromSlice b, Some b))
        in if special cliAddr then d
           else let (n, req) = setECS L (Req d) cliIP 0 in d\<lparr>ReqECS := Some n, Req := req\<rparr>)"

subsection \<open>Checks of a request\<close>

definition addDO :: "dnslib \<Rightarrow> bool \<Rightarrow> Msg \<Rightarrow> Msg" where
  "addDO L dnsSecEnabled msg =
     (if \<not> dnsSecEnabled then msg
      else (case lib_IsEdns0 L msg of
          Some i \<Rightarrow> let o' = m_Extra msg ! i in
            if \<not> lib_Do L o' then msg\<lparr>m_Extra := (m_Extra msg)[i := lib_SetDo L o']\<rparr> else msg
        | None \<Rightarrow> lib_SetEdns0 L defaultUDPBufSize True msg))"

definition cacheWorks :: "bool \<Rightarrow> 'u DNSContext \<Rightarrow> bool" where
  "cacheWorks hasCache d =
     (if (case Custom d of Some c \<Rightarrow> cu_cache c = None | None \<Rightarrow> False) then False
      else if \<not> hasCache \<and> (case Custom d of None \<Rightarrow> True | Some c \<Rightarrow> cu_cache c = None) then False
      else if RequestedPrivateRDNS d \<noteq> None then False
      else if m_CheckingDisabled (Req d) then False
      else True)"

text \<open>The conversions of reversed names and the set of the private networks are arguments.\<close>

definition isForbiddenARPA ::
  "(string \<Rightarrow> error + Prefix) \<Rightarrow> (Addr \<Rightarrow> bool) \<Rightarrow> 'u DNSContext \<Rightarrow> (bool \<times> 'u DNSContext) go" where
  "isForbiddenARPA extract private d = do {
     q \<leftarrow> go_index (m_Question (Req d)) 0;
     if q_Qtype q \<notin> {TypePTR, TypeSOA, TypeNS} then Some (False, d)
     else (case extract (q_Name q) of
         Inl _ \<Rightarrow> Some (False, d)
       | Inr requestedPref \<Rightarrow>
           if private (pfx_Addr requestedPref)
           then Some (\<not> IsPrivateClient d, d\<lparr>RequestedPrivateRDNS := Some requestedPref\<rparr>)
           else Some (False, d)) }"

definition isBogusNXDomain :: "(Prefix list \<Rightarrow> Addr \<Rightarrow> bool) \<Rightarrow> Prefix list \<Rightarrow> Msg option \<Rightarrow> bool" where
  "isBogusNXDomain contains bogus mo = (case mo of
      None \<Rightarrow> False
    | Some m \<Rightarrow>
        if bogus = [] then False
        else (case m_Question m of
            [] \<Rightarrow> False
          | q # _ \<Rightarrow> if q_Qtype q \<noteq> TypeA \<and> q_Qtype q \<noteq> TypeAAAA then False
                     else list_ex (\<lambda>rr. contains bogus (IPFromRR rr)) (m_Answer m)))"

definition setMinMaxTTL :: "uint32 \<Rightarrow> uint32 \<Rightarrow> Msg \<Rightarrow> Msg" where
  "setMinMaxTTL lo hi r =
     (let f = map (\<lambda>rr. set_rr_Ttl (respectTTLOverrides (rr_Ttl rr) lo hi) rr) in
      r\<lparr>m_Answer := f (m_Answer r), m_Extra := f (m_Extra r), m_Ns := f (m_Ns r)\<rparr>)"

definition handleExchangeResult ::
  "dnslib \<Rightarrow> uint32 \<Rightarrow> uint32 \<Rightarrow> 'u DNSContext \<Rightarrow> Msg \<Rightarrow> Msg option \<Rightarrow> 'u option \<Rightarrow> 'u DNSContext" where
  "handleExchangeResult L lo hi d req resp u = (case resp of
      None \<Rightarrow> d\<lparr>Res := Some (NewMsgSERVFAIL L req), hasEDNS0 := False\<rparr>
    | Some r \<Rightarrow>
        if length (m_Question r) \<noteq> 1 then d\<lparr>Res := Some (NewMsgSERVFAIL L req), hasEDNS0 := False\<rparr>
        else d\<lparr>Upstream := u, Res := Some (setMinMaxTTL lo hi (r\<lparr>m_Authoritative := False\<rparr>))\<rparr>)"

end
