(* ===== verification/Proxy_Resolve.thy ===== *)
theory Proxy_Resolve
  imports Dns_Context
begin

text \<open>
  The resolving core of the proxy (\<^verbatim>\<open>proxy/proxy.go\<close>, \<^verbatim>\<open>proxy/proxycache.go\<close>,
  \<^verbatim>\<open>proxy/optimisticresolver.go\<close>): selection of upstreams, exchange with
  fallbacks, caching and completion of the response.  The proxy is a record
  of its configuration and its mutable parts; the world around it (the
  message library, the upstreams, the clock, address sets) is another record.
\<close>

subsection \<open>The proxy and its environment\<close>

record ('u, 'c) Proxy =
  px_enableEDNSClientSubnet :: bool
  px_ednsAddr :: ip
  px_dnsSecEnabled :: bool
  px_refuseAny :: bool
  px_usePrivateRDNS :: bool
  px_upstreamConf :: "'u UpstreamConfig option"
  px_private :: "'u UpstreamConfig option"
  px_fallbacks :: "'u UpstreamConfig option"
  px_mode :: UpstreamMode
  px_dns64Prefs :: "Prefix list"
  px_bogusNXDomain :: "Prefix list"
  px_cacheMinTTL :: uint32
  px_cacheMaxTTL :: uint32
  px_cache :: "'c cache option"
  px_custom :: "nat \<Rightarrow> 'c cache option"
  px_recDetector :: "'c recursionDetector"
  px_exch :: "'c exch_state"

text \<open>
  \<^verbatim>\<open>arrivals\<close> is the order in which concurrent exchanges report, as indexes into the list of
  upstreams; \<^verbatim>\<open>observe\<close> is the content of the statistics wrappers, which those exchanges
  write, at the time it is read.
\<close>

record ('u, 'c) proxy_env =
  pe_lib :: dnslib
  pe_gl :: "'c glcache"
  pe_dns64 :: dns64_env
  pe_values :: "Addr list \<Rightarrow> Addr list"
  pe_ex :: "'u exchange_fun"
  pe_addr :: "'u \<Rightarrow> string"
  pe_elapsed :: "'u \<Rightarrow> Msg \<Rightarrow> int"
  pe_arrivals :: "'u list \<Rightarrow> Msg \<Rightarrow> nat list"
  pe_take :: "rat list \<Rightarrow> nat list"
  pe_pings :: "AddrPort list \<Rightarrow> pingResult list"
  pe_observe :: "'u upstreamWithStats list \<Rightarrow> 'u upstreamWithStats list"
  pe_now :: int
  pe_newId :: uint16
  pe_privateNets :: "Addr \<Rightarrow> bool"
  pe_special :: "Addr \<Rightarrow> bool"
  pe_extract :: "string \<Rightarrow> error + Prefix"

text \<open>The exchange with a list of wrapped upstreams, which are referred to by their positions.\<close>

definition wrapped_env :: "('u, 'c) proxy_env \<Rightarrow> 'u list \<Rightarrow> (nat, 'c) exch_env" where
  "wrapped_env E ups = \<lparr> ee_cache = pe_gl E, ee_toAddr = IPToAddr (pe_dns64 E), ee_values = pe_values E,
     ee_ex = (\<lambda>i. pe_ex E (ups ! i)), ee_addr = (\<lambda>i. pe_addr E (ups ! i)),
     ee_elapsed = (\<lambda>i. pe_elapsed E (ups ! i)), ee_arrivals = pe_arrivals E ups, ee_take = pe_take E,
     ee_pings = pe_pings E, ee_now = unix (pe_now E) \<rparr>"

subsection \<open>Upstreams\<close>

definition getUpstreams :: "uint16 \<Rightarrow> 'u UpstreamConfig \<Rightarrow> string \<Rightarrow> 'u list go" where
  "getUpstreams qtype = (if qtype = TypeDS then getUpstreamsForDS else getUpstreamsForDomain)"

definition selectUpstreams :: "('u, 'c) proxy_env \<Rightarrow> ('u, 'c) Proxy \<Rightarrow> 'u DNSContext \<Rightarrow> ('u list \<times> bool) go" where
  "selectUpstreams E p d = do {
     q \<leftarrow> go_index (m_Question (Req d)) 0;
     strip \<leftarrow> (if RequestedPrivateRDNS d \<noteq> None then Some True
              else shouldStripDNS64 (pe_dns64 E) (px_dns64Prefs p) (Req d));
     if strip then
       (case px_private p of
          Some private \<Rightarrow>
            if px_usePrivateRDNS p \<and> IsPrivateClient d then do {
              ups \<leftarrow> getUpstreamsForDomain private (q_Name q);
              Some (ups, True) }
            else Some ([], True)
        | None \<Rightarrow> Some ([], True))
     else do {
       custom \<leftarrow> (case Custom d of
           None \<Rightarrow> Some []
         | Some c \<Rightarrow> do { uc \<leftarrow> cu_upstream c; getUpstreams (q_Qtype q) uc (q_Name q) });
       if custom \<noteq> [] then Some (custom, False)
       else do {
         uc \<leftarrow> px_upstreamConf p;
         ups \<leftarrow> getUpstreams (q_Qtype q) uc (q_Name q);
         Some (ups, False) } } }"

text \<open>The position of the wrapper that resolved the request: among the main upstreams or the fallbacks.\<close>

datatype resolver = NoResolver | MainResolver nat | FallbackResolver nat

definition observed :: "('u, 'c) proxy_env \<Rightarrow> 'u list \<Rightarrow> 'u list \<Rightarrow> resolver \<Rightarrow> 'u upstreamWithStats option" where
  "observed E ups fbs r = (case r of
      NoResolver \<Rightarrow> None
    | MainResolver i \<Rightarrow> Some (pe_observe E (upstreamsWithStats ups) ! i)
    | FallbackResolver i \<Rightarrow> Some (pe_observe E (upstreamsWithStats fbs) ! i))"

text \<open>
  The main exchange with DNS64 and the check for bogus addresses: the response, the wrapper, the
  error and the new state of the exchanges.
\<close>

definition exchange_main ::
  "('u, 'c) proxy_env \<Rightarrow> ('u, 'c) Proxy \<Rightarrow> Msg \<Rightarrow> 'u list \<Rightarrow>
     (Msg option \<times> resolver \<times> error option \<times> 'c exch_state) go" where
  "exchange_main E p req ups = do {
     let exch = (\<lambda>r s. exchangeUpstreams (wrapped_env E ups) (px_mode p) r [0..<length ups] s);
     (r, s) \<leftarrow> exch req (px_exch p);
     let (resp, u, err) =
       (case r of Inl e \<Rightarrow> (None, NoResolver, Some e) | Inr (m, i) \<Rightarrow> (m, MainResolver i, None));
     (dns64Ups, resp, s) \<leftarrow>
       performDNS64 (pe_dns64 E) (px_dns64Prefs p) (pe_newId E) exch req resp s;
     case dns64Ups of
       Some i \<Rightarrow> Some (resp, MainResolver i, err, s)
     | None \<Rightarrow>
         Some (if isBogusNXDomain (set_Contains (pe_dns64 E)) (px_bogusNXDomain p) resp
               then Some (NewMsgNXDOMAIN (pe_lib E) req) else resp, u, err, s) }"

definition replyFromUpstream ::
  "('u, 'c) proxy_env \<Rightarrow> ('u, 'c) Proxy \<Rightarrow> 'u DNSContext \<Rightarrow>
     (bool \<times> error option \<times> 'u DNSContext \<times> ('u, 'c) Proxy) go" where
  "replyFromUpstream E p d = do {
     (ups, isPrivate) \<leftarrow> selectUpstreams E p d;
     let req = Req d in
     if ups = [] then
       Some (False, Some (ErrWrap ''selecting upstream'' ErrNoUpstreams),
             d\<lparr>Res := Some (NewMsgNXDOMAIN (pe_lib E) req)\<rparr>, p)
     else do {
       p \<leftarrow> (if isPrivate then do {
               rd \<leftarrow> rd_add (pe_gl E) (px_recDetector p) (pe_now E) req;
               Some (p\<lparr>px_recDetector := rd\<rparr>) }
             else Some p);
       (resp, u, err, s) \<leftarrow> exchange_main E p req ups;
       (resp, u, err, fbs) \<leftarrow>
         (case px_fallbacks p of
            Some fb \<Rightarrow>
              if err \<noteq> None \<and> \<not> isPrivate then do {
                q \<leftarrow> go_index (m_Question req) 0;
                fbs \<leftarrow> getUpstreamsForDomain fb (q_Name q);
                Some (case ExchangeParallel (\<lambda>i. pe_ex E (fbs ! i)) (pe_arrivals E fbs req) [0..<length fbs] req of
                    Inl e \<Rightarrow> (None, NoResolver, Some e, fbs)
                  | Inr (m, i) \<Rightarrow> (m, FallbackResolver i, None, fbs)) }
              else Some (resp, u, err, [])
          | None \<Rightarrow> Some (resp, u, err, []));
       let (unwrapped, stats) = collectQueryStats (pe_addr E) (px_mode p) (observed E ups fbs u)
             (pe_observe E (upstreamsWithStats ups)) (pe_observe E (upstreamsWithStats fbs));
           d = handleExchangeResult (pe_lib E) (px_cacheMinTTL p) (px_cacheMaxTTL p)
                 (d\<lparr>queryStatistics := Some stats\<rparr>) req resp unwrapped
       in Some (resp \<noteq> None, err, d, p\<lparr>px_exch := s\<rparr>) } }"

subsection \<open>Caching\<close>

text \<open>A context uses the cache of its custom configuration or the one of the proxy.\<close>

datatype cache_ref = GlobalCache | CustomCache nat

definition cacheForContext :: "'u DNSContext \<Rightarrow> cache_ref" where
  "cacheForContext d = (case Custom d of
      None \<Rightarrow> GlobalCache
    | Some c \<Rightarrow> (case cu_cache c of None \<Rightarrow> GlobalCache | Some k \<Rightarrow> CustomCache k))"

definition cache_at :: "('u, 'c) Proxy \<Rightarrow> cache_ref \<Rightarrow> 'c cache option" where
  "cache_at p ref = (case ref of GlobalCache \<Rightarrow> px_cache p | CustomCache k \<Rightarrow> px_custom p k)"

definition put_cache :: "cache_ref \<Rightarrow> 'c cache \<Rightarrow> ('u, 'c) Proxy \<Rightarrow> ('u, 'c) Proxy" where
  "put_cache ref c p = (case ref of
      GlobalCache \<Rightarrow> p\<lparr>px_cache := Some c\<rparr>
    | CustomCache k \<Rightarrow> p\<lparr>px_custom := (px_custom p)(k := Some c)\<rparr>)"

definition cloneIPNet :: "IPNet option \<Rightarrow> IPNet option" where
  "cloneIPNet n = map_option (\<lambda>n. \<lparr> net_IP = net_IP n, net_Mask = net_Mask n \<rparr>) n"

text \<open>The reduced context the optimistic resolver works on.\<close>

definition minCtxClone :: "'u DNSContext \<Rightarrow> 'u DNSContext" where
  "minCtxClone d = \<lparr> Upstream = None, ReqECS = cloneIPNet (ReqECS d), Custom = Custom d, queryStatistics = None,
     Req = Req d, Res = None, CtxProto = ProtoOther '''', RequestedPrivateRDNS = None,
     ClientAddr = \<lparr> ap_Addr = AddrZero, ap_Port = 0 \<rparr>, RequestID = 0, udpSize = 0,
     IsPrivateClient = IsPrivateClient d, adBit = False, hasEDNS0 = False, doBit = False \<rparr>"

text \<open>The result of a lookup: the hit, the context, the proxy and the job for the optimistic resolver.\<close>

definition replyFromCache ::
  "('u, 'c) proxy_env \<Rightarrow> ('u, 'c) Proxy \<Rightarrow> 'u DNSContext \<Rightarrow>
     (bool \<times> 'u DNSContext \<times> ('u, 'c) Proxy \<times> ('u DNSContext \<times> bytes option) option) go" where
  "replyFromCache E p d = do {
     c \<leftarrow> cache_at p (cacheForContext d);
     ((ci, expired, key), c) \<leftarrow>
       (if px_enableEDNSClientSubnet p \<and> ReqECS d \<noteq> None
        then getWithSubnet (pe_lib E) (pe_gl E) c (pe_now E) (Req d) (ReqECS d)
        else get (pe_lib E) (pe_gl E) c (pe_now E) (Req d));
     let p = put_cache (cacheForContext d) c p in
     Some (case ci of
         None \<Rightarrow> (False, d, p, None)
       | Some ci \<Rightarrow> (True,
           d\<lparr>Res := Some (ci_m ci), queryStatistics := Some (cachedQueryStatistics (ci_u ci))\<rparr>, p,
           if optimistic c \<and> expired then Some (minCtxClone d, key) else None)) }"

definition cacheResp :: "('u, 'c) proxy_env \<Rightarrow> ('u, 'c) Proxy \<Rightarrow> 'u DNSContext \<Rightarrow> ('u, 'c) Proxy go" where
  "cacheResp E p d = do {
     c \<leftarrow> cache_at p (cacheForContext d);
     res \<leftarrow> Res d;
     let u = map_option (pe_addr E) (Upstream d);
         put = (\<lambda>c. put_cache (cacheForContext d) c p);
         general = map_option put (set_resp (pe_lib E) (pe_gl E) c (pe_now E) (Req d) (Some res) u);
         with_net = (\<lambda>n. map_option put (setWithSubnet (pe_lib E) (pe_gl E) c (pe_now E) (Req d) (Some res) u (Some n)));
         (ecs, scope) = ecsFromMsg (pe_lib E) res
     in if \<not> px_enableEDNSClientSubnet p then general
        else (case (ecs, ReqECS d) of
            (Some ecs, Some reqECS) \<Rightarrow>
              let (ones, bits) = mask_Size (net_Mask ecs); (reqOnes, _) = mask_Size (net_Mask reqECS) in
              if \<not> ip_Equal (ip_Mask (net_IP ecs) (net_Mask ecs)) (ip_Mask (net_IP reqECS) (net_Mask reqECS)) \<or>
                 ones \<noteq> reqOnes
              then Some p
              else with_net (if scope < int reqOnes
                             then let m = CIDRMask scope bits in \<lparr> net_IP = ip_Mask (net_IP ecs) m, net_Mask = m \<rparr>
                             else ecs)
          | (None, Some _) \<Rightarrow> with_net \<lparr> net_IP = None, net_Mask = None \<rparr>
          | (_, None) \<Rightarrow> general) }"

definition ClearCache :: "('u, 'c) proxy_env \<Rightarrow> ('u, 'c) Proxy \<Rightarrow> ('u, 'c) Proxy" where
  "ClearCache E p = (case px_cache p of
      None \<Rightarrow> p
    | Some c \<Rightarrow> p\<lparr>px_cache := Some (clearItemsWithSubnet (pe_gl E) (clearItems (pe_gl E) c))\<rparr>)"

text \<open>The optimistic resolver: the keys it works on at the moment are a set.\<close>

definition resolveOnce ::
  "('u, 'c) proxy_env \<Rightarrow> ('u, 'c) Proxy \<Rightarrow> bytes option set \<Rightarrow> 'u DNSContext \<Rightarrow> bytes option \<Rightarrow> ('u, 'c) Proxy go" where
  "resolveOnce E p busy d key =
     (if key \<in> busy then Some p
      else do {
        (ok, err, d, p) \<leftarrow> replyFromUpstream E p d;
        if ok then cacheResp E p d else Some p })"

subsection \<open>Resolving\<close>

text \<open>
  The request is prepared before anything else: the client subnet, the flags of the
  client, and the DO bit when the cache is used.  The first component tells
  whether it is.
\<close>

definition resolve_prepare ::
  "('u, 'c) proxy_env \<Rightarrow> ('u, 'c) Proxy \<Rightarrow> 'u DNSContext \<Rightarrow> bool \<times> 'u DNSContext" where
  "resolve_prepare E p d =
     (let d = (if px_enableEDNSClientSubnet p then processECS (pe_lib E) (pe_special E) (px_ednsAddr p) d else d);
          d = calcFlagsAndSize (pe_lib E) d
      in if cacheWorks (px_cache p \<noteq> None) d
         then (True, d\<lparr>Req := addDO (pe_lib E) (px_dnsSecEnabled p) (Req d)\<rparr>) else (False, d))"

text \<open>Completion of a response: the DNSSEC records and the size the client wants.\<close>

definition complete_response :: "dnslib \<Rightarrow> 'u DNSContext \<Rightarrow> 'u DNSContext go" where
  "complete_response L d = (case Res d of
      None \<Rightarrow> Some (scrub L d)
    | Some res \<Rightarrow> do {
        res \<leftarrow> filterMsg res res (adBit d) (doBit d) 0;
        Some (scrub L (d\<lparr>Res := Some res\<rparr>)) })"

text \<open>What follows once the request is not waiting for an identical one.\<close>

definition resolve_work ::
  "('u, 'c) proxy_env \<Rightarrow> ('u, 'c) Proxy \<Rightarrow> bool \<Rightarrow> 'u DNSContext \<Rightarrow>
     (error option \<times> 'u DNSContext \<times> ('u, 'c) Proxy \<times> ('u DNSContext \<times> bytes option) option) go" where
  "resolve_work E p works d = do {
     (hit, d, p, job) \<leftarrow> (if works then replyFromCache E p d else Some (False, d, p, None));
     if hit then do { d \<leftarrow> complete_response (pe_lib E) d; Some (None, d, p, job) }
     else do {
       (ok, err, d, p) \<leftarrow> replyFromUpstream E p d;
       p \<leftarrow> (if works \<and> ok \<and> (case Res d of Some res \<Rightarrow> \<not> m_CheckingDisabled res | None \<Rightarrow> False)
             then cacheResp E p d else Some p);
       d \<leftarrow> complete_response (pe_lib E) d;
       Some (err, d, p, None) } }"

subsection \<open>DNS64 over any exchange\<close>

definition prefs_ok :: "Prefix list \<Rightarrow> bool" where
  "prefs_ok prefs \<longleftrightarrow> prefs = [] \<or> addr_wf (pfx_Addr (hd prefs))"

lemma answers_drop_excluded [simp]: "answers req (drop_excluded D prefs q m) = answers req m"
  by (simp add: drop_excluded_def answers_def)

context message_exchanger
begin

lemma performDNS64_answers:
  assumes "prefs_ok prefs" "dns64_env_law D" "length (m_Question req) = 1" "inv s"
    and "\<forall>m. resp = Some m \<longrightarrow> answers req m"
  shows "\<exists>u resp' s'. performDNS64 D prefs newId exch req resp s = Some (u, resp', s') \<and> inv s' \<and>
    (\<forall>w. u = Some w \<longrightarrow> known w) \<and> (resp' = None \<longleftrightarrow> resp = None) \<and> (\<forall>m. resp' = Some m \<longrightarrow> answers req m)"
proof (cases "resp = None \<or> prefs = []")
  case True
  with assms show ?thesis by (auto simp: performDNS64_def checkDNS64_def split: option.splits)
next
  case False
  then obtain m where m: "resp = Some m" "prefs \<noteq> []" by auto
  obtain q where q: "m_Question req = [q]" using assms(3) by (auto simp: length_1_conv)
  let ?m = "drop_excluded D prefs q m"
  note check = checkDNS64_eq [OF m(2) q, of D newId m]
  have ans: "answers req ?m" using assms(5) m(1) by simp
  have wf: "addr_wf (pfx_Addr (hd prefs))" using assms(1) m(2) by (simp add: prefs_ok_def)
  show ?thesis
  proof (cases "wants_dns64 D prefs q m")
    case False
    with check ans m(1) assms(4) show ?thesis by (simp add: performDNS64_def)
  next
    case True
    have qa: "m_Question (a_request newId q req) \<noteq> []" by (simp add: a_request_def)
    from assms(4) qa show ?thesis
    proof (cases rule: exch_cases)
      case (resp r64 u s')
      have "\<exists>ok r'. synthDNS64 D prefs req ?m r64 = Some (ok, r') \<and> answers req r'"
        using synthDNS64_eq [OF assms(2) m(2) wf q, of r64 ?m] ans by (auto simp: answers_def split: if_splits)
      then obtain ok r' where "synthDNS64 D prefs req ?m r64 = Some (ok, r')" "answers req r'" by blast
      with resp True check m(1) show ?thesis by (simp add: performDNS64_def)
    qed (use True check ans m(1) in \<open>simp_all add: performDNS64_def\<close>)
  qed
qed

end

subsection \<open>What the environment and the state provide\<close>

definition config_safe :: "'u UpstreamConfig \<Rightarrow> bool" where
  "config_safe uc \<longleftrightarrow> (\<forall>host. getUpstreamsForDomain uc host \<noteq> None)"

definition env_ok :: "('u, 'c) proxy_env \<Rightarrow> bool" where
  "env_ok E \<longleftrightarrow> cache_libs (pe_lib E) (pe_gl E) \<and> lib_edns_law (pe_lib E) \<and> lib_SetEdns0_law (pe_lib E) \<and>
     lib_Truncate_law (pe_lib E) \<and> dns64_env_law (pe_dns64 E) \<and>
     (\<forall>ups. exch_env_ok (wrapped_env E ups) [0..<length ups]) \<and>
     (\<forall>u req m. pe_ex E u req = Inr (Some m) \<longrightarrow> answers req m) \<and>
     (\<forall>ups. map ws_upstream (pe_observe E (upstreamsWithStats ups)) = ups)"

definition cache_ok :: "('u, 'c) proxy_env \<Rightarrow> bool \<Rightarrow> 'c cache option \<Rightarrow> bool" where
  "cache_ok E ecs co = (case co of None \<Rightarrow> True
     | Some c \<Rightarrow> cache_inv (pe_lib E) (pe_gl E) c \<and> (ecs \<longrightarrow> itemsWithSubnet c \<noteq> None))"

definition proxy_inv :: "('u, 'c) proxy_env \<Rightarrow> ('u, 'c) Proxy \<Rightarrow> bool" where
  "proxy_inv E p \<longleftrightarrow> cache_ok E (px_enableEDNSClientSubnet p) (px_cache p) \<and>
     (\<forall>k. cache_ok E (px_enableEDNSClientSubnet p) (px_custom p k)) \<and>
     rd_ok (pe_gl E) (px_recDetector p) \<and> rtt_inv (es_rtt (px_exch p)) \<and> prefs_ok (px_dns64Prefs p) \<and>
     (\<exists>uc. px_upstreamConf p = Some uc \<and> config_safe uc) \<and> (\<forall>uc. px_private p = Some uc \<longrightarrow> config_safe uc) \<and>
     (\<forall>uc. px_fallbacks p = Some uc \<longrightarrow> config_safe uc)"

definition ctx_ok :: "'u DNSContext \<Rightarrow> bool" where
  "ctx_ok d \<longleftrightarrow> length (m_Question (Req d)) = 1 \<and>
     (\<forall>c. Custom d = Some c \<longrightarrow> (\<exists>uc. cu_upstream c = Some uc \<and> config_safe uc))"

lemma getUpstreams_total: "config_safe uc \<Longrightarrow> \<exists>ups. getUpstreams t uc host = Some ups"
  by (auto simp: getUpstreams_def config_safe_def getUpstreamsForDS_def split: prod.splits)

lemma selectUpstreams_total:
  assumes "proxy_inv E p" "ctx_ok d"
  shows "\<exists>ups private. selectUpstreams E p d = Some (ups, private)"
proof -
  obtain q where q: "m_Question (Req d) = [q]" using assms(2) by (auto simp: ctx_ok_def length_1_conv)
  obtain strip where strip: "shouldStripDNS64 (pe_dns64 E) (px_dns64Prefs p) (Req d) = Some strip"
    using q by (cases "px_dns64Prefs p") (auto simp: shouldStripDNS64_def go_index_def)
  have total: "\<exists>ups. getUpstreams t uc host = Some ups"
    if "px_upstreamConf p = Some uc \<or> px_private p = Some uc \<or> (\<exists>c. Custom d = Some c \<and> cu_upstream c = Some uc)" for t uc host
    using that assms by (intro getUpstreams_total) (auto simp: proxy_inv_def ctx_ok_def)
  have dom: "\<exists>ups. getUpstreamsForDomain uc host = Some ups" if "px_private p = Some uc" for uc host
    using that assms(1) by (auto simp: proxy_inv_def config_safe_def)
  obtain gen main where gen: "px_upstreamConf p = Some gen" and main: "getUpstreams (q_Qtype q) gen (q_Name q) = Some main"
    using total assms(1) unfolding proxy_inv_def by blast
  have custom: "\<exists>ups. (case Custom d of None \<Rightarrow> Some []
       | Some c \<Rightarrow> do { uc \<leftarrow> cu_upstream c; getUpstreams (q_Qtype q) uc (q_Name q) }) = Some ups"
  proof (cases "Custom d")
    case (Some c)
    then obtain uc where "cu_upstream c = Some uc" using assms(2) by (auto simp: ctx_ok_def)
    with Some total show ?thesis by force
  qed simp
  have priv: "\<exists>r. (case px_private p of
          Some private \<Rightarrow>
            if px_usePrivateRDNS p \<and> IsPrivateClient d then do {
              ups \<leftarrow> getUpstreamsForDomain private (q_Name q);
              Some (ups, True) }
            else Some ([], True)
        | None \<Rightarrow> Some ([], True)) = Some r"
    using dom [of _ "q_Name q"] by (cases "px_private p") fastforce+
  show ?thesis
    using q strip gen main custom priv by (auto simp: selectUpstreams_def go_index_def)
qed

lemma rd_add_total: "\<exists>rd'. rd_add G rd now msg = Some rd'"
  by (cases "m_Question msg") (simp_all add: rd_add_def msgToSignature_def go_index_def)

lemma env_okD:
  assumes "env_ok E"
  shows "lib_reply_law (pe_lib E)" "lib_SetEdns0_law (pe_lib E)" "dns64_env_law (pe_dns64 E)"
    "exch_env_ok (wrapped_env E ups) [0..<length ups]" "cache_libs (pe_lib E) (pe_gl E)"
    "lib_edns_law (pe_lib E)" "lib_Truncate_law (pe_lib E)" "glcache_law (pe_gl E)"
  using assms by (auto simp: env_ok_def cache_libs_def)

lemma error_reply_answers:
  assumes "env_ok E" "length (m_Question req) = 1"
  shows "answers req (NewMsgNXDOMAIN (pe_lib E) req)" "answers req (NewMsgSERVFAIL (pe_lib E) req)"
  using default_constructor.nxdomain [of "pe_lib E" req] default_constructor.servfail [of "pe_lib E" req]
    env_okD [OF assms(1)] assms(2)
  by (auto simp: constructor_valid_def)

lemma exchange_main_total:
  assumes "env_ok E" "proxy_inv E p" "length (m_Question req) = 1"
  shows "\<exists>resp u err s. exchange_main E p req ups = Some (resp, u, err, s) \<and> rtt_inv (es_rtt s) \<and>
    (\<forall>m. resp = Some m \<longrightarrow> answers req m) \<and> (err \<noteq> None \<longrightarrow> resp = None \<and> u = NoResolver) \<and>
    (err = None \<longrightarrow> (\<exists>i < length ups. u = MainResolver i))"
proof -
  define exch where "exch = (\<lambda>r s. exchangeUpstreams (wrapped_env E ups) (px_mode p) r [0..<length ups] s)"
  have inv: "exch_env_ok (wrapped_env E ups) [0..<length ups] \<and> rtt_inv (es_rtt (px_exch p))"
    using env_okD [OF assms(1)] assms(2) by (simp add: proxy_inv_def)
  have q: "m_Question req \<noteq> []" using assms(3) by auto
  obtain r s where r: "exch req (px_exch p) = Some (r, s)" "rtt_inv (es_rtt s)" "good_result req [0..<length ups] r"
    using upstreams_exchanger.exch_total [OF inv q, of "px_mode p"] unfolding exch_def good_result_def by blast
  define resp where "resp = (case r of Inl _ \<Rightarrow> None | Inr (m, _) \<Rightarrow> m)"
  have ans: "\<forall>m. resp = Some m \<longrightarrow> answers req m"
    using r(3) by (auto simp: resp_def good_result_def split: sum.splits)
  have inv': "exch_env_ok (wrapped_env E ups) [0..<length ups] \<and> rtt_inv (es_rtt s)" using inv r(2) by simp
  have prefs: "prefs_ok (px_dns64Prefs p)" using assms(2) by (simp add: proxy_inv_def)
  obtain u64 resp' s' where d: "performDNS64 (pe_dns64 E) (px_dns64Prefs p) (pe_newId E) exch req resp s =
      Some (u64, resp', s')" "rtt_inv (es_rtt s')" "\<forall>w. u64 = Some w \<longrightarrow> w \<in> set [0..<length ups]"
      "resp' = None \<longleftrightarrow> resp = None" "\<forall>m. resp' = Some m \<longrightarrow> answers req m"
    using upstreams_exchanger.performDNS64_answers [OF prefs env_okD(3) [OF assms(1)] assms(3) inv' ans,
        of "pe_newId E" "px_mode p"]
    unfolding exch_def by blast
  have none: "u64 = None" if "resp = None"
    using d(1) that by (simp add: performDNS64_def)
  show ?thesis
  proof (cases r)
    case (Inl e)
    then have "resp = None" by (simp add: resp_def)
    then have "exchange_main E p req ups = Some (None, NoResolver, Some e, s')"
      using r(1) d(1,4) none Inl
      by (simp add: exchange_main_def exch_def [symmetric] isBogusNXDomain_def)
    with d(2) show ?thesis by simp
  next
    case (Inr mi)
    obtain m i where mi: "mi = (m, i)" by (cases mi)
    then have i: "i < length ups" using r(3) Inr by (simp add: good_result_def)
    have "exchange_main E p req ups = Some (case u64 of Some i \<Rightarrow> (resp', MainResolver i, None, s')
       | None \<Rightarrow> (if isBogusNXDomain (set_Contains (pe_dns64 E)) (px_bogusNXDomain p) resp'
               then Some (NewMsgNXDOMAIN (pe_lib E) req) else resp', MainResolver i, None, s'))"
      using r(1) d(1) Inr mi by (simp add: exchange_main_def exch_def [symmetric] resp_def split: option.splits)
    with d i error_reply_answers(1) [OF assms(1,3)] show ?thesis by (cases u64) auto
  qed
qed

text \<open>What resolving leaves of a context: everything but the response and its provenance.\<close>

definition same_request_ctx :: "'u DNSContext \<Rightarrow> 'u DNSContext \<Rightarrow> bool" where
  "same_request_ctx d d' \<longleftrightarrow> Req d' = Req d \<and> ReqECS d' = ReqECS d \<and> Custom d' = Custom d \<and>
     RequestedPrivateRDNS d' = RequestedPrivateRDNS d \<and> CtxProto d' = CtxProto d"

definition same_flags :: "'u DNSContext \<Rightarrow> 'u DNSContext \<Rightarrow> bool" where
  "same_flags d d' \<longleftrightarrow> adBit d' = adBit d \<and> doBit d' = doBit d \<and> udpSize d' = udpSize d \<and>
     (hasEDNS0 d' \<longrightarrow> hasEDNS0 d)"

lemma answers_setMinMaxTTL [simp]:
  "answers req (setMinMaxTTL lo hi m) = answers req m" "answers req (m\<lparr>m_Authoritative := b\<rparr>) = answers req m"
  by (simp_all add: answers_def setMinMaxTTL_def Let_def)

lemma handleExchangeResult_spec:
  assumes "env_ok E" "length (m_Question req) = 1" "\<forall>m. resp = Some m \<longrightarrow> answers req m"
  shows "\<exists>res. Res (handleExchangeResult (pe_lib E) lo hi d req resp u) = Some res \<and> answers req res \<and>
    same_request_ctx d (handleExchangeResult (pe_lib E) lo hi d req resp u) \<and>
    same_flags d (handleExchangeResult (pe_lib E) lo hi d req resp u)"
  using error_reply_answers(2) [OF assms(1,2)] assms(3)
  by (cases resp) (auto simp: handleExchangeResult_def same_request_ctx_def same_flags_def)

text \<open>The exchange with the fallbacks.\<close>

lemma fallback_good:
  assumes "env_ok E"
  shows "good_result req [0..<length fbs]
    (ExchangeParallel (\<lambda>i. pe_ex E (fbs ! i)) (pe_arrivals E fbs req) [0..<length fbs] req)"
proof (rule ExchangeParallel_good)
  show "\<forall>u req m. pe_ex E (fbs ! u) req = Inr (Some m) \<longrightarrow> answers req m"
    using assms by (simp add: env_ok_def)
  show "mset (pe_arrivals E fbs req) = mset [0..<length fbs]"
    using env_okD(4) [OF assms, of fbs] by (simp add: exch_env_ok_def wrapped_env_def)
qed

lemma replyFromUpstream_total:
  assumes "env_ok E" "proxy_inv E p" "ctx_ok d"
  shows "\<exists>ok err d' rd s. replyFromUpstream E p d = Some (ok, err, d', p\<lparr>px_recDetector := rd, px_exch := s\<rparr>) \<and>
    rd_ok (pe_gl E) rd \<and> rtt_inv (es_rtt s) \<and> same_request_ctx d d' \<and> same_flags d d' \<and>
    (\<exists>res. Res d' = Some res \<and> answers (Req d) res)"
proof -
  let ?req = "Req d"
  have ok: "rd_ok (pe_gl E) (px_recDetector p)" using assms(2) by (simp add: proxy_inv_def)
  have q1: "length (m_Question ?req) = 1" using assms(3) by (simp add: ctx_ok_def)
  obtain ups priv where sel: "selectUpstreams E p d = Some (ups, priv)"
    using selectUpstreams_total [OF assms(2,3)] by blast
  show ?thesis
  proof (cases "ups = []")
    case True
    have "replyFromUpstream E p d = Some (False, Some (ErrWrap ''selecting upstream'' ErrNoUpstreams),
             d\<lparr>Res := Some (NewMsgNXDOMAIN (pe_lib E) ?req)\<rparr>,
             p\<lparr>px_recDetector := px_recDetector p, px_exch := px_exch p\<rparr>)"
      using sel True by (simp add: replyFromUpstream_def)
    moreover have "rtt_inv (es_rtt (px_exch p))" using assms(2) by (simp add: proxy_inv_def)
    moreover have "answers ?req (NewMsgNXDOMAIN (pe_lib E) ?req)" by (rule error_reply_answers(1) [OF assms(1) q1])
    ultimately show ?thesis
      by (intro exI [of _ False] exI [of _ "Some (ErrWrap ''selecting upstream'' ErrNoUpstreams)"]
          exI [of _ "d\<lparr>Res := Some (NewMsgNXDOMAIN (pe_lib E) ?req)\<rparr>"] exI [of _ "px_recDetector p"]
          exI [of _ "px_exch p"])
        (simp add: same_request_ctx_def same_flags_def ok)
  next
    case False
    obtain rd where rd: "(if priv then do {
               rd \<leftarrow> rd_add (pe_gl E) (px_recDetector p) (pe_now E) ?req;
               Some (p\<lparr>px_recDetector := rd\<rparr>) } else Some p) = Some (p\<lparr>px_recDetector := rd\<rparr>)" "rd_ok (pe_gl E) rd"
    proof (cases priv)
      case True
      obtain rd' where "rd_add (pe_gl E) (px_recDetector p) (pe_now E) ?req = Some rd'" using rd_add_total by blast
      with True ok that show ?thesis
        using rd_ok_add [OF env_okD(8) [OF assms(1)]] by simp
    next
      case False
      then show ?thesis using that [of "px_recDetector p"] ok by simp
    qed
    let ?p = "p\<lparr>px_recDetector := rd\<rparr>"
    have inv: "proxy_inv E ?p" using assms(2) rd(2) by (simp add: proxy_inv_def)
    obtain resp u err s where main: "exchange_main E ?p ?req ups = Some (resp, u, err, s)" "rtt_inv (es_rtt s)"
      "\<forall>m. resp = Some m \<longrightarrow> answers ?req m"
      using exchange_main_total [OF assms(1) inv q1, of ups] by blast
    obtain resp' u' err' fbs where fb: "(case px_fallbacks p of
            Some fb \<Rightarrow>
              if err \<noteq> None \<and> \<not> priv then do {
                q \<leftarrow> go_index (m_Question ?req) 0;
                fbs \<leftarrow> getUpstreamsForDomain fb (q_Name q);
                Some (case ExchangeParallel (\<lambda>i. pe_ex E (fbs ! i)) (pe_arrivals E fbs ?req) [0..<length fbs] ?req of
                    Inl e \<Rightarrow> (None, NoResolver, Some e, fbs)
                  | Inr (m, i) \<Rightarrow> (m, FallbackResolver i, None, fbs)) }
              else Some (resp, u, err, [])
          | None \<Rightarrow> Some (resp, u, err, [])) = Some (resp', u', err', fbs)"
      "\<forall>m. resp' = Some m \<longrightarrow> answers ?req m"
    proof (cases "(\<exists>fb. px_fallbacks p = Some fb) \<and> err \<noteq> None \<and> \<not> priv")
      case True
      then obtain fb where f: "px_fallbacks p = Some fb" by blast
      obtain q where q: "m_Question ?req = [q]" using q1 by (auto simp: length_1_conv)
      obtain fbs where fbs: "getUpstreamsForDomain fb (q_Name q) = Some fbs"
        using assms(2) f by (auto simp: proxy_inv_def config_safe_def dest: spec [of _ "q_Name q"])
      show ?thesis
        using that True f q fbs fallback_good [OF assms(1), of ?req fbs]
        by (auto simp: go_index_def good_result_def split: sum.splits prod.splits option.splits)
    next
      case False
      then show ?thesis using that main(3) by (cases "px_fallbacks p") auto
    qed
    define cs where "cs = collectQueryStats (pe_addr E) (px_mode p) (observed E ups fbs u')
             (pe_observe E (upstreamsWithStats ups)) (pe_observe E (upstreamsWithStats fbs))"
    define d' where "d' = handleExchangeResult (pe_lib E) (px_cacheMinTTL p) (px_cacheMaxTTL p)
                 (d\<lparr>queryStatistics := Some (snd cs)\<rparr>) ?req resp' (fst cs)"
    have "replyFromUpstream E p d = Some (resp' \<noteq> None, err', d', ?p\<lparr>px_exch := s\<rparr>)"
      using sel False rd(1) main(1) fb(1)
      by (simp add: replyFromUpstream_def cs_def [symmetric] d'_def split: prod.splits)
    moreover have "\<exists>res. Res d' = Some res \<and> answers ?req res \<and> same_request_ctx d d' \<and> same_flags d d'"
      using handleExchangeResult_spec [OF assms(1) q1 fb(2), of "px_cacheMinTTL p" "px_cacheMaxTTL p"
          "d\<lparr>queryStatistics := Some (snd cs)\<rparr>" "fst cs"]
      unfolding d'_def [symmetric] by (simp add: same_request_ctx_def same_flags_def)
    ultimately show ?thesis using main(2) rd(2) by auto
  qed
qed

subsection \<open>Completion and caching keep the answer\<close>

lemma calcFlagsAndSize_frame [simp]:
  "Req (calcFlagsAndSize L d) = Req d" "ReqECS (calcFlagsAndSize L d) = ReqECS d"
  "Custom (calcFlagsAndSize L d) = Custom d" "Res (calcFlagsAndSize L d) = Res d"
  "CtxProto (calcFlagsAndSize L d) = CtxProto d"
  "RequestedPrivateRDNS (calcFlagsAndSize L d) = RequestedPrivateRDNS d"
  by (simp_all add: calcFlagsAndSize_def Let_def split: option.splits)

lemma SetEdns0_spec:
  assumes "lib_SetEdns0_law L"
  shows "answers req (lib_SetEdns0 L sz b m) = answers req m" "has_opt (lib_SetEdns0 L sz b m)"
    "m_Answer (lib_SetEdns0 L sz b m) = m_Answer m"
  using SetEdns0_other_fields [OF assms, of sz b m] by (fastforce simp: answers_def has_opt_def)+

lemma Truncate_spec:
  assumes "lib_Truncate_law L"
  shows "answers req (lib_Truncate L n m) = answers req m" "has_opt (lib_Truncate L n m) = has_opt m"
    "set (m_Answer (lib_Truncate L n m)) \<subseteq> set (m_Answer m)"
  using assms by (auto simp: lib_Truncate_law_def answers_def Let_def)

lemma IsEdns0_has_opt: "lib_edns_law L \<Longrightarrow> lib_IsEdns0 L m \<noteq> None \<longleftrightarrow> has_opt m"
  unfolding lib_edns_law_def has_opt_def
  by (drule spec [of _ m]) (auto split: option.splits intro: nth_mem)

text \<open>
  After the completion a response still answers the request, has an OPT record exactly if
  the context says that the client sent one, and a client that did not ask for DNSSEC gets no
  DNSSEC records but those it asked for by type.
\<close>

lemma complete_spec:
  assumes "env_ok E" "Res d = Some res" "answers (Req d) res" "length (m_Question (Req d)) = 1"
  shows "\<exists>d' res'. complete_response (pe_lib E) d = Some d' \<and> Res d' = Some res' \<and> answers (Req d) res' \<and>
    m_Compress res' \<and> same_request_ctx d d' \<and>
    has_opt res' = hasEDNS0 (calcFlagsAndSize (pe_lib E) d) \<and>
    (\<forall>r \<in> set (m_Answer res'). r \<in> set (m_Answer res) \<and>
       keep_rr (doBit d) (q_Qtype (hd (m_Question (Req d)))) r)"
proof -
  let ?L = "pe_lib E"
  note laws = env_okD [OF assms(1)]
  obtain q where q: "m_Question (Req d) = [q]" using assms(4) by (auto simp: length_1_conv)
  with assms(3) have qr: "m_Question res = [q]" by (simp add: answers_def)
  let ?f = "res\<lparr>m_AuthenticatedData := m_AuthenticatedData res \<and> (adBit d \<or> doBit d),
      m_Answer := filterRRSlice (m_Answer res) (doBit d) 0 (q_Qtype q),
      m_Ns := filterRRSlice (m_Ns res) (doBit d) 0 TypeNone,
      m_Extra := filterRRSlice (m_Extra res) (doBit d) 0 TypeNone\<rparr>"
  have filt: "filterMsg res res (adBit d) (doBit d) 0 = Some ?f"
    using qr by (simp add: filterMsg_def go_index_def)
  have f: "answers (Req d) ?f" "\<not> has_opt ?f"
    using assms(3) by (auto simp: answers_def has_opt_def filterRRSlice_spec keep_rr_def)
  have none: "lib_IsEdns0 ?L ?f = None" using IsEdns0_has_opt [OF laws(6), of ?f] f(2) by blast
  let ?d = "calcFlagsAndSize ?L (d\<lparr>Res := Some ?f\<rparr>)"
  have flags: "hasEDNS0 ?d = hasEDNS0 (calcFlagsAndSize ?L d)"
    by (simp add: calcFlagsAndSize_def Let_def split: option.splits)
  define e where "e = (if hasEDNS0 ?d then lib_SetEdns0 ?L (udpSize ?d) (doBit ?d) ?f else ?f)"
  have e: "answers (Req d) e" "has_opt e = hasEDNS0 ?d" "m_Answer e = m_Answer ?f"
    using f SetEdns0_spec [OF laws(2)] by (simp_all add: e_def)
  define t where "t = lib_Truncate ?L (unat (dnsSize ?L (CtxProto ?d = ProtoUDP) (Req ?d))) e"
  have t: "answers (Req d) t" "has_opt t = hasEDNS0 ?d" "set (m_Answer t) \<subseteq> set (m_Answer ?f)"
    using e Truncate_spec(1,2) [OF laws(7)] Truncate_spec(3) [OF laws(7), of _ e] by (simp_all add: t_def)
  have "complete_response ?L d = Some (?d\<lparr>Res := Some (t\<lparr>m_Compress := True\<rparr>)\<rparr>)"
    using assms(2) filt none by (simp add: complete_response_def scrub_def e_def t_def Let_def)
  moreover have "answers (Req d) (t\<lparr>m_Compress := True\<rparr>)" "has_opt (t\<lparr>m_Compress := True\<rparr>) = has_opt t"
    using t(1) by (simp_all add: answers_def has_opt_def)
  moreover have "same_request_ctx d (?d\<lparr>Res := Some (t\<lparr>m_Compress := True\<rparr>)\<rparr>)"
    by (simp add: same_request_ctx_def)
  moreover have "\<forall>r \<in> set (m_Answer t). r \<in> set (m_Answer res) \<and> keep_rr (doBit d) (q_Qtype q) r"
    using t(3) by (auto simp: filterRRSlice_spec)
  ultimately show ?thesis using t(2) flags q by auto
qed

lemma put_cache_inv:
  assumes "proxy_inv E p" "cache_inv (pe_lib E) (pe_gl E) c" "px_enableEDNSClientSubnet p \<longrightarrow> itemsWithSubnet c \<noteq> None"
  shows "proxy_inv E (put_cache ref c p)"
proof -
  have "cache_ok E (px_enableEDNSClientSubnet p) (Some c)" using assms(2,3) by (simp add: cache_ok_def)
  with assms(1) show ?thesis by (cases ref) (simp_all add: proxy_inv_def put_cache_def)
qed

lemma cache_at_inv:
  assumes "proxy_inv E p" "cache_at p ref = Some c"
  shows "cache_inv (pe_lib E) (pe_gl E) c" "px_enableEDNSClientSubnet p \<longrightarrow> itemsWithSubnet c \<noteq> None"
  using assms by (cases ref; fastforce simp: proxy_inv_def cache_at_def cache_ok_def split: option.splits)+

lemma itemsWithSubnet_get:
  "get L G c now req = Some (r, c') \<Longrightarrow> itemsWithSubnet c' = itemsWithSubnet c"
  by (auto simp: get_def Let_def split: if_splits Option.bind_splits option.splits prod.splits)

lemma itemsWithSubnet_getWithSubnet:
  "getWithSubnet L G c now req n = Some (r, c') \<Longrightarrow> (itemsWithSubnet c' \<noteq> None) = (itemsWithSubnet c \<noteq> None)"
  by (auto simp: getWithSubnet_def Let_def split: if_splits Option.bind_splits option.splits prod.splits)

lemma itemsWithSubnet_set_resp:
  "set_resp L G c now req m u = Some c' \<Longrightarrow> itemsWithSubnet c' = itemsWithSubnet c"
  by (auto simp: set_resp_def split: Option.bind_splits option.splits sum.splits)

lemma replyFromCache_total:
  assumes "env_ok E" "proxy_inv E p" "ctx_ok d" "cache_at p (cacheForContext d) = Some c"
  shows "\<exists>hit d' c' job. replyFromCache E p d = Some (hit, d', put_cache (cacheForContext d) c' p, job) \<and>
    proxy_inv E (put_cache (cacheForContext d) c' p) \<and> same_request_ctx d d' \<and> same_flags d d' \<and> hasEDNS0 d' = hasEDNS0 d \<and>
    (if hit then \<exists>res. Res d' = Some res \<and> answers (Req d) res else d' = d)"
proof -
  let ?L = "pe_lib E" and ?G = "pe_gl E"
  note libs = env_okD(5) [OF assms(1)]
  note inv = cache_at_inv [OF assms(2,4)]
  obtain ci e k c' where get: "(if px_enableEDNSClientSubnet p \<and> ReqECS d \<noteq> None
        then getWithSubnet ?L ?G c (pe_now E) (Req d) (ReqECS d) else get ?L ?G c (pe_now E) (Req d)) =
      Some ((ci, e, k), c')" "cache_inv ?L ?G c'" "\<forall>it. ci = Some it \<longrightarrow> answers (Req d) (ci_m it)"
    "(itemsWithSubnet c' \<noteq> None) = (itemsWithSubnet c \<noteq> None)"
  proof (cases "px_enableEDNSClientSubnet p \<and> ReqECS d \<noteq> None")
    case True
    from getWithSubnet_correct [OF libs inv(1), of "pe_now E" "Req d" "ReqECS d"]
    obtain ci e k c' where "getWithSubnet ?L ?G c (pe_now E) (Req d) (ReqECS d) = Some ((ci, e, k), c')"
      "cache_inv ?L ?G c'" "\<forall>it. ci = Some it \<longrightarrow> answers (Req d) (ci_m it)" by blast
    with True itemsWithSubnet_getWithSubnet [OF this(1)] show ?thesis using that by simp
  next
    case False
    from get_correct [OF libs inv(1), of "pe_now E" "Req d"]
    obtain ci e k c' where "get ?L ?G c (pe_now E) (Req d) = Some ((ci, e, k), c')"
      "cache_inv ?L ?G c'" "\<forall>it. ci = Some it \<longrightarrow> answers (Req d) (ci_m it)" by blast
    with False itemsWithSubnet_get [OF this(1)] show ?thesis by (intro that [of ci e k c']) auto
  qed
  have "proxy_inv E (put_cache (cacheForContext d) c' p)"
    using put_cache_inv [OF assms(2) get(2)] get(4) inv(2) by blast
  note inv' = this
  define d' where "d' = (case ci of None \<Rightarrow> d
    | Some it \<Rightarrow> d\<lparr>Res := Some (ci_m it), queryStatistics := Some (cachedQueryStatistics (ci_u it))\<rparr>)"
  define job where "job = (if ci \<noteq> None \<and> optimistic c' \<and> e then Some (minCtxClone d, k) else None)"
  have "replyFromCache E p d = Some (ci \<noteq> None, d', put_cache (cacheForContext d) c' p, job)"
    using assms(4) get(1) by (cases ci) (simp_all add: replyFromCache_def d'_def job_def)
  moreover have "same_request_ctx d d' \<and> same_flags d d' \<and> hasEDNS0 d' = hasEDNS0 d"
    by (simp add: d'_def same_request_ctx_def same_flags_def split: option.splits)
  moreover have "if ci \<noteq> None then \<exists>res. Res d' = Some res \<and> answers (Req d) res else d' = d"
    using get(3) by (cases ci) (simp_all add: d'_def)
  ultimately show ?thesis using inv' by blast
qed

lemma cacheResp_total:
  assumes "env_ok E" "proxy_inv E p" "ctx_ok d" "cache_at p (cacheForContext d) = Some c" "Res d = Some res"
  shows "\<exists>p'. cacheResp E p d = Some p' \<and> proxy_inv E p'"
proof -
  let ?L = "pe_lib E" and ?G = "pe_gl E" and ?u = "map_option (pe_addr E) (Upstream d)"
  let ?put = "\<lambda>c. put_cache (cacheForContext d) c p"
  note libs = env_okD(5) [OF assms(1)]
  note inv = cache_at_inv [OF assms(2,4)]
  have q: "length (m_Question (Req d)) = 1" using assms(3) by (simp add: ctx_ok_def)
  obtain c1 where c1: "set_resp ?L ?G c (pe_now E) (Req d) (Some res) ?u = Some c1" "cache_inv ?L ?G c1"
    using set_resp_correct [OF libs inv(1) q] by blast
  have p1: "proxy_inv E (?put c1)"
    using put_cache_inv [OF assms(2) c1(2)] itemsWithSubnet_set_resp [OF c1(1)] inv(2) by simp
  have net: "\<exists>c'. setWithSubnet ?L ?G c (pe_now E) (Req d) (Some res) ?u (Some n) = Some c' \<and> proxy_inv E (?put c')"
    if "px_enableEDNSClientSubnet p" for n
    using setWithSubnet_correct [OF libs inv(1) q, of "pe_now E" "Some res" ?u "Some n"] inv(2) that
      put_cache_inv [OF assms(2)] by blast
  obtain ecs scope where ecs: "ecsFromMsg ?L res = (ecs, scope)" by (cases "ecsFromMsg ?L res")
  show ?thesis
  proof (cases "px_enableEDNSClientSubnet p \<and> ReqECS d \<noteq> None")
    case False
    then have "cacheResp E p d = Some (?put c1)"
      using assms(4,5) c1(1) ecs
      by (cases "px_enableEDNSClientSubnet p"; cases ecs) (simp_all add: cacheResp_def Let_def)
    with p1 show ?thesis by simp
  next
    case True
    then obtain reqECS where r: "ReqECS d = Some reqECS" by auto
    have "cacheResp E p d = Some p \<or> (\<exists>n. cacheResp E p d =
        map_option ?put (setWithSubnet ?L ?G c (pe_now E) (Req d) (Some res) ?u (Some n)))"
    proof (cases ecs)
      case None
      then show ?thesis using True assms(4,5) ecs r by (auto simp: cacheResp_def Let_def)
    next
      case (Some n)
      obtain ones bits reqOnes rb where "mask_Size (net_Mask n) = (ones, bits)"
        "mask_Size (net_Mask reqECS) = (reqOnes, rb)" by (metis surj_pair)
      with Some True assms(4,5) ecs r show ?thesis
        by (simp add: cacheResp_def Let_def) blast
    qed
    then consider "cacheResp E p d = Some p" | n where "cacheResp E p d =
        map_option ?put (setWithSubnet ?L ?G c (pe_now E) (Req d) (Some res) ?u (Some n))" by blast
    then show ?thesis
    proof cases
      case (2 n)
      with net [of n] True show ?thesis by auto
    qed (use assms(2) in simp)
  qed
qed

subsection \<open>Resolving is total and answers the request\<close>

lemma resolve_work_total:
  assumes "env_ok E" "proxy_inv E p" "ctx_ok d" "works \<longrightarrow> cache_at p (cacheForContext d) \<noteq> None"
  shows "\<exists>err d' p' job res. resolve_work E p works d = Some (err, d', p', job) \<and> proxy_inv E p' \<and>
    same_request_ctx d d' \<and> Res d' = Some res \<and> answers (Req d) res \<and> m_Compress res \<and>
    (udpSize d \<noteq> 0 \<longrightarrow> has_opt res \<longrightarrow> hasEDNS0 d) \<and>
    (has_opt res \<longrightarrow> hasEDNS0 d \<or> has_opt (Req d)) \<and>
    (\<forall>r \<in> set (m_Answer res). keep_rr (doBit d) (q_Qtype (hd (m_Question (Req d)))) r)"
proof -
  let ?L = "pe_lib E"
  have q: "length (m_Question (Req d)) = 1" using assms(3) by (simp add: ctx_ok_def)
  have edns: "hasEDNS0 (calcFlagsAndSize ?L d1) \<longrightarrow> hasEDNS0 d1 \<or> (udpSize d1 = 0 \<and> has_opt (Req d1))" for d1 :: "'u DNSContext"
    using IsEdns0_has_opt [OF env_okD(6) [OF assms(1)], of "Req d1"]
    by (auto simp: calcFlagsAndSize_def Let_def split: option.splits)
  have finish: "\<exists>d' res'. complete_response ?L d1 = Some d' \<and> Res d' = Some res' \<and> answers (Req d) res' \<and> m_Compress res' \<and>
      same_request_ctx d d' \<and> (udpSize d \<noteq> 0 \<longrightarrow> has_opt res' \<longrightarrow> hasEDNS0 d) \<and>
      (has_opt res' \<longrightarrow> hasEDNS0 d \<or> has_opt (Req d)) \<and>
      (\<forall>r \<in> set (m_Answer res'). keep_rr (doBit d) (q_Qtype (hd (m_Question (Req d)))) r)"
    if "same_request_ctx d d1" "same_flags d d1" "Res d1 = Some res" "answers (Req d) res" for d1 res
  proof -
    have r: "Req d1 = Req d" using that(1) by (simp add: same_request_ctx_def)
    from complete_spec [OF assms(1) that(3)] that(4) q r obtain d' res' where
      c: "complete_response ?L d1 = Some d'" "Res d' = Some res'" "answers (Req d) res'" "m_Compress res'"
        "same_request_ctx d1 d'" "has_opt res' = hasEDNS0 (calcFlagsAndSize ?L d1)"
        "\<forall>r \<in> set (m_Answer res'). keep_rr (doBit d1) (q_Qtype (hd (m_Question (Req d)))) r"
      by auto
    have "same_request_ctx d d'" using c(5) that(1) by (simp add: same_request_ctx_def)
    moreover have "doBit d1 = doBit d" using that(2) by (simp add: same_flags_def)
    moreover have "(udpSize d \<noteq> 0 \<longrightarrow> has_opt res' \<longrightarrow> hasEDNS0 d) \<and> (has_opt res' \<longrightarrow> hasEDNS0 d \<or> has_opt (Req d))"
      using edns [of d1] c(6) that(2) r by (auto simp: same_flags_def)
    ultimately show ?thesis using c by auto
  qed
  obtain hit d1 p1 job where 1: "(if works then replyFromCache E p d else Some (False, d, p, None)) = Some (hit, d1, p1, job)"
    "proxy_inv E p1" "same_request_ctx d d1" "same_flags d d1"
    "if hit then \<exists>res. Res d1 = Some res \<and> answers (Req d) res else d1 = d"
    "works \<longrightarrow> cache_at p1 (cacheForContext d) \<noteq> None"
  proof (cases works)
    case True
    with assms(4) obtain c where "cache_at p (cacheForContext d) = Some c" by auto
    from replyFromCache_total [OF assms(1-3) this] obtain hit d1 c' job where
      "replyFromCache E p d = Some (hit, d1, put_cache (cacheForContext d) c' p, job)"
      "proxy_inv E (put_cache (cacheForContext d) c' p)" "same_request_ctx d d1" "same_flags d d1"
      "if hit then \<exists>res. Res d1 = Some res \<and> answers (Req d) res else d1 = d" by blast
    moreover have "cache_at (put_cache (cacheForContext d) c' p) (cacheForContext d) = Some c'"
      by (simp add: cache_at_def put_cache_def split: cache_ref.splits)
    ultimately show ?thesis using True by (intro that [of hit d1 "put_cache (cacheForContext d) c' p" job]) simp_all
  next
    case False
    then show ?thesis using assms(2)
      by (intro that [of False d p None]) (simp_all add: same_request_ctx_def same_flags_def)
  qed
  show ?thesis
  proof (cases hit)
    case True
    with 1(5) obtain res where "Res d1 = Some res" "answers (Req d) res" by auto
    from finish [OF 1(3,4) this] obtain d' res' where
      c: "complete_response ?L d1 = Some d'" "Res d' = Some res'" "answers (Req d) res'" "m_Compress res'"
        "same_request_ctx d d'" "udpSize d \<noteq> 0 \<longrightarrow> has_opt res' \<longrightarrow> hasEDNS0 d"
        "has_opt res' \<longrightarrow> hasEDNS0 d \<or> has_opt (Req d)"
        "\<forall>r \<in> set (m_Answer res'). keep_rr (doBit d) (q_Qtype (hd (m_Question (Req d)))) r" by blast
    have "resolve_work E p works d = Some (None, d', p1, job)"
      using 1(1) True c(1) by (simp add: resolve_work_def)
    with 1(2) c show ?thesis by blast
  next
    case False
    then have d1: "d1 = d" using 1(5) by simp
    from replyFromUpstream_total [OF assms(1) 1(2) assms(3)] obtain ok err d2 rd s res where
      2: "replyFromUpstream E p1 d = Some (ok, err, d2, p1\<lparr>px_recDetector := rd, px_exch := s\<rparr>)"
      "rd_ok (pe_gl E) rd \<and> rtt_inv (es_rtt s)" "same_request_ctx d d2" "same_flags d d2" "Res d2 = Some res" "answers (Req d) res" by blast
    let ?p2 = "p1\<lparr>px_recDetector := rd, px_exch := s\<rparr>"
    have inv2: "proxy_inv E ?p2" using 1(2) 2(2) by (simp add: proxy_inv_def)
    have ctx2: "ctx_ok d2" using assms(3) 2(3) by (simp add: ctx_ok_def same_request_ctx_def)
    have ref2: "cacheForContext d2 = cacheForContext d" using 2(3) by (simp add: cacheForContext_def same_request_ctx_def)
    obtain p3 where 3: "(if works \<and> ok \<and> (case Res d2 of Some res \<Rightarrow> \<not> m_CheckingDisabled res | None \<Rightarrow> False)
             then cacheResp E ?p2 d2 else Some ?p2) = Some p3" "proxy_inv E p3"
    proof (cases "works \<and> ok \<and> (case Res d2 of Some res \<Rightarrow> \<not> m_CheckingDisabled res | None \<Rightarrow> False)")
      case True
      with 1(6) obtain c where "cache_at ?p2 (cacheForContext d2) = Some c"
        by (auto simp: ref2 cache_at_def split: cache_ref.splits)
      from cacheResp_total [OF assms(1) inv2 ctx2 this 2(5)] True that show ?thesis by auto
    next
      case False
      with inv2 that show ?thesis by auto
    qed
    from finish [OF 2(3-6)] obtain d' res' where
      4: "complete_response ?L d2 = Some d'" "Res d' = Some res'" "answers (Req d) res'" "m_Compress res'"
        "same_request_ctx d d'" "udpSize d \<noteq> 0 \<longrightarrow> has_opt res' \<longrightarrow> hasEDNS0 d"
        "has_opt res' \<longrightarrow> hasEDNS0 d \<or> has_opt (Req d)"
        "\<forall>r \<in> set (m_Answer res'). keep_rr (doBit d) (q_Qtype (hd (m_Question (Req d)))) r" by blast
    have "resolve_work E p works d = Some (err, d', p3, None)"
      using 1(1) False d1 2(1) 3(1) 4(1) by (simp add: resolve_work_def)
    with 3(2) 4 show ?thesis by blast
  qed
qed

subsection \<open>A sample proxy\<close>

definition sample_upstream :: "nat exchange_fun" where
  "sample_upstream u req = (if length (m_Question req) = 1
     then Inr (Some ((sample_reply empty_Msg req)\<lparr>m_Rcode := (if u = 0 then 3 else 0), m_Answer := [sample_rr 60]\<rparr>))
     else Inl (ErrMsg ''bad request''))"

definition sample_dns64 :: dns64_env where
  "sample_dns64 = sample_env\<lparr>IPToAddr := sample_to_addr\<rparr>"

definition sample_proxy_env :: "(nat, bytes \<Rightarrow> bytes option) proxy_env" where
  "sample_proxy_env = \<lparr> pe_lib = sample_lib sample_resp, pe_gl = map_glcache, pe_dns64 = sample_dns64,
     pe_values = remdups, pe_ex = sample_upstream, pe_addr = (\<lambda>_. ''up''), pe_elapsed = (\<lambda>_ _. 0),
     pe_arrivals = (\<lambda>ups _. [0..<length ups]), pe_take = (\<lambda>ws. [0..<length ws]), pe_pings = (\<lambda>_. []),
     pe_observe = (\<lambda>ws. ws), pe_now = 0, pe_newId = 7, pe_privateNets = (\<lambda>_. False), pe_special = (\<lambda>_. False),
     pe_extract = (\<lambda>_. Inl (ErrMsg ''not an arpa name'')) \<rparr>"

definition sample_proxy :: "(nat, bytes \<Rightarrow> bytes option) Proxy" where
  "sample_proxy = \<lparr> px_enableEDNSClientSubnet = False, px_ednsAddr = None, px_dnsSecEnabled = True,
     px_refuseAny = True, px_usePrivateRDNS = False,
     px_upstreamConf = Some \<lparr> DomainReservedUpstreams = [], SpecifiedDomainUpstreams = [],
       SubdomainExclusions = {}, Upstreams = [0] \<rparr>,
     px_private = None, px_fallbacks = None, px_mode = UpstreamModeLoadBalance, px_dns64Prefs = [],
     px_bogusNXDomain = [], px_cacheMinTTL = 0, px_cacheMaxTTL = 0,
     px_cache = Some (newCache map_glcache \<lparr> cfg_size = 0, cfg_optimisticTTL = 0, cfg_optimisticMaxAge = 0,
        cfg_withECS = False, cfg_optimistic = False \<rparr>),
     px_custom = (\<lambda>_. None), px_recDetector = newRecursionDetector map_glcache recursionTTL 1000,
     px_exch = \<lparr> es_rtt = (\<lambda>_. None), es_fast = sample_fast \<rparr> \<rparr>"

definition sample_ctx :: "nat DNSContext" where
  "sample_ctx = fst (newDNSContext 0 ProtoUDP sample_req \<lparr> ap_Addr = Addr4 [192, 0, 2, 9], ap_Port = 53 \<rparr>)"

lemma sample_dns64_law: "dns64_env_law sample_dns64"
  using sample_env_law
  by (auto simp: dns64_env_law_def sample_dns64_def sample_to_addr_def To4_def Let_def split: if_splits)

lemma sample_upstream_answers: "sample_upstream u req = Inr (Some m) \<Longrightarrow> answers req m"
  by (auto simp: sample_upstream_def answers_def sample_reply_def length_1_conv split: if_splits)

lemma sample_env_ok: "env_ok sample_proxy_env"
proof -
  have "exch_env_ok (wrapped_env sample_proxy_env ups) [0..<length ups]" for ups
    by (auto simp: exch_env_ok_def wrapped_env_def sample_proxy_env_def sample_dns64_def sample_to_addr_law
        sampler_law_def dest: sample_upstream_answers)
  moreover have "cache_libs (sample_lib sample_resp) map_glcache" by (rule sample_cache_libs)
  moreover have "lib_Truncate_law (sample_lib sample_resp)"
    by (simp add: lib_Truncate_law_def sample_lib_def Let_def)
  moreover have "map ws_upstream (upstreamsWithStats ups) = ups" for ups :: "nat list"
    by (simp add: upstreamsWithStats_def comp_def)
  ultimately show ?thesis
    using sample_edns_law sample_SetEdns0_law sample_dns64_law sample_upstream_answers
    by (auto simp: env_ok_def sample_proxy_env_def)
qed

lemma sample_proxy_inv: "proxy_inv sample_proxy_env sample_proxy"
proof -
  have "cache_inv (sample_lib sample_resp) map_glcache (newCache map_glcache conf)" for conf
    by (rule newCache_inv [OF sample_cache_libs])
  then show ?thesis
    using rd_ok_new [OF map_glcache_law, of recursionTTL 1000]
    by (simp add: proxy_inv_def cache_ok_def sample_proxy_def sample_proxy_env_def rtt_inv_def rtt_get_def
        zero_stats_def prefs_ok_def config_safe_def getUpstreamsForDomain_def)
qed

lemma sample_ctx_ok: "ctx_ok sample_ctx"
  by (simp add: ctx_ok_def sample_ctx_def newDNSContext_def)

subsection \<open>Resolving a request\<close>

lemma addDO_header:
  assumes "lib_SetEdns0_law L"
  shows "m_Id (addDO L b m) = m_Id m" "m_Question (addDO L b m) = m_Question m"
    "m_CheckingDisabled (addDO L b m) = m_CheckingDisabled m"
proof -
  obtain o' where "lib_SetEdns0 L defaultUDPBufSize True m = m\<lparr>m_Extra := m_Extra m @ [o']\<rparr>"
    using SetEdns0_other_fields [OF assms, of defaultUDPBufSize True m] by blast
  then show "m_Id (addDO L b m) = m_Id m" "m_Question (addDO L b m) = m_Question m"
    "m_CheckingDisabled (addDO L b m) = m_CheckingDisabled m"
    by (simp_all add: addDO_def Let_def split: option.splits)
qed

lemma setECS_header:
  "setECS L m ip sc = (n, m') \<Longrightarrow> m_Id m' = m_Id m \<and> m_Question m' = m_Question m"
  by (auto simp: setECS_def Let_def split: option.splits if_splits)

lemma processECS_frame:
  "m_Id (Req (processECS L sp ip d)) = m_Id (Req d) \<and> m_Question (Req (processECS L sp ip d)) = m_Question (Req d) \<and>
   Custom (processECS L sp ip d) = Custom d"
  by (auto simp: processECS_def Let_def split: option.splits prod.splits dest: setECS_header)

lemma cacheWorks_addDO:
  "lib_SetEdns0_law L \<Longrightarrow> cacheWorks b (d\<lparr>Req := addDO L ds (Req d)\<rparr>) = cacheWorks b d"
  by (simp add: cacheWorks_def addDO_header)

lemma resolve_prepare_frame:
  assumes "lib_SetEdns0_law (pe_lib E)" "resolve_prepare E p d = (works, d1)"
  shows "m_Id (Req d1) = m_Id (Req d)" "m_Question (Req d1) = m_Question (Req d)" "Custom d1 = Custom d"
    "works \<Longrightarrow> cacheWorks (px_cache p \<noteq> None) d1"
proof -
  let ?d = "if px_enableEDNSClientSubnet p then processECS (pe_lib E) (pe_special E) (px_ednsAddr p) d else d"
  have frame: "m_Id (Req ?d) = m_Id (Req d)" "m_Question (Req ?d) = m_Question (Req d)" "Custom ?d = Custom d"
    by (simp_all add: processECS_frame)
  let ?c = "calcFlagsAndSize (pe_lib E) ?d"
  from assms(2) have d1: "d1 = (if cacheWorks (px_cache p \<noteq> None) ?c
      then ?c\<lparr>Req := addDO (pe_lib E) (px_dnsSecEnabled p) (Req ?c)\<rparr> else ?c)" "works = cacheWorks (px_cache p \<noteq> None) ?c"
    by (auto simp: resolve_prepare_def Let_def split: if_splits)
  then show "m_Id (Req d1) = m_Id (Req d)" "m_Question (Req d1) = m_Question (Req d)" "Custom d1 = Custom d"
    using frame by (simp_all add: addDO_header [OF assms(1)])
  show "works \<Longrightarrow> cacheWorks (px_cache p \<noteq> None) d1"
    using d1 cacheWorks_addDO [OF assms(1), where b = "px_cache p \<noteq> None" and d = ?c and ds = "px_dnsSecEnabled p"] by simp
qed

lemma cacheWorks_cache:
  assumes "cacheWorks (px_cache p \<noteq> None) d"
    and "\<forall>c k. Custom d = Some c \<longrightarrow> cu_cache c = Some k \<longrightarrow> px_custom p k \<noteq> None"
  shows "cache_at p (cacheForContext d) \<noteq> None"
  using assms by (auto simp: cacheWorks_def cacheForContext_def cache_at_def split: option.splits if_splits)

lemma calcFlags_fresh:
  assumes "lib_edns_law L" "udpSize d = 0" "\<not> hasEDNS0 d" "\<not> doBit d"
  shows "hasEDNS0 (calcFlagsAndSize L d) = has_opt (Req d)" "doBit (calcFlagsAndSize L d) = msg_Do L (Req d)"
  using assms(2-4) IsEdns0_has_opt [OF assms(1), of "Req d"]
  by (auto simp: calcFlagsAndSize_def msg_Do_def Let_def split: option.splits)



end
