(* ===== verification/Pending_Requests.thy ===== *)
theory Pending_Requests
  imports Proxy_Resolve
begin

text \<open>
  Identical requests in progress (\<^verbatim>\<open>proxy/pending.go\<close>) and \<^verbatim>\<open>Proxy.Resolve\<close> as a system of
  concurrent requests: a request that finds an identical one in progress waits for
  its result.  Channels are modelled by whether they are closed; a pending
  request is named by a number, since it is shared by pointer.
\<close>

subsection \<open>Pending requests\<close>

record 'u pendingRequest =
  pr_finished :: bool
  pr_resolveErr :: "error option"
  pr_clone :: "('u option \<times> QueryStatistics option \<times> Msg option) option"

record 'u pendingStore =
  ps_storage :: "bytes \<Rightarrow> nat option"
  ps_requests :: "'u pendingRequest list"

definition newDefaultPendingRequests :: "'u pendingStore" where
  "newDefaultPendingRequests = \<lparr> ps_storage = (\<lambda>_. None), ps_requests = [] \<rparr>"

text \<open>The implementation: \<^term>\<open>None\<close> is the one that tracks nothing.\<close>

type_synonym 'u pendingRequests = "'u pendingStore option"

definition pendingRequestsOrDefault :: "bool option \<Rightarrow> 'u pendingRequests" where
  "pendingRequestsOrDefault conf = (if conf = Some True then Some newDefaultPendingRequests else None)"

text \<open>The key of a request, \<^term>\<open>Some None\<close> if its subnet is not valid.\<close>

definition pending_key :: "dnslib \<Rightarrow> 'u DNSContext \<Rightarrow> bytes option go" where
  "pending_key L d = (if ReqECS d \<noteq> None then (case cacheSubnet (ReqECS d) of
        None \<Rightarrow> Some None
      | Some (ip, ones) \<Rightarrow> map_option Some (msgToKeyWithSubnet L (Req d) ip ones))
    else map_option Some (msgToKey L (Req d)))"

text \<open>
  \<^verbatim>\<open>queue\<close> up to the point where it returns or blocks: \<^term>\<open>None\<close> to proceed, or
  the pending request to wait for.
\<close>

definition queue :: "dnslib \<Rightarrow> 'u DNSContext \<Rightarrow> 'u pendingRequests \<Rightarrow> (nat option \<times> 'u pendingRequests) go" where
  "queue L d prs = (case prs of
      None \<Rightarrow> Some (None, None)
    | Some s \<Rightarrow> do {
        key \<leftarrow> pending_key L d;
        Some (case key of
            None \<Rightarrow> (None, Some s)
          | Some k \<Rightarrow> (case ps_storage s k of
                Some i \<Rightarrow> (Some i, Some s)
              | None \<Rightarrow> (None, Some
                  \<lparr> ps_storage = (ps_storage s)(k \<mapsto> length (ps_requests s)),
                    ps_requests = ps_requests s @ [\<lparr> pr_finished = False, pr_resolveErr = None, pr_clone = None \<rparr>] \<rparr>))) })"

text \<open>What follows in \<^verbatim>\<open>queue\<close> once the channel of the pending request is closed.\<close>

definition queue_resume :: "dnslib \<Rightarrow> 'u DNSContext \<Rightarrow> 'u pendingRequest \<Rightarrow> (error option \<times> 'u DNSContext) go" where
  "queue_resume L d pr = do {
     (u, stats, res) \<leftarrow> pr_clone pr;
     let d = d\<lparr>queryStatistics := stats, Upstream := u\<rparr>;
     Some (pr_resolveErr pr,
       case res of None \<Rightarrow> d | Some m \<Rightarrow> d\<lparr>Res := Some (lib_SetReply L m (Req d))\<rparr>) }"

definition done_request :: "dnslib \<Rightarrow> 'u DNSContext \<Rightarrow> error option \<Rightarrow> 'u pendingRequests \<Rightarrow> 'u pendingRequests go" where
  "done_request L d err prs = (case prs of
      None \<Rightarrow> Some None
    | Some s \<Rightarrow> do {
        key \<leftarrow> pending_key L d;
        case key of
          None \<Rightarrow> Some (Some s)
        | Some k \<Rightarrow> do {
            i \<leftarrow> ps_storage s k;
            pr \<leftarrow> go_index (ps_requests s) i;
            if pr_finished pr then None
            else Some (Some
              \<lparr> ps_storage = (ps_storage s)(k := None),
                ps_requests = (ps_requests s)[i := \<lparr> pr_finished = True, pr_resolveErr = err,
                  pr_clone = Some (Upstream d, queryStatistics d, Res d) \<rparr>] \<rparr>) } })"

subsection \<open>Concurrent requests\<close>

text \<open>
  A request not yet resolved, at work (with the flag \<^verbatim>\<open>cacheWorks\<close>), with its result
  but before the deferred \<^verbatim>\<open>done\<close>, waiting, or finished.
\<close>

datatype 'u thread =
    Fresh "'u DNSContext"
  | Working bool "'u DNSContext"
  | Worked "error option" "'u DNSContext"
  | Waiting nat "'u DNSContext"
  | Finished "error option" "'u DNSContext"

record ('u, 'c) system =
  sy_proxy :: "('u, 'c) Proxy"
  sy_pending :: "'u pendingRequests"
  sy_threads :: "nat \<Rightarrow> 'u thread option"

definition set_thread :: "nat \<Rightarrow> 'u thread \<Rightarrow> ('u, 'c) system \<Rightarrow> ('u, 'c) system" where
  "set_thread t x s = s\<lparr>sy_threads := (sy_threads s)(t \<mapsto> x)\<rparr>"

text \<open>
  The steps of \<^verbatim>\<open>Resolve\<close>: a request arrives, it is queued or not, the work is done in the
  environment of that moment (the library stays the same), and waiters are
  released by the closed channel.
\<close>

inductive resolve_step :: "dnslib \<Rightarrow> ('u, 'c) system \<Rightarrow> ('u, 'c) system \<Rightarrow> bool" for L where
  arrive: "sy_threads s t = None \<Longrightarrow> resolve_step L s (set_thread t (Fresh d) s)"
| bypass: "sy_threads s t = Some (Fresh d) \<Longrightarrow> pe_lib E = L \<Longrightarrow>
    resolve_prepare E (sy_proxy s) d = (False, d') \<Longrightarrow>
    resolve_step L s (set_thread t (Working False d') s)"
| enqueue: "sy_threads s t = Some (Fresh d) \<Longrightarrow> pe_lib E = L \<Longrightarrow>
    resolve_prepare E (sy_proxy s) d = (True, d') \<Longrightarrow>
    queue L d' (sy_pending s) = Some (r, prs) \<Longrightarrow>
    resolve_step L s (set_thread t (case r of None \<Rightarrow> Working True d' | Some i \<Rightarrow> Waiting i d')
      (s\<lparr>sy_pending := prs\<rparr>))"
| work: "sy_threads s t = Some (Working True d) \<Longrightarrow> pe_lib E = L \<Longrightarrow>
    resolve_work E (sy_proxy s) True d = Some (err, d', p', job) \<Longrightarrow>
    resolve_step L s (set_thread t (Worked err d') (s\<lparr>sy_proxy := p'\<rparr>))"
| finish: "sy_threads s t = Some (Worked err d) \<Longrightarrow>
    done_request L d err (sy_pending s) = Some prs \<Longrightarrow>
    resolve_step L s (set_thread t (Finished err d) (s\<lparr>sy_pending := prs\<rparr>))"
| finish_bypass: "sy_threads s t = Some (Working False d) \<Longrightarrow> pe_lib E = L \<Longrightarrow>
    resolve_work E (sy_proxy s) False d = Some (err, d', p', job) \<Longrightarrow>
    resolve_step L s (set_thread t (Finished err d') (s\<lparr>sy_proxy := p'\<rparr>))"
| resume: "sy_threads s t = Some (Waiting i d) \<Longrightarrow> sy_pending s = Some ps \<Longrightarrow>
    go_index (ps_requests ps) i = Some pr \<Longrightarrow> pr_finished pr \<Longrightarrow>
    queue_resume L d pr = Some (err, d') \<Longrightarrow>
    resolve_step L s (set_thread t (Finished err d') s)"

inductive reachable :: "dnslib \<Rightarrow> ('u, 'c) Proxy \<Rightarrow> ('u, 'c) system \<Rightarrow> bool" for L p where
  start: "reachable L p \<lparr> sy_proxy = p, sy_pending = Some newDefaultPendingRequests, sy_threads = (\<lambda>_. None) \<rparr>"
| step: "reachable L p s \<Longrightarrow> resolve_step L s s' \<Longrightarrow> reachable L p s'"

subsection \<open>Resolving keeps the request\<close>

lemma handleExchangeResult_same: "same_request_ctx d (handleExchangeResult L lo hi d req resp u)"
  by (auto simp: handleExchangeResult_def same_request_ctx_def split: option.splits)

lemma complete_same: "complete_response L d = Some d' \<Longrightarrow> same_request_ctx d d'"
  by (auto simp: complete_response_def scrub_def same_request_ctx_def Let_def split: option.splits Option.bind_splits)

lemma replyFromCache_same: "replyFromCache E p d = Some (hit, d', p', job) \<Longrightarrow> same_request_ctx d d'"
  by (auto simp: replyFromCache_def same_request_ctx_def Let_def
      split: Option.bind_splits option.splits prod.splits)

lemma handleExchangeResult_stats_same:
  "same_request_ctx d (handleExchangeResult L lo hi (d\<lparr>queryStatistics := st\<rparr>) req resp u)"
  using handleExchangeResult_same [of "d\<lparr>queryStatistics := st\<rparr>" L lo hi req resp u]
  by (simp add: same_request_ctx_def)

lemma replyFromUpstream_same: "replyFromUpstream E p d = Some (ok, err, d', p') \<Longrightarrow> same_request_ctx d d'"
  by (auto simp: replyFromUpstream_def bind_eq_Some_conv Let_def split_beta
      intro: handleExchangeResult_stats_same simp: same_request_ctx_def [of d "d\<lparr>Res := m\<rparr>" for m] split: if_splits)

lemma same_request_ctx_trans:
  "same_request_ctx a b \<Longrightarrow> same_request_ctx b c \<Longrightarrow> same_request_ctx a c"
  by (simp add: same_request_ctx_def)

lemma resolve_work_same:
  assumes "resolve_work E p works d = Some (err, d', p', job)"
  shows "same_request_ctx d d'"
proof -
  from assms obtain hit d1 p1 j1 where
    1: "(if works then replyFromCache E p d else Some (False, d, p, None)) = Some (hit, d1, p1, j1)"
    and rest: "(if hit then do { d \<leftarrow> complete_response (pe_lib E) d1; Some (None, d, p1, j1) }
      else do {
       (ok, err, d, p) \<leftarrow> replyFromUpstream E p1 d1;
       p \<leftarrow> (if works \<and> ok \<and> (case Res d of Some res \<Rightarrow> \<not> m_CheckingDisabled res | None \<Rightarrow> False)
             then cacheResp E p d else Some p);
       d \<leftarrow> complete_response (pe_lib E) d;
       Some (err, d, p, None) }) = Some (err, d', p', job)"
    unfolding resolve_work_def by (auto split: Option.bind_splits)
  have d1: "same_request_ctx d d1"
    using 1 replyFromCache_same [of E p d hit d1 p1 j1] by (cases works) (simp_all add: same_request_ctx_def)
  show ?thesis
  proof (cases hit)
    case True
    with rest have "complete_response (pe_lib E) d1 = Some d'" by (auto split: Option.bind_splits)
    with d1 complete_same same_request_ctx_trans show ?thesis by blast
  next
    case False
    with rest obtain ok e d2 p2 where "replyFromUpstream E p1 d1 = Some (ok, e, d2, p2)"
      "complete_response (pe_lib E) d2 = Some d'" by (auto split: Option.bind_splits)
    then have "same_request_ctx d1 d2" "same_request_ctx d2 d'" using replyFromUpstream_same complete_same by blast+
    with d1 show ?thesis by (simp add: same_request_ctx_def)
  qed
qed

lemma pending_key_same: "same_request_ctx d d' \<Longrightarrow> pending_key L d' = pending_key L d"
  by (simp add: same_request_ctx_def pending_key_def split: option.splits)

subsection \<open>The invariant of the system\<close>

text \<open>The requests between \<^verbatim>\<open>queue\<close> and \<^verbatim>\<open>done\<close>, with their contexts.\<close>

definition tracked :: "('u, 'c) system \<Rightarrow> nat \<Rightarrow> 'u DNSContext \<Rightarrow> bool" where
  "tracked s t d \<longleftrightarrow> sy_threads s t = Some (Working True d) \<or> (\<exists>err. sy_threads s t = Some (Worked err d))"

definition owner :: "dnslib \<Rightarrow> ('u, 'c) system \<Rightarrow> bytes \<Rightarrow> nat \<Rightarrow> bool" where
  "owner L s k t \<longleftrightarrow> (\<exists>d. tracked s t d \<and> pending_key L d = Some (Some k))"

text \<open>The result a finished pending request holds is the one of a finished request with the same key.\<close>

definition result_of :: "dnslib \<Rightarrow> ('u, 'c) system \<Rightarrow> bytes \<Rightarrow> 'u pendingRequest \<Rightarrow> bool" where
  "result_of L s k pr \<longleftrightarrow> (\<exists>t err d. sy_threads s t = Some (Finished err d) \<and> pending_key L d = Some (Some k) \<and>
     pr = \<lparr> pr_finished = True, pr_resolveErr = err, pr_clone = Some (Upstream d, queryStatistics d, Res d) \<rparr>)"

definition waits_ok :: "dnslib \<Rightarrow> ('u, 'c) system \<Rightarrow> 'u pendingStore \<Rightarrow> nat \<Rightarrow> bytes \<Rightarrow> bool" where
  "waits_ok L s ps i k \<longleftrightarrow> i < length (ps_requests ps) \<and>
     (if pr_finished (ps_requests ps ! i) then result_of L s k (ps_requests ps ! i) else ps_storage ps k = Some i)"

definition pending_inv :: "dnslib \<Rightarrow> ('u, 'c) system \<Rightarrow> bool" where
  "pending_inv L s \<longleftrightarrow> (\<exists>ps. sy_pending s = Some ps \<and>
     (\<forall>k i. ps_storage ps k = Some i \<longrightarrow> i < length (ps_requests ps) \<and> \<not> pr_finished (ps_requests ps ! i)) \<and>
     (\<forall>k k' i. ps_storage ps k = Some i \<longrightarrow> ps_storage ps k' = Some i \<longrightarrow> k = k') \<and>
     (\<forall>k. ps_storage ps k \<noteq> None \<longleftrightarrow> (\<exists>t. owner L s k t)) \<and>
     (\<forall>k t t'. owner L s k t \<longrightarrow> owner L s k t' \<longrightarrow> t = t') \<and>
     (\<forall>t i d. sy_threads s t = Some (Waiting i d) \<longrightarrow> (\<exists>k. pending_key L d = Some (Some k) \<and> waits_ok L s ps i k)))"

lemma pending_invD:
  assumes "pending_inv L s" "sy_pending s = Some ps"
  shows "ps_storage ps k = Some i \<Longrightarrow> i < length (ps_requests ps) \<and> \<not> pr_finished (ps_requests ps ! i)"
    "ps_storage ps k = Some i \<Longrightarrow> ps_storage ps k' = Some i \<Longrightarrow> k = k'"
    "ps_storage ps k \<noteq> None \<longleftrightarrow> (\<exists>t. owner L s k t)"
    "owner L s k t \<Longrightarrow> owner L s k t' \<Longrightarrow> t = t'"
    "sy_threads s t = Some (Waiting i d) \<Longrightarrow> \<exists>k. pending_key L d = Some (Some k) \<and> waits_ok L s ps i k"
proof -
  from assms have *: "(\<forall>k i. ps_storage ps k = Some i \<longrightarrow> i < length (ps_requests ps) \<and> \<not> pr_finished (ps_requests ps ! i)) \<and>
     (\<forall>k k' i. ps_storage ps k = Some i \<longrightarrow> ps_storage ps k' = Some i \<longrightarrow> k = k') \<and>
     (\<forall>k. ps_storage ps k \<noteq> None \<longleftrightarrow> (\<exists>t. owner L s k t)) \<and>
     (\<forall>k t t'. owner L s k t \<longrightarrow> owner L s k t' \<longrightarrow> t = t') \<and>
     (\<forall>t i d. sy_threads s t = Some (Waiting i d) \<longrightarrow> (\<exists>k. pending_key L d = Some (Some k) \<and> waits_ok L s ps i k))"
    unfolding pending_inv_def by auto
  then show "ps_storage ps k = Some i \<Longrightarrow> i < length (ps_requests ps) \<and> \<not> pr_finished (ps_requests ps ! i)"
    "ps_storage ps k = Some i \<Longrightarrow> ps_storage ps k' = Some i \<Longrightarrow> k = k'"
    "ps_storage ps k \<noteq> None \<longleftrightarrow> (\<exists>t. owner L s k t)"
    "owner L s k t \<Longrightarrow> owner L s k t' \<Longrightarrow> t = t'"
    "sy_threads s t = Some (Waiting i d) \<Longrightarrow> \<exists>k. pending_key L d = Some (Some k) \<and> waits_ok L s ps i k"
    by blast+
qed

lemma pending_invI:
  assumes "sy_pending s = Some ps"
    and "\<And>k i. ps_storage ps k = Some i \<Longrightarrow> i < length (ps_requests ps) \<and> \<not> pr_finished (ps_requests ps ! i)"
    and "\<And>k k' i. ps_storage ps k = Some i \<Longrightarrow> ps_storage ps k' = Some i \<Longrightarrow> k = k'"
    and "\<And>k. ps_storage ps k \<noteq> None \<longleftrightarrow> (\<exists>t. owner L s k t)"
    and "\<And>k t t'. owner L s k t \<Longrightarrow> owner L s k t' \<Longrightarrow> t = t'"
    and "\<And>t i d. sy_threads s t = Some (Waiting i d) \<Longrightarrow> \<exists>k. pending_key L d = Some (Some k) \<and> waits_ok L s ps i k"
  shows "pending_inv L s"
  unfolding pending_inv_def using assms by blast

lemma result_of_pending [simp]: "result_of L (s\<lparr>sy_pending := x\<rparr>) = result_of L s"
  by (simp add: result_of_def fun_eq_iff)

lemma owner_pending [simp]: "owner L (s\<lparr>sy_pending := x\<rparr>) = owner L s"
  by (simp add: owner_def tracked_def fun_eq_iff)

text \<open>A step that changes only one request, neither tracked before nor after, or tracked with the same key.\<close>

lemma owner_set_thread:
  "owner L (set_thread t x s) k t' \<longleftrightarrow> (if t' = t then \<exists>d. (x = Working True d \<or> (\<exists>err. x = Worked err d)) \<and>
      pending_key L d = Some (Some k) else owner L s k t')"
  by (auto simp: owner_def tracked_def set_thread_def)

lemma result_of_set_thread:
  assumes "\<forall>err d. sy_threads s t \<noteq> Some (Finished err d)" "result_of L s k pr"
  shows "result_of L (set_thread t x s) k pr"
  using assms unfolding result_of_def set_thread_def by fastforce

lemma waits_ok_set_thread:
  assumes "\<forall>err d. sy_threads s t \<noteq> Some (Finished err d)" "waits_ok L s ps i k"
  shows "waits_ok L (set_thread t x s) ps i k"
  using assms result_of_set_thread [OF assms(1)] by (auto simp: waits_ok_def split: if_splits)

lemma set_thread_sel [simp]:
  "sy_pending (set_thread t x s) = sy_pending s" "sy_proxy (set_thread t x s) = sy_proxy s"
  "sy_threads (set_thread t x s) = (sy_threads s)(t \<mapsto> x)"
  by (simp_all add: set_thread_def)

text \<open>
  The steps that leave the pending requests alone: the request that moves was not finished, is
  not waiting afterwards, and owns the same keys as before.
\<close>

lemma pending_inv_set_thread:
  assumes "pending_inv L s" "\<forall>err d. sy_threads s t \<noteq> Some (Finished err d)"
    and "\<forall>k. owner L (set_thread t x s) k t = owner L s k t" "\<forall>i d. x \<noteq> Waiting i d"
  shows "pending_inv L (set_thread t x s)"
proof -
  obtain ps where ps: "sy_pending s = Some ps" using assms(1) by (auto simp: pending_inv_def)
  note inv = pending_invD [OF assms(1) ps]
  have own: "owner L (set_thread t x s) k t' = owner L s k t'" for k t'
    using assms(3) by (cases "t' = t") (simp_all add: owner_set_thread)
  have wait: "\<exists>k. pending_key L d = Some (Some k) \<and> waits_ok L (set_thread t x s) ps i k"
    if "sy_threads (set_thread t x s) t' = Some (Waiting i d)" for t' i d
    using that assms(4) inv(5) [of t' i d] waits_ok_set_thread [OF assms(2)] by (auto split: if_splits)
  show ?thesis
  proof (rule pending_invI)
    show "sy_pending (set_thread t x s) = Some ps" using ps by simp
    show "ps_storage ps k \<noteq> None \<longleftrightarrow> (\<exists>t'. owner L (set_thread t x s) k t')" for k
      unfolding own by (rule inv(3))
    show "t1 = t2" if "owner L (set_thread t x s) k t1" "owner L (set_thread t x s) k t2" for k t1 t2
      using that unfolding own by (rule inv(4))
    show "i < length (ps_requests ps) \<and> \<not> pr_finished (ps_requests ps ! i)" if "ps_storage ps k = Some i" for k i
      using that by (rule inv(1))
    show "k = k'" if "ps_storage ps k = Some i" "ps_storage ps k' = Some i" for k k' i
      using that by (rule inv(2))
    show "\<exists>k. pending_key L d = Some (Some k) \<and> waits_ok L (set_thread t x s) ps i k"
      if "sy_threads (set_thread t x s) t' = Some (Waiting i d)" for t' i d
      using that by (rule wait)
  qed
qed

lemma pending_inv_proxy [simp]: "pending_inv L (s\<lparr>sy_proxy := p\<rparr>) = pending_inv L s"
  by (simp add: pending_inv_def owner_def tracked_def waits_ok_def result_of_def)

lemma owner_proxy [simp]: "owner L (s\<lparr>sy_proxy := p\<rparr>) = owner L s"
  by (simp add: owner_def tracked_def fun_eq_iff)

text \<open>A request becomes the owner of a new key.\<close>

lemma pending_inv_new:
  assumes "pending_inv L s" "sy_pending s = Some ps" "sy_threads s t = Some (Fresh d0)"
    and "pending_key L d = Some (Some k)" "ps_storage ps k = None"
  shows "pending_inv L (set_thread t (Working True d) (s\<lparr>sy_pending := Some
    \<lparr> ps_storage = (ps_storage ps)(k \<mapsto> length (ps_requests ps)),
      ps_requests = ps_requests ps @ [\<lparr> pr_finished = False, pr_resolveErr = None, pr_clone = None \<rparr>] \<rparr>\<rparr>))"
    (is "pending_inv L (set_thread t ?x ?s)")
proof -
  note inv = pending_invD [OF assms(1,2)]
  let ?ps = "\<lparr> ps_storage = (ps_storage ps)(k \<mapsto> length (ps_requests ps)),
      ps_requests = ps_requests ps @ [\<lparr> pr_finished = False, pr_resolveErr = None, pr_clone = None \<rparr>] \<rparr>"
  have own: "owner L (set_thread t ?x ?s) k' t' \<longleftrightarrow> (if t' = t then k' = k else owner L s k' t')" for k' t'
    unfolding owner_set_thread using assms(4) by (auto simp: owner_def tracked_def)
  have free: "\<not> owner L s k t'" for t' using inv(3) [of k] assms(5) by blast
  have fresh: "\<not> owner L s k' t" for k' using assms(3) by (simp add: owner_def tracked_def)
  have wait: "waits_ok L (set_thread t ?x ?s) ?ps i k'" if "waits_ok L s ps i k'" for i k'
  proof -
    have "result_of L (set_thread t ?x ?s) k' pr" if "result_of L s k' pr" for pr
      by (rule result_of_set_thread) (use that assms(3) in simp_all)
    with that assms(5) show ?thesis by (auto simp: waits_ok_def nth_append split: if_splits)
  qed
  show ?thesis
  proof (rule pending_invI)
    show "sy_pending (set_thread t ?x ?s) = Some ?ps" by simp
    show "i < length (ps_requests ?ps) \<and> \<not> pr_finished (ps_requests ?ps ! i)" if "ps_storage ?ps k' = Some i" for k' i
      using that inv(1) [of k' i] by (auto simp: nth_append split: if_splits)
    show "k1 = k2" if "ps_storage ?ps k1 = Some i" "ps_storage ?ps k2 = Some i" for k1 k2 i
      using that inv(1) [of k1 i] inv(1) [of k2 i] inv(2) [of k1 i k2] by (auto split: if_splits)
    show "ps_storage ?ps k' \<noteq> None \<longleftrightarrow> (\<exists>t'. owner L (set_thread t ?x ?s) k' t')" for k'
    proof (cases "k' = k")
      case True
      then show ?thesis unfolding own by auto
    next
      case False
      then have eq: "(if t' = t then k' = k else owner L s k' t') = owner L s k' t'" for t' using fresh by simp
      show ?thesis unfolding own eq using inv(3) [of k'] False by simp
    qed
    show "t1 = t2" if "owner L (set_thread t ?x ?s) k' t1" "owner L (set_thread t ?x ?s) k' t2" for k' t1 t2
      using that inv(4) [of k' t1 t2] free unfolding own by (auto split: if_splits)
    show "\<exists>k'. pending_key L d' = Some (Some k') \<and> waits_ok L (set_thread t ?x ?s) ?ps i k'"
      if "sy_threads (set_thread t ?x ?s) t' = Some (Waiting i d')" for t' i d'
      using that wait inv(5) [of t' i d'] by (auto split: if_splits)
  qed
qed

text \<open>A request starts to wait for the owner of its key.\<close>

lemma pending_inv_wait:
  assumes "pending_inv L s" "sy_pending s = Some ps" "sy_threads s t = Some (Fresh d0)"
    and "pending_key L d = Some (Some k)" "ps_storage ps k = Some i"
  shows "pending_inv L (set_thread t (Waiting i d) s)" (is "pending_inv L ?s")
proof -
  note inv = pending_invD [OF assms(1,2)]
  have own: "owner L ?s k' t' = owner L s k' t'" for k' t'
    unfolding owner_set_thread using assms(3) by (auto simp: owner_def tracked_def)
  have wait: "waits_ok L ?s ps j k'" if "waits_ok L s ps j k'" for j k'
    by (rule waits_ok_set_thread) (use that assms(3) in auto)
  have self: "waits_ok L s ps i k" using inv(1) [OF assms(5)] assms(5) by (simp add: waits_ok_def)
  show ?thesis
  proof (rule pending_invI)
    show "sy_pending ?s = Some ps" using assms(2) by simp
    show "ps_storage ps k \<noteq> None \<longleftrightarrow> (\<exists>t'. owner L ?s k t')" for k unfolding own by (rule inv(3))
    show "t1 = t2" if "owner L ?s k t1" "owner L ?s k t2" for k t1 t2 using that unfolding own by (rule inv(4))
    show "i < length (ps_requests ps) \<and> \<not> pr_finished (ps_requests ps ! i)" if "ps_storage ps k = Some i" for k i
      using that by (rule inv(1))
    show "k = k'" if "ps_storage ps k = Some i" "ps_storage ps k' = Some i" for k k' i
      using that by (rule inv(2))
    show "\<exists>k. pending_key L d' = Some (Some k) \<and> waits_ok L ?s ps j k"
      if "sy_threads ?s t' = Some (Waiting j d')" for t' j d'
      using that wait [OF self] wait inv(5) [of t' j d'] assms(4) by (auto split: if_splits)
  qed
qed

text \<open>The owner of a key publishes its result.\<close>

lemma pending_inv_done:
  assumes "pending_inv L s" "sy_pending s = Some ps" "sy_threads s t = Some (Worked err d)"
    and "pending_key L d = Some (Some k)" "ps_storage ps k = Some i"
  shows "pending_inv L (set_thread t (Finished err d) (s\<lparr>sy_pending := Some
    \<lparr> ps_storage = (ps_storage ps)(k := None),
      ps_requests = (ps_requests ps)[i := \<lparr> pr_finished = True, pr_resolveErr = err,
        pr_clone = Some (Upstream d, queryStatistics d, Res d) \<rparr>] \<rparr>\<rparr>))" (is "pending_inv L (set_thread t ?x ?s)")
proof -
  note inv = pending_invD [OF assms(1,2)]
  let ?pr = "\<lparr> pr_finished = True, pr_resolveErr = err, pr_clone = Some (Upstream d, queryStatistics d, Res d) \<rparr>"
  let ?ps = "\<lparr> ps_storage = (ps_storage ps)(k := None), ps_requests = (ps_requests ps)[i := ?pr] \<rparr>"
  have me: "owner L s k' t \<longleftrightarrow> k' = k" for k' using assms(3,4) by (auto simp: owner_def tracked_def)
  have own: "owner L (set_thread t ?x ?s) k' t' \<longleftrightarrow> t' \<noteq> t \<and> owner L s k' t'" for k' t'
    unfolding owner_set_thread by simp
  have res: "result_of L (set_thread t ?x ?s) k' pr" if "result_of L s k' pr" for k' pr
    by (rule result_of_set_thread) (use that assms(3) in auto)
  have new: "result_of L (set_thread t ?x ?s) k ?pr"
    unfolding result_of_def using assms(4) by (intro exI [of _ t] exI [of _ err] exI [of _ d]) simp
  have wait: "waits_ok L (set_thread t ?x ?s) ?ps j k'" if "waits_ok L s ps j k'" for j k'
  proof (cases "j = i")
    case True
    then have "ps_storage ps k' = Some i" using that inv(1) [OF assms(5)] by (simp add: waits_ok_def)
    then have "k' = k" using inv(2) assms(5) by blast
    with True new inv(1) [OF assms(5)] show ?thesis by (simp add: waits_ok_def)
  next
    case False
    then have "ps_storage ps k' = Some j \<Longrightarrow> k' \<noteq> k" using assms(5) by auto
    with False that res show ?thesis by (auto simp: waits_ok_def split: if_splits)
  qed
  show ?thesis
  proof (rule pending_invI)
    show "sy_pending (set_thread t ?x ?s) = Some ?ps" by simp
    show "j < length (ps_requests ?ps) \<and> \<not> pr_finished (ps_requests ?ps ! j)" if "ps_storage ?ps k' = Some j" for k' j
    proof -
      have "k' \<noteq> k" "ps_storage ps k' = Some j" using that by (auto split: if_splits)
      then have "j \<noteq> i" using inv(2) [of k' j k] assms(5) by auto
      with inv(1) [OF \<open>ps_storage ps k' = Some j\<close>] show ?thesis by simp
    qed
    show "k1 = k2" if "ps_storage ?ps k1 = Some j" "ps_storage ?ps k2 = Some j" for k1 k2 j
      using that inv(2) [of k1 j k2] by (auto split: if_splits)
    show "ps_storage ?ps k' \<noteq> None \<longleftrightarrow> (\<exists>t'. owner L (set_thread t ?x ?s) k' t')" for k'
    proof (cases "k' = k")
      case True
      then show ?thesis unfolding own using inv(4) [of k t] me by auto
    next
      case False
      then have eq: "(t' \<noteq> t \<and> owner L s k' t') = owner L s k' t'" for t' using me by auto
      show ?thesis unfolding own eq using inv(3) [of k'] False by simp
    qed
    show "t1 = t2" if "owner L (set_thread t ?x ?s) k' t1" "owner L (set_thread t ?x ?s) k' t2" for k' t1 t2
      using that inv(4) [of k' t1 t2] unfolding own by blast
    show "\<exists>k'. pending_key L d' = Some (Some k') \<and> waits_ok L (set_thread t ?x ?s) ?ps j k'"
      if "sy_threads (set_thread t ?x ?s) t' = Some (Waiting j d')" for t' j d'
      using that wait inv(5) [of t' j d'] by (auto split: if_splits)
  qed
qed

lemma pending_key_tracked_inv:
  assumes "pending_inv L s" "sy_pending s = Some ps" "tracked s t d" "pending_key L d = Some (Some k)"
  obtains i where "ps_storage ps k = Some i" "i < length (ps_requests ps)" "\<not> pr_finished (ps_requests ps ! i)"
proof -
  have "owner L s k t" using assms(3,4) by (auto simp: owner_def)
  then obtain i where "ps_storage ps k = Some i" using pending_invD(3) [OF assms(1,2), of k] by auto
  with pending_invD(1) [OF assms(1,2) this] that show ?thesis by blast
qed

text \<open>The effect of \<^verbatim>\<open>done\<close> for an owner, and that \<^verbatim>\<open>done\<close> does not panic for one.\<close>

lemma done_request_inv:
  assumes "pending_inv L s" "sy_threads s t = Some (Worked err d)" "pending_key L d \<noteq> None"
  shows "\<exists>prs. done_request L d err (sy_pending s) = Some prs \<and>
    pending_inv L (set_thread t (Finished err d) (s\<lparr>sy_pending := prs\<rparr>))"
proof -
  obtain ps where ps: "sy_pending s = Some ps" using assms(1) by (auto simp: pending_inv_def)
  show ?thesis
  proof (cases "pending_key L d")
    case (Some ko)
    show ?thesis
    proof (cases ko)
      case None
      have "pending_inv L (set_thread t (Finished err d) s)"
        using assms(1,2) Some None
        by (intro pending_inv_set_thread) (auto simp: owner_set_thread owner_def tracked_def)
      then have "pending_inv L (set_thread t (Finished err d) (s\<lparr>sy_pending := Some ps\<rparr>))"
        unfolding ps [symmetric] by simp
      moreover have "done_request L d err (sy_pending s) = Some (Some ps)"
        using ps Some None by (simp add: done_request_def)
      ultimately show ?thesis by blast
    next
      case (Some k)
      then have key: "pending_key L d = Some (Some k)" using \<open>pending_key L d = Some ko\<close> by simp
      have "tracked s t d" using assms(2) by (simp add: tracked_def)
      from pending_key_tracked_inv [OF assms(1) ps this key] obtain i where
        i: "ps_storage ps k = Some i" "i < length (ps_requests ps)" "\<not> pr_finished (ps_requests ps ! i)" .
      have "done_request L d err (sy_pending s) = Some (Some
          \<lparr> ps_storage = (ps_storage ps)(k := None),
            ps_requests = (ps_requests ps)[i := \<lparr> pr_finished = True, pr_resolveErr = err,
              pr_clone = Some (Upstream d, queryStatistics d, Res d) \<rparr>] \<rparr>)"
        using ps key i by (simp add: done_request_def go_index_def)
      with pending_inv_done [OF assms(1) ps assms(2) key i(1)] show ?thesis by blast
    qed
  qed (use assms(3) in simp)
qed

lemma enqueue_inv:
  assumes "pending_inv L s" "sy_threads s t = Some (Fresh d0)" "queue L d (sy_pending s) = Some (r, prs)"
  shows "pending_inv L (set_thread t (case r of None \<Rightarrow> Working True d | Some i \<Rightarrow> Waiting i d) (s\<lparr>sy_pending := prs\<rparr>))"
proof -
  obtain ps where ps: "sy_pending s = Some ps" using assms(1) by (auto simp: pending_inv_def)
  have id: "s\<lparr>sy_pending := Some ps\<rparr> = s" using ps by simp
  from assms(3) ps obtain ko where ko: "pending_key L d = Some ko"
    by (auto simp: queue_def split: Option.bind_splits)
  show ?thesis
  proof (cases ko)
    case None
    with ko have "pending_inv L (set_thread t (Working True d) s)"
      using assms(1,2) by (intro pending_inv_set_thread) (auto simp: owner_set_thread owner_def tracked_def)
    with assms(3) ps ko None id show ?thesis by (auto simp: queue_def)
  next
    case (Some k)
    show ?thesis
    proof (cases "ps_storage ps k")
      case None
      with pending_inv_new [OF assms(1) ps assms(2), of d k] assms(3) ps ko Some show ?thesis
        by (auto simp: queue_def)
    next
      case (Some i)
      have "r = Some i" "prs = Some ps" using assms(3) ps ko \<open>ko = Some k\<close> Some by (simp_all add: queue_def)
      moreover have "pending_inv L (set_thread t (Waiting i d) s)"
        using pending_inv_wait [OF assms(1) ps assms(2)] ko \<open>ko = Some k\<close> Some by simp
      ultimately show ?thesis by (simp only: id option.simps)
    qed
  qed
qed

lemma work_key: "resolve_work E p w d = Some (err, d', p', job) \<Longrightarrow> pending_key L d' = pending_key L d"
  by (rule pending_key_same) (rule resolve_work_same)

lemma resolve_step_inv:
  assumes "resolve_step L s s'" "pending_inv L s"
  shows "pending_inv L s'"
  using assms
proof (induction rule: resolve_step.induct)
  case (arrive s t d)
  then show ?case by (intro pending_inv_set_thread) (auto simp: owner_set_thread owner_def tracked_def)
next
  case (bypass s t d E d')
  then show ?case by (intro pending_inv_set_thread) (auto simp: owner_set_thread owner_def tracked_def)
next
  case (enqueue s t d E d' r prs)
  then show ?case by (intro enqueue_inv)
next
  case (work s t d E err d' p' job)
  then have "pending_key L d' = pending_key L d" by (intro work_key)
  with work show ?case
    by (intro pending_inv_set_thread) (auto simp: owner_set_thread owner_def tracked_def)
next
  case (finish s t err d prs)
  then have "pending_key L d \<noteq> None" by (auto simp: done_request_def pending_inv_def split: Option.bind_splits)
  with done_request_inv [OF finish(3,1)] finish(2) show ?case by auto
next
  case (finish_bypass s t d E err d' p' job)
  then show ?case by (intro pending_inv_set_thread) (auto simp: owner_set_thread owner_def tracked_def)
next
  case (resume s t i d ps pr err d')
  then show ?case by (intro pending_inv_set_thread) (auto simp: owner_set_thread owner_def tracked_def)
qed

lemma reachable_inv: "reachable L p s \<Longrightarrow> pending_inv L s"
proof (induction rule: reachable.induct)
  case start
  then show ?case by (simp add: pending_inv_def newDefaultPendingRequests_def owner_def tracked_def)
qed (rule resolve_step_inv)

subsection \<open>Properties\<close>

lemma pending_key_total:
  assumes "m_Question (Req d) \<noteq> []"
  shows "pending_key L d \<noteq> None"
  using assms
  by (auto simp: pending_key_def msgToKey_def msgToKeyWithSubnet_def go_index_def split: option.splits)

lemma queue_resume_eq:
  assumes "pr_clone pr = Some (u, st, res)"
  shows "queue_resume L d pr = Some (pr_resolveErr pr, d\<lparr>queryStatistics := st, Upstream := u,
    Res := (case res of None \<Rightarrow> Res d | Some m \<Rightarrow> Some (lib_SetReply L m (Req d)))\<rparr>)"
  using assms by (simp add: queue_resume_def Let_def split: option.splits)

text \<open>
  C3.  Single flight: in every reachable state of concurrently resolved requests, at most one
  request with a given key is between \<^verbatim>\<open>queue\<close> and \<^verbatim>\<open>done\<close>.  In particular two identical
  requests are never sent to the upstreams at the same time.
\<close>

theorem single_flight:
  assumes "reachable L p s" "tracked s t d" "tracked s t' d'"
    and "pending_key L d = Some (Some k)" "pending_key L d' = Some (Some k)"
  shows "t = t'"
proof -
  obtain ps where "sy_pending s = Some ps" using reachable_inv [OF assms(1)] by (auto simp: pending_inv_def)
  from pending_invD(4) [OF reachable_inv [OF assms(1)] this, of k t t'] assms(2-) show ?thesis
    by (auto simp: owner_def)
qed

text \<open>
  \<^verbatim>\<open>done\<close> always finds the pending request it completes: in every reachable state the
  deferred call of a resolved request does not panic.
\<close>

theorem done_never_panics:
  assumes "reachable L p s" "sy_threads s t = Some (Worked err d)" "m_Question (Req d) \<noteq> []"
  shows "\<exists>prs. done_request L d err (sy_pending s) = Some prs"
  using done_request_inv [OF reachable_inv [OF assms(1)] assms(2) pending_key_total [OF assms(3)]] by blast



text \<open>
  The copy a waiter gets has the response code NOERROR, whatever the code of the response it is
  copied from: \<^verbatim>\<open>SetReply\<close> resets it.  A request that waits for one answered with
  NXDOMAIN or SERVFAIL is answered with a NOERROR response.
\<close>

theorem waiter_rcode_reset:
  assumes "lib_reply_law L" "pr_clone pr = Some (u, st, Some m)"
  shows "\<exists>err d' m'. queue_resume L d pr = Some (err, d') \<and> Res d' = Some m' \<and> m_Rcode m' = RcodeSuccess \<and>
    m_Answer m' = m_Answer m \<and> m_Id m' = m_Id (Req d)"
  using assms by (simp add: queue_resume_eq lib_reply_law_def)

subsection \<open>Witnesses\<close>

text \<open>Two identical requests: the first one works, the second one waits for it.\<close>

abbreviation "sample_L \<equiv> sample_lib sample_resp"

definition sample_d :: "nat DNSContext" where
  "sample_d = snd (resolve_prepare sample_proxy_env sample_proxy sample_ctx)"

lemma sample_prepare: "resolve_prepare sample_proxy_env sample_proxy sample_ctx = (True, sample_d)"
  by (simp add: sample_d_def resolve_prepare_def sample_proxy_def sample_ctx_def newDNSContext_def sample_proxy_env_def
      calcFlagsAndSize_def cacheWorks_def Let_def sample_defs)

lemma sample_d_facts:
  "ReqECS sample_d = None" "m_Question (Req sample_d) = [sample_question]" "ctx_ok sample_d"
  "cache_at sample_proxy (cacheForContext sample_d) \<noteq> None"
proof -
  have L: "pe_lib sample_proxy_env = sample_L" by (simp add: sample_proxy_env_def)
  note f = resolve_prepare_frame [OF _ sample_prepare, unfolded L, OF sample_SetEdns0_law]
  show q: "m_Question (Req sample_d) = [sample_question]"
    using f(2) by (simp add: sample_ctx_def newDNSContext_def sample_req_def)
  have c: "Custom sample_d = None" using f(3) by (simp add: sample_ctx_def newDNSContext_def)
  show "ctx_ok sample_d" using q c by (simp add: ctx_ok_def)
  show "cache_at sample_proxy (cacheForContext sample_d) \<noteq> None"
    using c by (simp add: cacheForContext_def cache_at_def sample_proxy_def)
  show "ReqECS sample_d = None"
    by (simp add: sample_d_def resolve_prepare_def sample_proxy_def sample_ctx_def newDNSContext_def Let_def)
qed

lemma sample_key: "\<exists>k. pending_key sample_L sample_d = Some (Some k)"
  using sample_d_facts(1,2) by (simp add: pending_key_def msgToKey_def go_index_def)

lemma sample_run:
  "\<exists>s k. reachable sample_L sample_proxy s \<and> pending_key sample_L sample_d = Some (Some k) \<and>
     sy_proxy s = sample_proxy \<and> sy_threads s 0 = Some (Working True sample_d) \<and>
     sy_threads s 1 = Some (Waiting 0 sample_d)"
proof -
  obtain k where k: "pending_key sample_L sample_d = Some (Some k)" using sample_key ..
  have L: "pe_lib sample_proxy_env = sample_L" by (simp add: sample_proxy_env_def)
  let ?s0 = "\<lparr> sy_proxy = sample_proxy, sy_pending = Some newDefaultPendingRequests, sy_threads = (\<lambda>_. None) \<rparr>"
  let ?s2 = "set_thread 1 (Fresh sample_ctx) (set_thread 0 (Fresh sample_ctx) ?s0)"
  let ?ps = "\<lparr> ps_storage = [k \<mapsto> 0], ps_requests = [\<lparr> pr_finished = False, pr_resolveErr = None, pr_clone = None \<rparr>] \<rparr>"
  let ?s3 = "set_thread 0 (Working True sample_d) (?s2\<lparr>sy_pending := Some ?ps\<rparr>)"
  let ?s4 = "set_thread 1 (Waiting 0 sample_d) (?s3\<lparr>sy_pending := Some ?ps\<rparr>)"
  have "resolve_step sample_L ?s0 (set_thread 0 (Fresh sample_ctx) ?s0)"
    "resolve_step sample_L (set_thread 0 (Fresh sample_ctx) ?s0) ?s2"
    by (rule resolve_step.arrive; simp)+
  then have "reachable sample_L sample_proxy ?s2" using reachable.start by (blast intro: reachable.step)
  moreover have "resolve_step sample_L ?s2 ?s3"
    using resolve_step.enqueue [OF _ L, of ?s2 0 sample_ctx sample_d None "Some ?ps"] sample_prepare k
    by (simp add: queue_def newDefaultPendingRequests_def)
  moreover have "resolve_step sample_L ?s3 ?s4"
    using resolve_step.enqueue [OF _ L, of ?s3 1 sample_ctx sample_d "Some 0" "Some ?ps"] sample_prepare k
    by (simp add: queue_def)
  ultimately have "reachable sample_L sample_proxy ?s4" by (blast intro: reachable.step)
  with k show ?thesis by (intro exI [of _ ?s4] exI [of _ k]) simp
qed

theorem single_flight_witness:
  "\<exists>s. reachable sample_L sample_proxy s \<and> tracked s 0 sample_d \<and> (\<forall>t. tracked s t sample_d \<longrightarrow> 0 = t)"
proof -
  from sample_run obtain s k where s: "reachable sample_L sample_proxy s" "pending_key sample_L sample_d = Some (Some k)"
    "sy_threads s 0 = Some (Working True sample_d)" by blast
  moreover have "tracked s 0 sample_d" using s(3) by (simp add: tracked_def)
  ultimately show ?thesis using single_flight [OF s(1) _ _ s(2,2), of 0] by blast
qed


lemma sample_run_worked:
  "\<exists>s k err d. reachable sample_L sample_proxy s \<and> pending_key sample_L d = Some (Some k) \<and>
     pending_key sample_L sample_d = Some (Some k) \<and> m_Question (Req d) \<noteq> [] \<and> sy_threads s 0 = Some (Worked err d) \<and> sy_threads s 1 = Some (Waiting 0 sample_d)"
proof -
  from sample_run obtain s k where s: "reachable sample_L sample_proxy s" "pending_key sample_L sample_d = Some (Some k)"
    "sy_proxy s = sample_proxy" "sy_threads s 0 = Some (Working True sample_d)" "sy_threads s 1 = Some (Waiting 0 sample_d)"
    by blast
  from resolve_work_total [OF sample_env_ok sample_proxy_inv sample_d_facts(3), of True] sample_d_facts(4)
  obtain err d p job where w: "resolve_work sample_proxy_env sample_proxy True sample_d = Some (err, d, p, job)"
    "same_request_ctx sample_d d" by blast
  have "resolve_step sample_L s (set_thread 0 (Worked err d) (s\<lparr>sy_proxy := p\<rparr>))"
    by (rule resolve_step.work [where E = sample_proxy_env]) (use s w in \<open>simp_all add: sample_proxy_env_def\<close>)
  with s w(2) sample_d_facts(2) pending_key_same [OF w(2)] show ?thesis
    by (intro exI [of _ "set_thread 0 (Worked err d) (s\<lparr>sy_proxy := p\<rparr>)"] exI [of _ k] exI [of _ err] exI [of _ d])
      (auto simp: same_request_ctx_def intro: reachable.step)
qed

theorem done_never_panics_witness:
  "\<exists>s err d prs. reachable sample_L sample_proxy s \<and> sy_threads s 0 = Some (Worked err d) \<and>
     done_request sample_L d err (sy_pending s) = Some prs"
  using sample_run_worked done_never_panics [of sample_L sample_proxy _ 0] by meson


theorem waiter_rcode_reset_witness:
  "\<exists>err d' m'. queue_resume sample_L sample_ctx
      \<lparr> pr_finished = True, pr_resolveErr = None, pr_clone = Some (None, None, Some (sample_resp\<lparr>m_Rcode := 3\<rparr>)) \<rparr> =
     Some (err, d') \<and> Res d' = Some m' \<and> m_Rcode m' = 0"
  using waiter_rcode_reset [OF sample_reply_law, of "\<lparr> pr_finished = True, pr_resolveErr = None,
      pr_clone = Some (None, None, Some (sample_resp\<lparr>m_Rcode := 3\<rparr>)) \<rparr>" None None "sample_resp\<lparr>m_Rcode := 3\<rparr>"
      sample_resp sample_ctx]
  by auto

end
