(* ===== verification/Bootstrap_Resolver.thy ===== *)
theory Bootstrap_Resolver
  imports Sample_Lib Go_Strings "HOL-Library.Multiset"
begin

text \<open>
  The resolvers of the upstreams' host names (\<^verbatim>\<open>internal/bootstrap\<close>,
  \<^verbatim>\<open>upstream/resolver.go\<close>, \<^verbatim>\<open>upstream/hostsresolver.go\<close>).  The implementations of the
  interface \<^verbatim>\<open>Resolver\<close> are the constructors of a datatype and the interface method is a
  function over it that also returns the resolver with its caches updated.  What the
  upstreams reply during a lookup, the clock and the order in which concurrent lookups
  finish are a value of the record \<^verbatim>\<open>world\<close>.  A nil slice is \<^term>\<open>None\<close>, different from
  the empty one: the caching resolver tells them apart.
\<close>

subsection \<open>Results\<close>

definition NetworkIP :: string where "NetworkIP = ''ip''"

definition NetworkIP4 :: string where "NetworkIP4 = ''ip4''"

definition NetworkIP6 :: string where "NetworkIP6 = ''ip6''"

definition ErrNoResolvers :: error where "ErrNoResolvers = ErrMsg ''no resolvers specified''"

definition errBootstrapResponse :: error where
  "errBootstrapResponse = ErrMsg ''invalid bootstrap DNS response''"

definition errRecovered :: error where "errRecovered = ErrMsg ''recovered panic''"

type_synonym addrs = "Addr list option"

record ipResult =
  ir_expire :: "int option"
  ir_addrs :: addrs

text \<open>\<^verbatim>\<open>time.Time.Before\<close>, with the zero time \<^term>\<open>None\<close> before every reading of the clock.\<close>

definition time_Before :: "int option \<Rightarrow> int option \<Rightarrow> bool" where
  "time_Before t u = (case (t, u) of (None, None) \<Rightarrow> False | (None, Some _) \<Rightarrow> True
     | (Some _, None) \<Rightarrow> False | (Some a, Some b) \<Rightarrow> a < b)"

text \<open>\<^verbatim>\<open>append(s, t...)\<close>: appending nothing to nil leaves nil.\<close>

definition append_slice :: "'a list option \<Rightarrow> 'a list option \<Rightarrow> 'a list option" where
  "append_slice s t = (case (s, t) of
      (None, None) \<Rightarrow> None
    | (None, Some []) \<Rightarrow> None
    | (None, Some ys) \<Rightarrow> Some ys
    | (Some xs, None) \<Rightarrow> Some xs
    | (Some xs, Some ys) \<Rightarrow> Some (xs @ ys))"

definition slice_elems :: "'a list option \<Rightarrow> 'a list" where
  "slice_elems s = (case s of None \<Rightarrow> [] | Some xs \<Rightarrow> xs)"

subsection \<open>Resolvers\<close>

record 'u world =
  w_Exchange :: "'u \<Rightarrow> Msg \<Rightarrow> error + Msg option"
  w_newId :: "'u \<Rightarrow> uint16 \<Rightarrow> uint16"
  w_received :: "'u \<Rightarrow> uint16 \<Rightarrow> int"
  w_now :: int
  w_ctxErr :: "error option"
  w_second :: "'u \<Rightarrow> bool"
  w_arrive :: "(error + addrs) list \<Rightarrow> (error + addrs) list"

datatype 'u Resolver =
    StaticResolver addrs
  | HostsResolver "string \<Rightarrow> addrs"
  | UpstreamResolver 'u
  | CachingResolver 'u "string \<rightharpoonup> ipResult"
  | ParallelResolver "'u Resolver list"
  | ConsequentResolver "'u Resolver list"

definition NewCachingResolver :: "'u \<Rightarrow> 'u Resolver" where
  "NewCachingResolver u = CachingResolver u (\<lambda>_. None)"

subsection \<open>The upstream resolver\<close>

definition bootstrap_req :: "uint16 \<Rightarrow> string \<Rightarrow> uint16 \<Rightarrow> Msg" where
  "bootstrap_req i host qtype = empty_Msg\<lparr>m_Id := i, m_RecursionDesired := True,
     m_Question := [\<lparr> q_Name = host, q_Qtype = qtype, q_Qclass = ClassINET \<rparr>]\<rparr>"

definition bootstrap_ok :: "Msg \<Rightarrow> Msg \<Rightarrow> bool" where
  "bootstrap_ok req resp \<longleftrightarrow> m_Response resp \<and> m_Id resp = m_Id req \<and> m_Opcode resp = m_Opcode req \<and>
     length (m_Question resp) = 1 \<and> m_Question resp ! 0 = m_Question req ! 0 \<and> m_Rcode resp = RcodeSuccess"

text \<open>The loop over the answers, with the addresses and the least TTL so far.\<close>

fun answer_addrs :: "uint16 \<Rightarrow> RR list \<Rightarrow> Addr list \<Rightarrow> uint32 \<Rightarrow> Addr list \<times> uint32" where
  "answer_addrs qtype [] as ttl = (as, ttl)"
| "answer_addrs qtype (rr # rrs) as ttl =
     (if rr_Rrtype rr \<noteq> qtype then answer_addrs qtype rrs as ttl
      else if IPFromRR rr = AddrZero then answer_addrs qtype rrs as ttl
      else answer_addrs qtype rrs (as @ [IPFromRR rr]) (min ttl (rr_Ttl rr)))"

abbreviation (input) "nanosecond_per_second \<equiv> (1000000000 :: int)"

text \<open>\<^verbatim>\<open>request\<close> panics on a network that is not of one family.\<close>

definition request_type :: "string \<Rightarrow> uint16 go" where
  "request_type n = (if n = NetworkIP4 then Some TypeA else if n = NetworkIP6 then Some TypeAAAA else None)"

definition request :: "'u world \<Rightarrow> 'u \<Rightarrow> string \<Rightarrow> string \<Rightarrow> (error + ipResult) go" where
  "request w u host n = do {
     qtype \<leftarrow> request_type n;
     let req = bootstrap_req (w_newId w u qtype) host qtype;
     Some (case w_Exchange w u req of
       Inl err \<Rightarrow> Inl err
     | Inr None \<Rightarrow> Inl errBootstrapResponse
     | Inr (Some resp) \<Rightarrow>
         if \<not> bootstrap_ok req resp then Inl errBootstrapResponse
         else let (as, ttl) = answer_addrs qtype (m_Answer resp) [] 0xffffffff in
           Inr \<lparr> ir_expire = Some (w_received w u qtype + uint ttl * nanosecond_per_second), ir_addrs = Some as \<rparr>) }"

text \<open>The loop of \<^verbatim>\<open>lookupNetIP\<close> over the two results in the order of their arrival.\<close>

fun collect_results :: "(error + ipResult) list \<Rightarrow> ipResult \<Rightarrow> error list \<Rightarrow> ipResult \<times> error list" where
  "collect_results [] res errs = (res, errs)"
| "collect_results (Inl e # vs) res errs = collect_results vs res (errs @ [e])"
| "collect_results (Inr r # vs) res errs =
     collect_results vs
       \<lparr> ir_expire = (if ir_expire res = None \<or> time_Before (ir_expire r) (ir_expire res)
                      then ir_expire r else ir_expire res),
         ir_addrs = append_slice (ir_addrs res) (ir_addrs r) \<rparr> errs"

definition zero_ipResult :: ipResult where "zero_ipResult = \<lparr> ir_expire = None, ir_addrs = None \<rparr>"

definition up_lookupNetIP ::
  "'u world \<Rightarrow> 'u \<Rightarrow> string \<Rightarrow> string \<Rightarrow> (ipResult option \<times> error option) go" where
  "up_lookupNetIP w u network host =
     (if network = NetworkIP4 \<or> network = NetworkIP6 then do {
        r \<leftarrow> request w u host network;
        Some (case r of Inl err \<Rightarrow> (None, Some err) | Inr res \<Rightarrow> (Some res, None)) }
      else if network = NetworkIP then do {
        r4 \<leftarrow> request w u host NetworkIP4;
        r6 \<leftarrow> request w u host NetworkIP6;
        let (res, errs) = collect_results (if w_second w u then [r6, r4] else [r4, r6]) zero_ipResult [];
        Some (Some res, errors_Join errs) }
      else Some (None, Some (ErrWrap ''unsupported network'' (ErrMsg network))))"

subsection \<open>The interface method\<close>

type_synonym lookup_result = "addrs \<times> error option"

definition hosts_lookup :: "(string \<Rightarrow> addrs) \<Rightarrow> string \<Rightarrow> string \<Rightarrow> lookup_result" where
  "hosts_lookup strg network host =
     (if network = NetworkIP then (strg host, None)
      else if network \<noteq> NetworkIP4 \<and> network \<noteq> NetworkIP6
      then (None, Some (ErrWrap ''unsupported network'' (ErrMsg network)))
      else let as = [a \<leftarrow> slice_elems (strg host).
                 (case a of Addr4 _ \<Rightarrow> network = NetworkIP4 | Addr6 _ \<Rightarrow> network = NetworkIP6 | AddrZero \<Rightarrow> False)]
           in (if as = [] then None else Some as, None))"

definition upstream_lookup :: "dnslib \<Rightarrow> 'u world \<Rightarrow> 'u \<Rightarrow> string \<Rightarrow> string \<Rightarrow> lookup_result go" where
  "upstream_lookup L w u network host =
     (if w_ctxErr w \<noteq> None then Some (None, w_ctxErr w)
      else if host = '''' then Some (None, None)
      else do {
        (res, err) \<leftarrow> up_lookupNetIP w u network (lib_Fqdn L (to_lower host));
        (case err of
          Some e \<Rightarrow> Some (Some [], Some e)
        | None \<Rightarrow> do { r \<leftarrow> res; Some (ir_addrs r, None) }) })"

definition findCached :: "(string \<rightharpoonup> ipResult) \<Rightarrow> string \<Rightarrow> int \<Rightarrow> addrs" where
  "findCached c host now = (case c host of
      None \<Rightarrow> None
    | Some res \<Rightarrow> if time_Before (ir_expire res) (Some now) then None else ir_addrs res)"

definition caching_lookup ::
  "dnslib \<Rightarrow> 'u world \<Rightarrow> 'u \<Rightarrow> (string \<rightharpoonup> ipResult) \<Rightarrow> string \<Rightarrow> string \<Rightarrow> (lookup_result \<times> (string \<rightharpoonup> ipResult)) go" where
  "caching_lookup L w u c network host =
     (let host = lib_Fqdn L (to_lower host) in
      (case findCached c host (w_now w) of
        Some as \<Rightarrow> Some ((Some as, None), c)
      | None \<Rightarrow> do {
          (res, err) \<leftarrow> up_lookupNetIP w u network host;
          (case err of
            Some e \<Rightarrow> Some ((Some [], Some e), c)
          | None \<Rightarrow> do { r \<leftarrow> res; Some ((ir_addrs r, None), c(host \<mapsto> r)) }) }))"

text \<open>What a worker of the parallel resolver sends: a panic is recovered into an error.\<close>

definition lookupAsync :: "lookup_result go \<Rightarrow> error + addrs" where
  "lookupAsync r = (case r of
      None \<Rightarrow> Inl errRecovered
    | Some (as, None) \<Rightarrow> Inr as
    | Some (_, Some err) \<Rightarrow> Inl err)"

fun first_addrs :: "(error + addrs) list \<Rightarrow> error list \<Rightarrow> lookup_result" where
  "first_addrs [] errs = (None, errors_Join errs)"
| "first_addrs (Inl e # vs) errs = first_addrs vs (errs @ [e])"
| "first_addrs (Inr as # vs) errs = (as, None)"

text \<open>
  \<^verbatim>\<open>LookupNetIP\<close> of each implementation, with \<^verbatim>\<open>lookup_each\<close> the workers of the parallel
  resolver, which all run to their end, and \<^verbatim>\<open>lookup_seq\<close> the loop of the consequent one.
\<close>

fun LookupNetIP ::
    "dnslib \<Rightarrow> 'u world \<Rightarrow> 'u Resolver \<Rightarrow> string \<Rightarrow> string \<Rightarrow> lookup_result go \<times> 'u Resolver"
  and lookup_each ::
    "dnslib \<Rightarrow> 'u world \<Rightarrow> 'u Resolver list \<Rightarrow> string \<Rightarrow> string \<Rightarrow> lookup_result go list \<times> 'u Resolver list"
  and lookup_seq ::
    "dnslib \<Rightarrow> 'u world \<Rightarrow> 'u Resolver list \<Rightarrow> string \<Rightarrow> string \<Rightarrow> error option list \<Rightarrow>
       lookup_result go \<times> 'u Resolver list" where
  "LookupNetIP L w (StaticResolver as) network host = (Some (as, None), StaticResolver as)"
| "LookupNetIP L w (HostsResolver strg) network host =
     (Some (hosts_lookup strg network host), HostsResolver strg)"
| "LookupNetIP L w (UpstreamResolver u) network host =
     (upstream_lookup L w u network host, UpstreamResolver u)"
| "LookupNetIP L w (CachingResolver u c) network host =
     (case caching_lookup L w u c network host of
       None \<Rightarrow> (None, CachingResolver u c)
     | Some (r, c') \<Rightarrow> (Some r, CachingResolver u c'))"
| "LookupNetIP L w (ParallelResolver rs) network host =
     (let (vs, rs') = lookup_each L w rs network host
      in ((case vs of
            [] \<Rightarrow> Some (None, Some ErrNoResolvers)
          | [v] \<Rightarrow> v
          | _ \<Rightarrow> Some (first_addrs (w_arrive w (map lookupAsync vs)) [])), ParallelResolver rs'))"
| "LookupNetIP L w (ConsequentResolver rs) network host =
     (if rs = [] then (Some (None, Some ErrNoResolvers), ConsequentResolver [])
      else let (v, rs') = lookup_seq L w rs network host [] in (v, ConsequentResolver rs'))"
| "lookup_each L w [] network host = ([], [])"
| "lookup_each L w (r # rs) network host =
     (let (v, r') = LookupNetIP L w r network host; (vs, rs') = lookup_each L w rs network host
      in (v # vs, r' # rs'))"
| "lookup_seq L w [] network host errs = (Some (None, join_errors errs), [])"
| "lookup_seq L w (r # rs) network host errs =
     (let (v, r') = LookupNetIP L w r network host in
      (case v of
        None \<Rightarrow> (None, r' # rs)
      | Some (as, err) \<Rightarrow>
          if err = None \<and> slice_elems as \<noteq> [] then (Some (as, None), r' # rs)
          else let (v', rs') = lookup_seq L w rs network host (errs @ [err]) in (v', r' # rs')))"

subsection \<open>The dial handler\<close>

text \<open>
  \<^verbatim>\<open>slices.SortStableFunc\<close> by a comparison function, as the insertion sort: a stable sort
  has one result.  \<^verbatim>\<open>prefer\<close> is \<^verbatim>\<open>netutil.PreferIPv4\<close> or \<^verbatim>\<open>netutil.PreferIPv6\<close>.
\<close>

fun insert_stable :: "('a \<Rightarrow> 'a \<Rightarrow> int) \<Rightarrow> 'a \<Rightarrow> 'a list \<Rightarrow> 'a list" where
  "insert_stable cmp x [] = [x]"
| "insert_stable cmp x (y # ys) = (if cmp y x < 0 then y # insert_stable cmp x ys else x # y # ys)"

definition SortStableFunc :: "('a \<Rightarrow> 'a \<Rightarrow> int) \<Rightarrow> 'a list \<Rightarrow> 'a list" where
  "SortStableFunc cmp xs = foldr (insert_stable cmp) xs []"

definition errNoAddresses :: error where "errNoAddresses = ErrMsg ''no addresses''"

text \<open>The handler of \<^verbatim>\<open>NewDialContext\<close>: the addresses are dialled in order until one answers.\<close>

fun dial_loop :: "('a \<Rightarrow> error + 'c) \<Rightarrow> 'a list \<Rightarrow> error list \<Rightarrow> error + 'c" where
  "dial_loop dial [] errs = Inl (ErrJoin errs)"
| "dial_loop dial (a # as) errs = (case dial a of
      Inl err \<Rightarrow> dial_loop dial as (errs @ [err])
    | Inr conn \<Rightarrow> Inr conn)"

definition NewDialContext :: "('a \<Rightarrow> error + 'c) \<Rightarrow> 'a list \<Rightarrow> error + 'c" where
  "NewDialContext dial as = (if as = [] then Inl errNoAddresses else dial_loop dial as [])"

record dial_env =
  de_SplitHostPort :: "string \<Rightarrow> error + string \<times> uint16"
  de_PreferIPv4 :: "Addr \<Rightarrow> Addr \<Rightarrow> int"
  de_PreferIPv6 :: "Addr \<Rightarrow> Addr \<Rightarrow> int"

text \<open>
  \<^verbatim>\<open>ResolveDialContext\<close> returns the addresses with the port that the handler dials, in order.
\<close>

definition ResolveDialContext ::
  "dnslib \<Rightarrow> 'u world \<Rightarrow> dial_env \<Rightarrow> string \<Rightarrow> 'u Resolver option \<Rightarrow> bool \<Rightarrow>
     (error + (Addr \<times> uint16) list) go \<times> 'u Resolver option" where
  "ResolveDialContext L w E urlHost ro preferV6 = (case de_SplitHostPort E urlHost of
      Inl err \<Rightarrow> (Some (Inl (ErrWrap ''dialing'' err)), ro)
    | Inr (host, port) \<Rightarrow> (case ro of
        None \<Rightarrow> (Some (Inl (ErrWrap ''dialing'' (ErrWrap ''resolver is nil'' ErrNoResolvers))), ro)
      | Some r \<Rightarrow>
          let (v, r') = LookupNetIP L w r NetworkIP host in
          (case v of
            None \<Rightarrow> (None, Some r')
          | Some (_, Some err) \<Rightarrow> (Some (Inl (ErrWrap ''dialing'' (ErrWrap ''resolving hostname'' err))), Some r')
          | Some (ips, None) \<Rightarrow>
              let sorted = SortStableFunc (if preferV6 then de_PreferIPv6 E else de_PreferIPv4 E) (slice_elems ips)
              in (Some (Inr (map (\<lambda>ip. (ip, port)) sorted)), Some r'))))"

subsection \<open>Every resolver keeps the contract of the interface\<close>

definition valid_addrs :: "addrs \<Rightarrow> bool" where
  "valid_addrs as \<longleftrightarrow> AddrZero \<notin> set (slice_elems as)"

primrec resolver_wf :: "'u Resolver \<Rightarrow> bool" where
  "resolver_wf (StaticResolver as) = valid_addrs as"
| "resolver_wf (HostsResolver strg) = (\<forall>h. valid_addrs (strg h))"
| "resolver_wf (UpstreamResolver u) = True"
| "resolver_wf (CachingResolver u c) = (\<forall>h r. c h = Some r \<longrightarrow> valid_addrs (ir_addrs r))"
| "resolver_wf (ParallelResolver rs) = list_all (\<lambda>b. b) (map resolver_wf rs)"
| "resolver_wf (ConsequentResolver rs) = list_all (\<lambda>b. b) (map resolver_wf rs)"

text \<open>Results arrive in some order, none is lost or made up.\<close>

definition arrival_law :: "'u world \<Rightarrow> bool" where
  "arrival_law w \<longleftrightarrow> (\<forall>vs. mset (w_arrive w vs) = mset vs)"

lemma arrival_set: "arrival_law w \<Longrightarrow> set (w_arrive w vs) = set vs"
  unfolding arrival_law_def by (metis set_mset_mset)

definition result_ok :: "lookup_result go \<Rightarrow> bool" where
  "result_ok v \<longleftrightarrow> (case v of None \<Rightarrow> False | Some (as, err) \<Rightarrow> valid_addrs as)"

lemma valid_None [simp]: "valid_addrs None"
  by (simp add: valid_addrs_def slice_elems_def)

lemma valid_Nil [simp]: "valid_addrs (Some [])"
  by (simp add: valid_addrs_def slice_elems_def)

lemma slice_elems_append [simp]: "slice_elems (append_slice s t) = slice_elems s @ slice_elems t"
  by (auto simp: slice_elems_def append_slice_def split: option.splits list.splits)

text \<open>The addresses of an answer and the least TTL of their records.\<close>

definition family_rrs :: "uint16 \<Rightarrow> RR list \<Rightarrow> RR list" where
  "family_rrs qtype rrs = [rr \<leftarrow> rrs. rr_Rrtype rr = qtype \<and> IPFromRR rr \<noteq> AddrZero]"

lemma answer_addrs_eq:
  "answer_addrs qtype rrs as ttl =
     (as @ map IPFromRR (family_rrs qtype rrs), foldl min ttl (map rr_Ttl (family_rrs qtype rrs)))"
  by (induction rrs arbitrary: as ttl) (auto simp: family_rrs_def)

lemma foldl_min_le: "foldl min t xs \<le> t" for t :: "'a :: linorder"
proof (induction xs arbitrary: t)
  case (Cons x xs)
  have "foldl min (min t x) xs \<le> min t x" by (rule Cons)
  also have "\<dots> \<le> t" by simp
  finally show ?case by simp
qed simp

lemma foldl_min_le_elem: "x \<in> set xs \<Longrightarrow> foldl min t xs \<le> x" for t :: "'a :: linorder"
proof (induction xs arbitrary: t)
  case (Cons y ys)
  have "foldl min (min t y) ys \<le> min t y" by (rule foldl_min_le)
  also have "\<dots> \<le> y" by simp
  finally have "foldl min (min t y) ys \<le> y" .
  with Cons show ?case by auto
qed simp

text \<open>
  What a result of the upstream resolver is worth: each of its addresses comes from a record of a
  valid response for the host, and the result expires no later than that record.
\<close>

definition address_from :: "'u world \<Rightarrow> 'u \<Rightarrow> string \<Rightarrow> Addr \<Rightarrow> (int \<Rightarrow> bool) \<Rightarrow> bool" where
  "address_from w u host a P \<longleftrightarrow> (\<exists>qtype resp rr. qtype \<in> {TypeA, TypeAAAA} \<and>
     w_Exchange w u (bootstrap_req (w_newId w u qtype) host qtype) = Inr (Some resp) \<and>
     bootstrap_ok (bootstrap_req (w_newId w u qtype) host qtype) resp \<and>
     rr \<in> set (m_Answer resp) \<and> rr_Rrtype rr = qtype \<and> IPFromRR rr = a \<and> a \<noteq> AddrZero \<and>
     P (w_received w u qtype + uint (rr_Ttl rr) * nanosecond_per_second))"

definition result_from :: "'u world \<Rightarrow> 'u \<Rightarrow> string \<Rightarrow> ipResult \<Rightarrow> bool" where
  "result_from w u host r \<longleftrightarrow> (\<exists>e. ir_expire r = Some e \<and>
     (\<forall>a \<in> set (slice_elems (ir_addrs r)). address_from w u host a (\<lambda>t. e \<le> t)))"

lemma address_from_mono: "address_from w u host a P \<Longrightarrow> (\<And>t. P t \<Longrightarrow> Q t) \<Longrightarrow> address_from w u host a Q"
  unfolding address_from_def by blast

lemma request_type_family: "request_type n = Some q \<Longrightarrow> q \<in> {TypeA, TypeAAAA}"
  by (auto simp: request_type_def split: if_splits)

lemma request_from:
  assumes "request w u host n = Some (Inr r)"
  shows "result_from w u host r"
proof -
  obtain q where q: "request_type n = Some q" using assms by (auto simp: request_def bind_eq_Some_conv)
  define req where "req = bootstrap_req (w_newId w u q) host q"
  obtain resp where resp: "w_Exchange w u req = Inr (Some resp)" "bootstrap_ok req resp"
    using assms q by (auto simp: request_def req_def Let_def split: sum.splits option.splits if_splits)
  define rrs where "rrs = family_rrs q (m_Answer resp)"
  define ttl where "ttl = foldl min 0xffffffff (map rr_Ttl rrs)"
  have r: "ir_expire r = Some (w_received w u q + uint ttl * nanosecond_per_second)"
    "slice_elems (ir_addrs r) = map IPFromRR rrs"
    using assms q resp by (auto simp: request_def req_def [symmetric] answer_addrs_eq ttl_def rrs_def slice_elems_def Let_def)
  have "address_from w u host (IPFromRR rr) (\<lambda>t. w_received w u q + uint ttl * nanosecond_per_second \<le> t)"
    if "rr \<in> set rrs" for rr
  proof -
    have "ttl \<le> rr_Ttl rr" unfolding ttl_def using that by (intro foldl_min_le_elem) simp
    then have "uint ttl \<le> uint (rr_Ttl rr)" by (simp add: word_le_def)
    moreover have "rr \<in> set (m_Answer resp)" "rr_Rrtype rr = q" "IPFromRR rr \<noteq> AddrZero"
      using that by (auto simp: rrs_def family_rrs_def)
    ultimately show ?thesis unfolding address_from_def
      using resp request_type_family [OF q] by (intro exI [of _ q] exI [of _ resp] exI [of _ rr]) (simp add: req_def)
  qed
  with r show ?thesis by (auto simp: result_from_def)
qed

lemma collect_results_from:
  assumes "r4 = Inr a" "r6 = Inr b" "result_from w u host a" "result_from w u host b" "vs = [r4, r6] \<or> vs = [r6, r4]"
    "collect_results vs zero_ipResult [] = (res, errs)"
  shows "errs = [] \<and> result_from w u host res"
proof -
  obtain ea eb where e: "ir_expire a = Some ea" "ir_expire b = Some eb"
    "\<forall>x \<in> set (slice_elems (ir_addrs a)). address_from w u host x (\<lambda>t. ea \<le> t)"
    "\<forall>x \<in> set (slice_elems (ir_addrs b)). address_from w u host x (\<lambda>t. eb \<le> t)"
    using assms(3,4) by (auto simp: result_from_def)
  have "errs = []" "ir_expire res = Some (min ea eb)"
    "set (slice_elems (ir_addrs res)) = set (slice_elems (ir_addrs a)) \<union> set (slice_elems (ir_addrs b))"
    using assms(1,2,5,6) e(1,2)
    by (auto simp: zero_ipResult_def time_Before_def slice_elems_def [of None] min_def)
  moreover have "address_from w u host x (\<lambda>t. min ea eb \<le> t)"
    if "x \<in> set (slice_elems (ir_addrs a)) \<union> set (slice_elems (ir_addrs b))" for x
  proof -
    have "address_from w u host x (\<lambda>t. ea \<le> t) \<or> address_from w u host x (\<lambda>t. eb \<le> t)" using that e(3,4) by blast
    then show ?thesis
      using address_from_mono [of w u host x "\<lambda>t. ea \<le> t" "\<lambda>t. min ea eb \<le> t"]
        address_from_mono [of w u host x "\<lambda>t. eb \<le> t" "\<lambda>t. min ea eb \<le> t"] by linarith
  qed
  ultimately show ?thesis by (simp add: result_from_def)
qed

lemma collect_results_errs:
  "collect_results vs res errs = (res', errs') \<Longrightarrow> errs' = [] \<Longrightarrow> errs = [] \<and> (\<forall>v \<in> set vs. \<exists>r. v = Inr r)"
proof (induction vs res errs rule: collect_results.induct)
  case (2 e vs res errs)
  then show ?case by simp
next
  case (3 r vs res errs)
  then show ?case by auto
qed simp

text \<open>The lookup of the upstream resolver never panics, and what it returns without an error is sound.\<close>

lemma request_total: "n = NetworkIP4 \<or> n = NetworkIP6 \<Longrightarrow> \<exists>v. request w u host n = Some v"
  by (auto simp: request_def request_type_def Let_def NetworkIP4_def NetworkIP6_def)

lemma up_lookupNetIP_one:
  assumes "network = NetworkIP4 \<or> network = NetworkIP6" "request w u host network = Some v"
  shows "up_lookupNetIP w u network host = Some (case v of Inl err \<Rightarrow> (None, Some err) | Inr res \<Rightarrow> (Some res, None))"
  unfolding up_lookupNetIP_def if_P [OF assms(1)] assms(2) by simp

lemma up_lookupNetIP_both:
  assumes "request w u host NetworkIP4 = Some r4" "request w u host NetworkIP6 = Some r6"
    "collect_results (if w_second w u then [r6, r4] else [r4, r6]) zero_ipResult [] = (res, errs)"
  shows "up_lookupNetIP w u NetworkIP host = Some (Some res, errors_Join errs)"
proof -
  have n: "\<not> (NetworkIP = NetworkIP4 \<or> NetworkIP = NetworkIP6)"
    by (simp add: NetworkIP_def NetworkIP4_def NetworkIP6_def)
  show ?thesis unfolding up_lookupNetIP_def if_not_P [OF n] using assms by (simp del: collect_results.simps)
qed

lemma up_lookupNetIP_other:
  assumes "network \<noteq> NetworkIP4" "network \<noteq> NetworkIP6" "network \<noteq> NetworkIP"
  shows "up_lookupNetIP w u network host = Some (None, Some (ErrWrap ''unsupported network'' (ErrMsg network)))"
  using assms by (simp add: up_lookupNetIP_def)

lemma up_lookupNetIP_total: "\<exists>res err. up_lookupNetIP w u network host = Some (res, err)"
proof -
  obtain r4 r6 where r: "request w u host NetworkIP4 = Some r4" "request w u host NetworkIP6 = Some r6"
    using request_total [of NetworkIP4 w u host] request_total [of NetworkIP6 w u host] by auto
  obtain res errs where c: "collect_results (if w_second w u then [r6, r4] else [r4, r6]) zero_ipResult [] = (res, errs)"
    by fastforce
  consider "network = NetworkIP4 \<or> network = NetworkIP6" | "network = NetworkIP"
    | "network \<noteq> NetworkIP4" "network \<noteq> NetworkIP6" "network \<noteq> NetworkIP" by blast
  then show ?thesis
  proof cases
    case 1
    then obtain v where "request w u host network = Some v" using request_total [of network w u host] by auto
    from up_lookupNetIP_one [OF 1 this] show ?thesis by (cases v) simp_all
  next
    case 2
    with up_lookupNetIP_both [OF r c] show ?thesis by blast
  next
    case 3
    with up_lookupNetIP_other [OF 3, of w u host] show ?thesis by blast
  qed
qed

lemma up_lookupNetIP_from:
  assumes "up_lookupNetIP w u network host = Some (res, None)"
  shows "\<exists>r. res = Some r \<and> result_from w u host r"
proof -
  consider "network = NetworkIP4 \<or> network = NetworkIP6" | "network = NetworkIP"
    | "network \<noteq> NetworkIP4" "network \<noteq> NetworkIP6" "network \<noteq> NetworkIP" by blast
  then show ?thesis
  proof cases
    case 1
    then obtain v where v: "request w u host network = Some v" using request_total [of network w u host] by auto
    show ?thesis
    proof (cases v)
      case (Inl e)
      with assms up_lookupNetIP_one [OF 1 v] show ?thesis by simp
    next
      case (Inr r)
      with assms up_lookupNetIP_one [OF 1 v] have "res = Some r" by simp
      with request_from [OF v [unfolded Inr]] show ?thesis by simp
    qed
  next
    case 2
    obtain r4 r6 where r: "request w u host NetworkIP4 = Some r4" "request w u host NetworkIP6 = Some r6"
      using request_total [of NetworkIP4 w u host] request_total [of NetworkIP6 w u host] by auto
    define vs where "vs = (if w_second w u then [r6, r4] else [r4, r6])"
    obtain res' errs where c: "collect_results vs zero_ipResult [] = (res', errs)" by fastforce
    have res: "res = Some res'" "errs = []"
      using assms up_lookupNetIP_both [OF r c [unfolded vs_def]] 2 by (simp_all add: errors_Join_def split: if_splits)
    obtain a b where ab: "r4 = Inr a" "r6 = Inr b"
      using collect_results_errs [OF c res(2)] by (auto simp: vs_def split: if_splits)
    have "result_from w u host a" "result_from w u host b"
      using request_from [OF r(1) [unfolded ab]] request_from [OF r(2) [unfolded ab]] by simp_all
    moreover have "vs = [r4, r6] \<or> vs = [r6, r4]" by (simp add: vs_def)
    ultimately have "result_from w u host res'" using collect_results_from [OF ab _ _ _ c, of w u host] by simp
    with res show ?thesis by simp
  next
    case 3
    with assms up_lookupNetIP_other [OF 3, of w u host] show ?thesis by simp
  qed
qed

lemma result_from_valid: "result_from w u host r \<Longrightarrow> valid_addrs (ir_addrs r)"
  by (auto simp: result_from_def valid_addrs_def address_from_def)

lemma upstream_lookup_ok: "result_ok (upstream_lookup L w u network host)"
proof (cases "w_ctxErr w = None \<and> host \<noteq> ''''")
  case True
  obtain res err where r: "up_lookupNetIP w u network (lib_Fqdn L (to_lower host)) = Some (res, err)"
    using up_lookupNetIP_total [of w u network "lib_Fqdn L (to_lower host)"] by auto
  with True up_lookupNetIP_from [of w u network "lib_Fqdn L (to_lower host)" res] show ?thesis
    by (cases err) (auto simp: upstream_lookup_def result_ok_def dest: result_from_valid)
next
  case False
  then show ?thesis by (auto simp: upstream_lookup_def result_ok_def)
qed

lemma caching_lookup_cases:
  assumes "host' = lib_Fqdn L (to_lower host)"
  obtains (Hit) as where "findCached c host' (w_now w) = Some as"
      "caching_lookup L w u c network host = Some ((Some as, None), c)"
    | (Fail) res e where "findCached c host' (w_now w) = None"
        "up_lookupNetIP w u network host' = Some (res, Some e)"
        "caching_lookup L w u c network host = Some ((Some [], Some e), c)"
    | (Miss) r where "findCached c host' (w_now w) = None" "up_lookupNetIP w u network host' = Some (Some r, None)"
        "result_from w u host' r" "caching_lookup L w u c network host = Some ((ir_addrs r, None), c(host' \<mapsto> r))"
proof (cases "findCached c host' (w_now w)")
  case (Some as)
  with Hit show ?thesis by (simp add: caching_lookup_def assms [symmetric])
next
  case None
  obtain res err where r: "up_lookupNetIP w u network host' = Some (res, err)"
    using up_lookupNetIP_total [of w u network host'] by auto
  show ?thesis
  proof (cases err)
    case (Some e)
    with None r Fail show ?thesis by (simp add: caching_lookup_def assms [symmetric])
  next
    case err: None
    obtain a where "res = Some a" "result_from w u host' a"
      using up_lookupNetIP_from [of w u network host' res] r err by auto
    with None r err Miss show ?thesis by (simp add: caching_lookup_def assms [symmetric])
  qed
qed

lemma findCached_Some:
  "findCached c host now = Some as \<Longrightarrow> \<exists>r. c host = Some r \<and> ir_addrs r = Some as \<and> \<not> time_Before (ir_expire r) (Some now)"
  by (auto simp: findCached_def split: option.splits if_splits)

lemma hosts_lookup_ok: "\<forall>h. valid_addrs (strg h) \<Longrightarrow> result_ok (Some (hosts_lookup strg network host))"
  by (auto simp: hosts_lookup_def result_ok_def valid_addrs_def slice_elems_def Let_def split: if_splits Addr.splits)

lemma caching_lookup_ok:
  assumes "resolver_wf (CachingResolver u c)"
  shows "\<exists>v c'. caching_lookup L w u c network host = Some (v, c') \<and> result_ok (Some v) \<and> resolver_wf (CachingResolver u c')"
proof (rule caching_lookup_cases [OF refl, of c L host w u network])
  fix as
  assume "findCached c (lib_Fqdn L (to_lower host)) (w_now w) = Some as"
    "caching_lookup L w u c network host = Some ((Some as, None), c)"
  with assms show ?thesis by (auto simp: result_ok_def dest!: findCached_Some) metis
next
  fix res e
  assume "caching_lookup L w u c network host = Some ((Some [], Some e), c)"
  with assms show ?thesis by (simp add: result_ok_def)
next
  fix r
  assume "result_from w u (lib_Fqdn L (to_lower host)) r"
    "caching_lookup L w u c network host = Some ((ir_addrs r, None), c(lib_Fqdn L (to_lower host) \<mapsto> r))"
  with assms show ?thesis by (auto simp: result_ok_def dest: result_from_valid)
qed

lemma lookupAsync_ok: "result_ok v \<Longrightarrow> (case lookupAsync v of Inl _ \<Rightarrow> True | Inr as \<Rightarrow> valid_addrs as)"
  by (auto simp: lookupAsync_def result_ok_def split: option.splits prod.splits)

lemma first_addrs_ok:
  "\<forall>v \<in> set vs. (case v of Inl _ \<Rightarrow> True | Inr as \<Rightarrow> valid_addrs as) \<Longrightarrow> result_ok (Some (first_addrs vs errs))"
  by (induction vs errs rule: first_addrs.induct) (auto simp: result_ok_def)

lemma first_addrs_arrive_ok:
  assumes "arrival_law w" "list_all result_ok vs"
  shows "result_ok (Some (first_addrs (w_arrive w (map lookupAsync vs)) []))"
  using assms lookupAsync_ok by (intro first_addrs_ok) (auto simp: arrival_set list_all_iff)

lemma list_all_id_map [simp]: "list_all (\<lambda>b. b) (map P xs) \<longleftrightarrow> list_all P xs"
  by (simp add: list.pred_map comp_def)

lemmas lookup_induct = LookupNetIP_lookup_each_lookup_seq.induct
  [of "\<lambda>L w r n h. arrival_law w \<longrightarrow> resolver_wf r \<longrightarrow> result_ok (fst (LookupNetIP L w r n h)) \<and> resolver_wf (snd (LookupNetIP L w r n h))"
      "\<lambda>L w rs n h. arrival_law w \<longrightarrow> list_all resolver_wf rs \<longrightarrow>
         list_all result_ok (fst (lookup_each L w rs n h)) \<and> list_all resolver_wf (snd (lookup_each L w rs n h))"
      "\<lambda>L w rs n h errs. arrival_law w \<longrightarrow> list_all resolver_wf rs \<longrightarrow>
         result_ok (fst (lookup_seq L w rs n h errs)) \<and> list_all resolver_wf (snd (lookup_seq L w rs n h errs))"]

lemma lookup_ok:
  "arrival_law w \<longrightarrow> resolver_wf r \<longrightarrow> result_ok (fst (LookupNetIP L w r n h)) \<and> resolver_wf (snd (LookupNetIP L w r n h))"
  "arrival_law w \<longrightarrow> list_all resolver_wf rs \<longrightarrow>
     list_all result_ok (fst (lookup_each L w rs n h)) \<and> list_all resolver_wf (snd (lookup_each L w rs n h))"
  "arrival_law w \<longrightarrow> list_all resolver_wf rs \<longrightarrow>
     result_ok (fst (lookup_seq L w rs n h errs)) \<and> list_all resolver_wf (snd (lookup_seq L w rs n h errs))"
proof (induction L w r n h and L w rs n h and L w rs n h errs rule: lookup_induct)
  case (1 L w as network host)
  then show ?case by (simp add: result_ok_def)
next
  case (2 L w strg network host)
  then show ?case by (simp add: hosts_lookup_ok)
next
  case (3 L w u network host)
  then show ?case by (simp add: upstream_lookup_ok)
next
  case (4 L w u c network host)
  show ?case
  proof (intro impI)
    assume "resolver_wf (CachingResolver u c)"
    from caching_lookup_ok [OF this, of L w network host] show "result_ok (fst (LookupNetIP L w (CachingResolver u c) network host)) \<and>
        resolver_wf (snd (LookupNetIP L w (CachingResolver u c) network host))" by auto
  qed
next
  case (5 L w rs network host)
  obtain vs rs' where e: "lookup_each L w rs network host = (vs, rs')" by fastforce
  show ?case
  proof (intro impI)
    assume wf: "arrival_law w" "resolver_wf (ParallelResolver rs)"
    then have "list_all result_ok vs" "list_all resolver_wf rs'" using 5 e by simp_all
    moreover from this(1) have "result_ok (case vs of [] \<Rightarrow> Some (None, Some ErrNoResolvers) | [v] \<Rightarrow> v
        | _ \<Rightarrow> Some (first_addrs (w_arrive w (map lookupAsync vs)) []))"
      using first_addrs_arrive_ok [OF wf(1), of vs] by (auto simp: result_ok_def [of "Some (None, _)"] split: list.splits)
    ultimately show "result_ok (fst (LookupNetIP L w (ParallelResolver rs) network host)) \<and>
        resolver_wf (snd (LookupNetIP L w (ParallelResolver rs) network host))" using e by simp
  qed
next
  case (6 L w rs network host)
  then show ?case by (auto simp: result_ok_def [of "Some (None, _)"] split: prod.splits)
next
  case (7 L w network host)
  then show ?case by simp
next
  case (8 L w r rs network host)
  then show ?case by (auto split: prod.splits)
next
  case (9 L w network host errs)
  then show ?case by (simp add: result_ok_def)
next
  case (10 L w r rs network host errs)
  obtain v r' where e: "LookupNetIP L w r network host = (v, r')" by fastforce
  show ?case
  proof (intro impI)
    assume wf: "arrival_law w" "list_all resolver_wf (r # rs)"
    with 10(1) e have "result_ok v" "resolver_wf r'" by simp_all
    then obtain as err where v: "v = Some (as, err)" "valid_addrs as" by (auto simp: result_ok_def split: option.splits)
    show "result_ok (fst (lookup_seq L w (r # rs) network host errs)) \<and>
        list_all resolver_wf (snd (lookup_seq L w (r # rs) network host errs))"
    proof (cases "err = None \<and> slice_elems as \<noteq> []")
      case True
      with e v wf \<open>resolver_wf r'\<close> show ?thesis by (simp add: result_ok_def)
    next
      case False
      with 10(2) [OF e [symmetric] refl v(1)] wf e v \<open>resolver_wf r'\<close> show ?thesis by (auto split: prod.splits)
    qed
  qed
qed

text \<open>The laws of the interface, and what its clients get from them.\<close>

locale address_resolver =
  fixes lookup :: "'w \<Rightarrow> 'r \<Rightarrow> string \<Rightarrow> string \<Rightarrow> lookup_result go \<times> 'r"
    and ok :: "'r \<Rightarrow> bool" and fair :: "'w \<Rightarrow> bool"
  assumes valid: "fair w \<Longrightarrow> ok r \<Longrightarrow> result_ok (fst (lookup w r n h))"
    and keeps: "fair w \<Longrightarrow> ok r \<Longrightarrow> ok (snd (lookup w r n h))"
begin

lemma lookup_returns:
  assumes "fair w" "ok r"
  shows "\<exists>as err r'. lookup w r n h = (Some (as, err), r') \<and> ok r' \<and> valid_addrs as"
proof -
  obtain v r' where e: "lookup w r n h = (v, r')" by fastforce
  then have "result_ok v" "ok r'" using valid [OF assms, of n h] keeps [OF assms, of n h] by simp_all
  with e show ?thesis by (auto simp: result_ok_def split: option.splits)
qed

end

interpretation resolver: address_resolver "LookupNetIP L" resolver_wf arrival_law
  by unfold_locales (simp_all add: lookup_ok)

text \<open>
  C23.  The contract of the interface \<^verbatim>\<open>Resolver\<close>, "all the addrs must be valid": whatever the
  upstreams reply and in whatever order, a lookup of any combination of resolvers returns without
  a panic, gives only valid addresses, and leaves resolvers with the same property, provided the
  addresses configured statically and those of the hosts files are valid.
\<close>

theorem resolver_contract:
  assumes "arrival_law w" "resolver_wf r"
  shows "\<exists>as err r'. LookupNetIP L w r n h = (Some (as, err), r') \<and> resolver_wf r' \<and> valid_addrs as"
  using assms by (rule resolver.lookup_returns)

definition sample_world :: "nat world" where
  "sample_world = \<lparr> w_Exchange = (\<lambda>u req. if u = 0 then Inl (ErrMsg ''down'')
       else Inr (Some (req\<lparr>m_Response := True, m_Answer := [\<lparr> rr_Hdr = \<lparr> h_Name = q_Name (hd (m_Question req)),
         h_Rrtype = q_Qtype (hd (m_Question req)), h_Class = 1, h_Ttl = 60 \<rparr>,
         rr_Data = (if q_Qtype (hd (m_Question req)) = TypeA then RD_A (Some [192, 0, 2, word_of_nat u])
                    else RD_AAAA (Some (replicate 15 0 @ [word_of_nat u]))) \<rparr>]\<rparr>))),
     w_newId = (\<lambda>u q. 77), w_received = (\<lambda>u q. 1000), w_now = 500, w_ctxErr = None, w_second = (\<lambda>u. u = 1),
     w_arrive = rev \<rparr>"

lemma sample_world_arrival: "arrival_law sample_world"
  by (simp add: arrival_law_def sample_world_def)

definition sample_resolver :: "nat Resolver" where
  "sample_resolver = ConsequentResolver [HostsResolver (\<lambda>_. None),
     ParallelResolver [UpstreamResolver 0, NewCachingResolver 1]]"

lemma sample_resolver_wf: "resolver_wf sample_resolver"
  by (simp add: sample_resolver_def NewCachingResolver_def)

lemma sample_lookup:
  "fst (LookupNetIP (sample_lib sample_resp) sample_world sample_resolver ''ip4'' ''Dns.Example'') =
     Some (Some [Addr4 [192, 0, 2, 1]], None)"
  by (simp add: sample_resolver_def sample_world_def NewCachingResolver_def hosts_lookup_def NetworkIP_def
      NetworkIP4_def NetworkIP6_def slice_elems_def upstream_lookup_def caching_lookup_def findCached_def
      up_lookupNetIP_def request_def request_type_def bootstrap_req_def bootstrap_ok_def empty_Msg_def
      IPFromRR_def To4_def ip_bytes_def AddrFromSlice_def lookupAsync_def)

theorem resolver_contract_witness:
  "resolver_wf sample_resolver \<and>
   (\<exists>r'. LookupNetIP (sample_lib sample_resp) sample_world sample_resolver ''ip4'' ''Dns.Example'' =
     (Some (Some [Addr4 [192, 0, 2, 1]], None), r') \<and> resolver_wf r' \<and> valid_addrs (Some [Addr4 [192, 0, 2, 1]]))"
  using resolver_contract [OF sample_world_arrival sample_resolver_wf, of "sample_lib sample_resp" "''ip4''" "''Dns.Example''"]
    sample_lookup sample_resolver_wf by auto

subsection \<open>Cached addresses\<close>

text \<open>A sequence of lookups of a caching resolver, each in its own world, with their results.\<close>

fun caching_run ::
  "dnslib \<Rightarrow> 'u \<Rightarrow> ('u world \<times> string \<times> string) list \<Rightarrow> (string \<rightharpoonup> ipResult) \<Rightarrow> lookup_result list go" where
  "caching_run L u [] c = Some []"
| "caching_run L u ((w, n, h) # xs) c = do {
     (v, c') \<leftarrow> caching_lookup L w u c n h;
     vs \<leftarrow> caching_run L u xs c';
     Some (v # vs) }"

definition cache_from :: "'u \<Rightarrow> ('u world \<times> string) set \<Rightarrow> (string \<rightharpoonup> ipResult) \<Rightarrow> bool" where
  "cache_from u H c \<longleftrightarrow> (\<forall>h r. c h = Some r \<longrightarrow> (\<exists>w. (w, h) \<in> H \<and> result_from w u h r))"

text \<open>An address that a lookup in world \<^term>\<open>w\<close> may return: from this world, or from an earlier one while it lives.\<close>

definition fresh_address :: "'u \<Rightarrow> ('u world \<times> string) set \<Rightarrow> 'u world \<Rightarrow> string \<Rightarrow> Addr \<Rightarrow> bool" where
  "fresh_address u H w h a \<longleftrightarrow> address_from w u h a (\<lambda>_. True) \<or>
     (\<exists>w'. (w', h) \<in> H \<and> address_from w' u h a (\<lambda>t. w_now w \<le> t))"

lemma fresh_address_mono: "fresh_address u H w h a \<Longrightarrow> H \<subseteq> H' \<Longrightarrow> fresh_address u H' w h a"
  unfolding fresh_address_def by blast

lemma cache_from_mono: "cache_from u H c \<Longrightarrow> H \<subseteq> H' \<Longrightarrow> cache_from u H' c"
  unfolding cache_from_def by blast

lemma caching_lookup_fresh:
  assumes "cache_from u H c" "host' = lib_Fqdn L (to_lower host)"
  shows "\<exists>as err c'. caching_lookup L w u c n host = Some ((as, err), c') \<and>
    cache_from u (insert (w, host') H) c' \<and> (\<forall>a \<in> set (slice_elems as). fresh_address u H w host' a)"
  using assms(2)
proof (cases rule: caching_lookup_cases [where c = c and w = w and u = u and network = n])
  case (Hit as)
  obtain r w' where r: "ir_addrs r = Some as" "\<not> time_Before (ir_expire r) (Some (w_now w))"
    "(w', host') \<in> H" "result_from w' u host' r"
    using findCached_Some [OF Hit(1)] assms(1) unfolding cache_from_def by blast
  then have "fresh_address u H w host' a" if "a \<in> set as" for a
    using that unfolding fresh_address_def result_from_def
    by (auto simp: time_Before_def slice_elems_def elim!: address_from_mono dest!: bspec)
  moreover have "cache_from u (insert (w, host') H) c" using cache_from_mono [OF assms(1)] by blast
  ultimately show ?thesis using Hit(2) by (auto simp: slice_elems_def)
next
  case (Fail res e)
  have "cache_from u (insert (w, host') H) c" using cache_from_mono [OF assms(1)] by blast
  with Fail(3) show ?thesis by (auto simp: slice_elems_def)
next
  case (Miss r)
  have "cache_from u (insert (w, host') H) (c(host' \<mapsto> r))"
    using assms(1) Miss(3) unfolding cache_from_def by auto
  moreover have "fresh_address u H w host' a" if "a \<in> set (slice_elems (ir_addrs r))" for a
    using that Miss(3) unfolding fresh_address_def result_from_def by (auto elim!: address_from_mono dest!: bspec)
  ultimately show ?thesis using Miss(4) by blast
qed

definition step_host :: "dnslib \<Rightarrow> 'u world \<times> string \<times> string \<Rightarrow> 'u world \<times> string" where
  "step_host L x = (fst x, lib_Fqdn L (to_lower (snd (snd x))))"

lemma caching_run_fresh:
  assumes "cache_from u H c"
  shows "\<exists>vs. caching_run L u xs c = Some vs \<and> length vs = length xs \<and>
    (\<forall>k < length xs. \<forall>a \<in> set (slice_elems (fst (vs ! k))).
       fresh_address u (H \<union> step_host L ` set (take k xs)) (fst (xs ! k)) (snd (step_host L (xs ! k))) a)"
  using assms
proof (induction xs arbitrary: c H)
  case Nil
  then show ?case by simp
next
  case (Cons x xs)
  obtain w n h where x: "x = (w, n, h)" by (cases x)
  define h' where "h' = snd (step_host L x)"
  have h': "h' = lib_Fqdn L (to_lower h)" "step_host L x = (w, h')" by (simp_all add: h'_def step_host_def x)
  obtain as err c' where 1: "caching_lookup L w u c n h = Some ((as, err), c')"
    "cache_from u (insert (w, h') H) c'" "\<forall>a \<in> set (slice_elems as). fresh_address u H w h' a"
    using caching_lookup_fresh [OF Cons.prems h'(1), of w n] by blast
  from Cons.IH [OF 1(2)] obtain vs where 2: "caching_run L u xs c' = Some vs" "length vs = length xs"
    "\<forall>k < length xs. \<forall>a \<in> set (slice_elems (fst (vs ! k))).
       fresh_address u (insert (w, h') H \<union> step_host L ` set (take k xs)) (fst (xs ! k)) (snd (step_host L (xs ! k))) a"
    by blast
  have "fresh_address u (H \<union> step_host L ` set (take k (x # xs))) (fst ((x # xs) ! k)) (snd (step_host L ((x # xs) ! k))) a"
    if "k < length (x # xs)" "a \<in> set (slice_elems (fst ((((as, err) # vs)) ! k)))" for k a
  proof (cases k)
    case 0
    with that 1(3) show ?thesis by (simp add: x h'_def)
  next
    case (Suc j)
    with that have "fresh_address u (insert (w, h') H \<union> step_host L ` set (take j xs)) (fst (xs ! j)) (snd (step_host L (xs ! j))) a"
      using 2(3) by simp
    moreover have "insert (w, h') H \<union> step_host L ` set (take j xs) = H \<union> step_host L ` set (take k (x # xs))"
      by (simp add: Suc h'(2))
    ultimately show ?thesis by (simp add: Suc)
  qed
  with 1(1) 2(1,2) x show ?case by (intro exI [of _ "(as, err) # vs"]) simp
qed

text \<open>
  C22.  Over any sequence of lookups, whatever the upstream replies in each of them, a caching resolver
  returns without a panic, and every address it returns is from a record of a valid response of the
  upstream for that host: one obtained by this very lookup, or one of an earlier lookup of the same host
  whose time to live has not ended at the time of this lookup.
\<close>

theorem caching_resolver_fresh:
  "\<exists>vs. caching_run L u xs (\<lambda>_. None) = Some vs \<and> length vs = length xs \<and>
    (\<forall>k < length xs. \<forall>a \<in> set (slice_elems (fst (vs ! k))).
       fresh_address u (step_host L ` set (take k xs)) (fst (xs ! k)) (snd (step_host L (xs ! k))) a)"
  using caching_run_fresh [of u "{}" "\<lambda>_. None" L xs] by (simp add: cache_from_def)

definition later_world :: "nat world" where
  "later_world = sample_world\<lparr>w_now := 2000, w_Exchange := (\<lambda>_ _. Inl ErrNoReply)\<rparr>"

lemma sample_lower: "to_lower ''A.test'' = ''a.test''" "to_lower ''a.test'' = ''a.test''"
  by code_simp+

lemmas sample_lookup_simps = sample_lower sample_world_def later_world_def caching_lookup_def findCached_def NetworkIP_def
  NetworkIP4_def NetworkIP6_def up_lookupNetIP_def request_def request_type_def bootstrap_req_def bootstrap_ok_def
  empty_Msg_def IPFromRR_def To4_def ip_bytes_def AddrFromSlice_def time_Before_def
  sample_lib_def slice_elems_def

lemma sample_caching_run:
  "caching_run (sample_lib sample_resp) 1 [(sample_world, ''ip4'', ''a.test''), (later_world, n, ''A.test'')] (\<lambda>_. None) =
     Some [(Some [Addr4 [192, 0, 2, 1]], None), (Some [Addr4 [192, 0, 2, 1]], None)]"
  by (simp add: sample_lookup_simps)

theorem caching_resolver_fresh_witness:
  "caching_run (sample_lib sample_resp) 1 [(sample_world, ''ip4'', ''a.test''), (later_world, ''ip4'', ''A.test'')] (\<lambda>_. None) =
     Some [(Some [Addr4 [192, 0, 2, 1]], None), (Some [Addr4 [192, 0, 2, 1]], None)] \<and>
   fresh_address 1 {(sample_world, ''a.test'')} later_world ''a.test'' (Addr4 [192, 0, 2, 1])"
proof -
  have "fresh_address 1 (step_host (sample_lib sample_resp) ` {(sample_world, ''ip4'', ''a.test'')}) later_world
      (snd (step_host (sample_lib sample_resp) (later_world, ''ip4'', ''A.test''))) (Addr4 [192, 0, 2, 1])"
    using caching_resolver_fresh [of "sample_lib sample_resp" 1 "[(sample_world, ''ip4'', ''a.test''), (later_world, ''ip4'', ''A.test'')]"]
      sample_caching_run [of "''ip4''"] by (auto simp: slice_elems_def)
  then show ?thesis
    using sample_caching_run by (simp add: step_host_def sample_lib_def sample_lower)
qed

text \<open>
  The cache is keyed by the host alone: after a lookup of the IPv4 addresses a lookup of the IPv6 addresses
  of the same host is answered with the IPv4 addresses.
\<close>

lemma caching_resolver_ignores_network:
  "caching_run (sample_lib sample_resp) 1 [(sample_world, ''ip4'', ''a.test''), (later_world, ''ip6'', ''A.test'')] (\<lambda>_. None) =
     Some [(Some [Addr4 [192, 0, 2, 1]], None), (Some [Addr4 [192, 0, 2, 1]], None)]"
  by (rule sample_caching_run)

text \<open>A response without addresses of the family is kept for \<^verbatim>\<open>math.MaxUint32\<close> seconds.\<close>

lemma empty_result_cached:
  assumes "request w u host n = Some (Inr r)" "slice_elems (ir_addrs r) = []" "request_type n = Some q"
  shows "ir_addrs r = Some [] \<and> ir_expire r = Some (w_received w u q + 4294967295 * nanosecond_per_second)"
  using assms
  by (auto simp: request_def Let_def answer_addrs_eq slice_elems_def split: sum.splits option.splits if_splits)

subsection \<open>Fallback between resolvers\<close>

abbreviation lookup_of :: "dnslib \<Rightarrow> 'u world \<Rightarrow> string \<Rightarrow> string \<Rightarrow> 'u Resolver \<Rightarrow> lookup_result go" where
  "lookup_of L w n h r \<equiv> fst (LookupNetIP L w r n h)"

definition answered :: "lookup_result go \<Rightarrow> bool" where
  "answered v = (case v of Some (as, None) \<Rightarrow> slice_elems as \<noteq> [] | _ \<Rightarrow> False)"

definition error_of :: "lookup_result go \<Rightarrow> error option" where
  "error_of v = (case v of Some (_, e) \<Rightarrow> e | None \<Rightarrow> None)"

lemma lookup_seq_find:
  assumes "arrival_law w" "list_all resolver_wf rs"
  shows "fst (lookup_seq L w rs n h errs) = (case find (\<lambda>r. answered (lookup_of L w n h r)) rs of
      Some r \<Rightarrow> lookup_of L w n h r
    | None \<Rightarrow> Some (None, join_errors (errs @ map (\<lambda>r. error_of (lookup_of L w n h r)) rs)))"
  using assms
proof (induction rs arbitrary: errs)
  case (Cons r rs)
  obtain as err r' where e: "LookupNetIP L w r n h = (Some (as, err), r')"
    using resolver.lookup_returns [of w r L n h] Cons.prems by auto
  show ?case
  proof (cases "err = None \<and> slice_elems as \<noteq> []")
    case True
    with e show ?thesis by (simp add: answered_def)
  next
    case False
    then have "fst (lookup_seq L w (r # rs) n h errs) = fst (lookup_seq L w rs n h (errs @ [err]))"
      using e by (auto split: prod.splits)
    moreover have "\<not> answered (lookup_of L w n h r)" "error_of (lookup_of L w n h r) = err"
      using False e by (auto simp: answered_def error_of_def split: option.splits)
    ultimately show ?thesis
      using Cons.IH [of "errs @ [err]"] Cons.prems by (simp del: lookup_seq.simps cong: option.case_cong)
  qed
qed simp

lemma lookup_each_map: "fst (lookup_each L w rs n h) = map (lookup_of L w n h) rs"
  by (induction rs) (auto split: prod.splits)

lemma first_addrs_find:
  "first_addrs vs errs = (case find (\<lambda>v. \<not> isl v) vs of
      Some v \<Rightarrow> (projr v, None)
    | None \<Rightarrow> (None, errors_Join (errs @ map projl vs)))"
  by (induction vs errs rule: first_addrs.induct) (auto cong: option.case_cong)

lemma lookup_parallel:
  assumes "2 \<le> length rs"
  shows "lookup_of L w n h (ParallelResolver rs) =
    Some (first_addrs (w_arrive w (map (\<lambda>r. lookupAsync (lookup_of L w n h r)) rs)) [])"
proof -
  obtain vs rs' where e: "lookup_each L w rs n h = (vs, rs')" by fastforce
  then have vs: "vs = map (lookup_of L w n h) rs" using lookup_each_map [of L w rs n h] by simp
  obtain v1 v2 vs' where "vs = v1 # v2 # vs'"
    using assms vs by (cases rs; cases "tl rs") auto
  then have "lookup_of L w n h (ParallelResolver rs) = Some (first_addrs (w_arrive w (map lookupAsync vs)) [])"
    by (simp add: e)
  then show ?thesis by (simp add: vs comp_def)
qed

text \<open>
  The consequent resolver answers with the first of its resolvers, in their order, that returns
  addresses without an error, and otherwise with no addresses and the errors of all of them.  The
  parallel resolver answers with the first of the results, in the order of their arrival, that is no
  error, even if it has no addresses, and otherwise with the errors in that order.
\<close>

theorem resolvers_fallback:
  assumes "arrival_law w" "list_all resolver_wf rs" "2 \<le> length rs"
  shows "lookup_of L w n h (ConsequentResolver rs) = (case find (\<lambda>r. answered (lookup_of L w n h r)) rs of
        Some r \<Rightarrow> lookup_of L w n h r
      | None \<Rightarrow> Some (None, join_errors (map (\<lambda>r. error_of (lookup_of L w n h r)) rs))) \<and>
    lookup_of L w n h (ParallelResolver rs) =
      (let vs = w_arrive w (map (\<lambda>r. lookupAsync (lookup_of L w n h r)) rs) in
       Some (case find (\<lambda>v. \<not> isl v) vs of Some v \<Rightarrow> (projr v, None) | None \<Rightarrow> (None, errors_Join (map projl vs))))"
proof -
  have "rs \<noteq> []" using assms(3) by auto
  then have "lookup_of L w n h (ConsequentResolver rs) = fst (lookup_seq L w rs n h [])"
    by (simp split: prod.splits)
  then show ?thesis
    using lookup_seq_find [OF assms(1,2), of L n h "[]"] lookup_parallel [OF assms(3), of L w n h]
    by (simp add: first_addrs_find Let_def del: LookupNetIP.simps cong: option.case_cong)
qed

theorem resolvers_fallback_witness:
  "lookup_of (sample_lib sample_resp) sample_world ''ip4'' ''a.test'' (ConsequentResolver [UpstreamResolver 0, UpstreamResolver 2]) =
     Some (Some [Addr4 [192, 0, 2, 2]], None) \<and>
   lookup_of (sample_lib sample_resp) sample_world ''ip4'' ''a.test'' (ParallelResolver [UpstreamResolver 0, UpstreamResolver 2]) =
     Some (Some [Addr4 [192, 0, 2, 2]], None)"
proof -
  have "lookup_of (sample_lib sample_resp) sample_world ''ip4'' ''a.test'' (UpstreamResolver 0) =
      Some (Some [], Some (ErrMsg ''down''))"
    "lookup_of (sample_lib sample_resp) sample_world ''ip4'' ''a.test'' (UpstreamResolver 2) =
      Some (Some [Addr4 [192, 0, 2, 2]], None)"
    by (simp_all add: sample_lookup_simps upstream_lookup_def)
  then show ?thesis
    using resolvers_fallback [of sample_world "[UpstreamResolver 0, UpstreamResolver 2]" "sample_lib sample_resp" "''ip4''" "''a.test''"]
      sample_world_arrival
    by (simp add: answered_def slice_elems_def lookupAsync_def sample_world_def)
qed

subsection \<open>The addresses that are dialled\<close>

text \<open>
  \<^verbatim>\<open>netutil.PreferIPv4\<close> and \<^verbatim>\<open>netutil.PreferIPv6\<close> order valid addresses so that those of the preferred family
  come first.
\<close>

definition family6 :: "Addr \<Rightarrow> bool" where
  "family6 a = (case a of Addr6 _ \<Rightarrow> True | _ \<Rightarrow> False)"

definition prefer_law :: "(Addr \<Rightarrow> bool) \<Rightarrow> (Addr \<Rightarrow> Addr \<Rightarrow> int) \<Rightarrow> bool" where
  "prefer_law P cmp \<longleftrightarrow> (\<forall>a b. a \<noteq> AddrZero \<longrightarrow> b \<noteq> AddrZero \<longrightarrow> P a \<longrightarrow> \<not> P b \<longrightarrow> cmp a b < 0 \<and> cmp b a > 0)"

definition dial_env_law :: "dial_env \<Rightarrow> bool" where
  "dial_env_law E \<longleftrightarrow> prefer_law family6 (de_PreferIPv6 E) \<and> prefer_law (\<lambda>a. \<not> family6 a) (de_PreferIPv4 E)"

definition preferred_first :: "('a \<Rightarrow> bool) \<Rightarrow> 'a list \<Rightarrow> bool" where
  "preferred_first P xs \<longleftrightarrow> xs = filter P xs @ filter (\<lambda>x. \<not> P x) xs"

lemma preferred_first_Cons:
  "preferred_first P (x # xs) \<longleftrightarrow> (if P x then preferred_first P xs else \<forall>y \<in> set xs. \<not> P y)"
proof (cases "P x")
  case False
  have "x # xs = filter P xs @ x # filter (\<lambda>x. \<not> P x) xs \<longleftrightarrow> filter P xs = []"
  proof
    assume e: "x # xs = filter P xs @ x # filter (\<lambda>x. \<not> P x) xs"
    show "filter P xs = []"
    proof (cases "filter P xs")
      case (Cons y ys)
      with e have "x = y" by simp
      moreover have "y \<in> set (filter P xs)" using Cons by simp
      ultimately show ?thesis using False by simp
    qed simp
  qed (simp add: filter_empty_conv)
  with False show ?thesis by (simp add: preferred_first_def filter_empty_conv)
qed (simp add: preferred_first_def)

lemma mset_insert_stable [simp]: "mset (insert_stable cmp x xs) = add_mset x (mset xs)"
  by (induction xs) auto

lemma mset_SortStableFunc [simp]: "mset (SortStableFunc cmp xs) = mset xs"
  by (induction xs) (auto simp: SortStableFunc_def)

lemma set_insert_stable [simp]: "set (insert_stable cmp x xs) = insert x (set xs)"
  by (induction xs) auto

lemma insert_preferred_first:
  assumes "prefer_law P cmp" "AddrZero \<notin> set (x # xs)" "preferred_first P xs"
  shows "preferred_first P (insert_stable cmp x xs)"
  using assms(2,3)
proof (induction xs)
  case Nil
  then show ?case by (simp add: preferred_first_def)
next
  case (Cons y ys)
  have "cmp y x < 0" if "P y" "\<not> P x" using assms(1) that Cons.prems(1) by (auto simp: prefer_law_def)
  moreover have "\<not> cmp y x < 0" if "\<not> P y" "P x"
    using assms(1) that Cons.prems(1) unfolding prefer_law_def by (metis list.set_intros(1,2) not_less_iff_gr_or_eq)
  ultimately show ?case using Cons by (auto simp: preferred_first_Cons split: if_splits)
qed

lemma sort_preferred_first:
  "prefer_law P cmp \<Longrightarrow> AddrZero \<notin> set xs \<Longrightarrow> preferred_first P (SortStableFunc cmp xs)"
proof (induction xs)
  case (Cons x xs)
  have "set (SortStableFunc cmp xs) = set xs" by (metis mset_SortStableFunc set_mset_mset)
  with Cons show ?case
    using insert_preferred_first [of P cmp x "SortStableFunc cmp xs"] by (simp add: SortStableFunc_def)
qed (simp add: SortStableFunc_def preferred_first_def)

lemma dial_loop_find:
  "dial_loop dial as errs = (case find (\<lambda>a. \<not> isl (dial a)) as of
      Some a \<Rightarrow> dial a
    | None \<Rightarrow> Inl (ErrJoin (errs @ map (\<lambda>a. projl (dial a)) as)))"
  by (induction as arbitrary: errs) (auto split: sum.splits cong: option.case_cong)

text \<open>
  The dial handler of an upstream given by name: its resolver is asked for the addresses of the host
  once; an error of the lookup is wrapped, and otherwise the handler dials exactly the addresses found, with the port
  of the upstream, those of the preferred family first, and returns the first connection that succeeds,
  or the errors of all of them.  Creating the handler never panics.
\<close>

theorem dials_preferred_first:
  assumes "arrival_law w" "resolver_wf r" "dial_env_law E" "de_SplitHostPort E urlHost = Inr (host, port)"
  shows "\<exists>ips err r'. LookupNetIP L w r NetworkIP host = (Some (ips, err), r') \<and> resolver_wf r' \<and>
    (case err of
      Some e \<Rightarrow> ResolveDialContext L w E urlHost (Some r) v6 =
        (Some (Inl (ErrWrap ''dialing'' (ErrWrap ''resolving hostname'' e))), Some r')
    | None \<Rightarrow> \<exists>as. ResolveDialContext L w E urlHost (Some r) v6 = (Some (Inr (map (\<lambda>a. (a, port)) as)), Some r') \<and>
        mset as = mset (slice_elems ips) \<and> preferred_first (\<lambda>a. family6 a = v6) as \<and>
        NewDialContext dial as = (case find (\<lambda>a. \<not> isl (dial a)) as of
            Some a \<Rightarrow> dial a
          | None \<Rightarrow> Inl (if as = [] then errNoAddresses else ErrJoin (map (\<lambda>a. projl (dial a)) as))))"
proof -
  obtain ips err r' where l: "LookupNetIP L w r NetworkIP host = (Some (ips, err), r')" "resolver_wf r'" "valid_addrs ips"
    using resolver.lookup_returns [OF assms(1,2), of L NetworkIP host] by blast
  define cmp where "cmp = (if v6 then de_PreferIPv6 E else de_PreferIPv4 E)"
  define as where "as = SortStableFunc cmp (slice_elems ips)"
  have "prefer_law (\<lambda>a. family6 a = v6) cmp" using assms(3) by (cases v6) (simp_all add: dial_env_law_def cmp_def)
  then have "preferred_first (\<lambda>a. family6 a = v6) as"
    using sort_preferred_first l(3) by (simp add: as_def valid_addrs_def)
  moreover have "ResolveDialContext L w E urlHost (Some r) v6 = (Some (Inr (map (\<lambda>a. (a, port)) as)), Some r')"
    if "err = None"
    using that l(1) assms(4) unfolding ResolveDialContext_def by (simp add: as_def cmp_def)
  moreover have "ResolveDialContext L w E urlHost (Some r) v6 =
      (Some (Inl (ErrWrap ''dialing'' (ErrWrap ''resolving hostname'' e))), Some r')" if "err = Some e" for e
    using that l(1) assms(4) unfolding ResolveDialContext_def by simp
  moreover have "NewDialContext dial as = (case find (\<lambda>a. \<not> isl (dial a)) as of Some a \<Rightarrow> dial a
      | None \<Rightarrow> Inl (if as = [] then errNoAddresses else ErrJoin (map (\<lambda>a. projl (dial a)) as)))"
    by (simp add: NewDialContext_def dial_loop_find cong: option.case_cong)
  moreover have "mset as = mset (slice_elems ips)" by (simp add: as_def)
  ultimately have "case err of
      Some e \<Rightarrow> ResolveDialContext L w E urlHost (Some r) v6 =
        (Some (Inl (ErrWrap ''dialing'' (ErrWrap ''resolving hostname'' e))), Some r')
    | None \<Rightarrow> \<exists>as. ResolveDialContext L w E urlHost (Some r) v6 = (Some (Inr (map (\<lambda>a. (a, port)) as)), Some r') \<and>
        mset as = mset (slice_elems ips) \<and> preferred_first (\<lambda>a. family6 a = v6) as \<and>
        NewDialContext dial as = (case find (\<lambda>a. \<not> isl (dial a)) as of
            Some a \<Rightarrow> dial a
          | None \<Rightarrow> Inl (if as = [] then errNoAddresses else ErrJoin (map (\<lambda>a. projl (dial a)) as)))"
    by (cases err) (simp_all only: option.case, blast)
  with l(1,2) show ?thesis by blast
qed

definition sample_dial_env :: dial_env where
  "sample_dial_env = \<lparr> de_SplitHostPort = (\<lambda>s. Inr (s, 853)),
     de_PreferIPv4 = (\<lambda>a b. of_bool (family6 a) - of_bool (family6 b)),
     de_PreferIPv6 = (\<lambda>a b. of_bool (family6 b) - of_bool (family6 a)) \<rparr>"

definition sample_static :: "nat Resolver" where
  "sample_static = StaticResolver (Some [Addr4 [192, 0, 2, 1], Addr6 (replicate 16 0), Addr4 [192, 0, 2, 2]])"

theorem dials_preferred_first_witness:
  "ResolveDialContext (sample_lib sample_resp) sample_world sample_dial_env ''dns.test'' (Some sample_static) True =
     (Some (Inr [(Addr6 (replicate 16 0), 853), (Addr4 [192, 0, 2, 1], 853), (Addr4 [192, 0, 2, 2], 853)]), Some sample_static) \<and>
   preferred_first (\<lambda>a. family6 a = True) [Addr6 (replicate 16 0), Addr4 [192, 0, 2, 1], Addr4 [192, 0, 2, 2]]"
proof -
  have law: "dial_env_law sample_dial_env"
    by (simp add: dial_env_law_def prefer_law_def sample_dial_env_def)
  have wf: "resolver_wf sample_static" by (simp add: sample_static_def valid_addrs_def slice_elems_def)
  have run: "ResolveDialContext (sample_lib sample_resp) sample_world sample_dial_env ''dns.test'' (Some sample_static) True =
     (Some (Inr [(Addr6 (replicate 16 0), 853), (Addr4 [192, 0, 2, 1], 853), (Addr4 [192, 0, 2, 2], 853)]), Some sample_static)"
    by (simp add: ResolveDialContext_def sample_dial_env_def sample_static_def SortStableFunc_def slice_elems_def family6_def)
  have split: "de_SplitHostPort sample_dial_env ''dns.test'' = Inr (''dns.test'', 853)" by (simp add: sample_dial_env_def)
  have "LookupNetIP (sample_lib sample_resp) sample_world sample_static NetworkIP ''dns.test'' =
      (Some (Some [Addr4 [192, 0, 2, 1], Addr6 (replicate 16 0), Addr4 [192, 0, 2, 2]], None), sample_static)"
    by (simp add: sample_static_def)
  with dials_preferred_first [OF sample_world_arrival wf law split, of "sample_lib sample_resp" True "\<lambda>a. Inr a"] run
  have "preferred_first (\<lambda>a. family6 a = True) [Addr6 (replicate 16 0), Addr4 [192, 0, 2, 1], Addr4 [192, 0, 2, 2]]"
    by auto
  with run show ?thesis by simp
qed

end
