(* ===== verification/Exchange_State.thy ===== *)
theory Exchange_State
  imports Dns_Msg Go_Strings
begin

text \<open>
  The owner of the decision of one exchange (\<^verbatim>\<open>upstream/receipt.go\<close>): candidates are
  reserved, rejected or accepted while another goroutine may expire or abandon the
  exchange.  Every method holds the mutex, so that the methods run one after the other
  in some order; the time a method reads is an argument.  Closing the channel
  \<^verbatim>\<open>done\<close> a second time is a panic.
\<close>

subsection \<open>State and methods\<close>

definition ErrExchangeAbandoned :: error where "ErrExchangeAbandoned = ErrMsg ''exchange abandoned''"

definition DeadlineExceeded :: error where "DeadlineExceeded = ErrMsg ''context deadline exceeded''"

record ExchangeResult =
  er_Response :: "Msg option"
  er_ReceivedAt :: "int option"
  er_Err :: "error option"

record ExchangeState =
  xs_result :: ExchangeResult
  xs_deadline :: "int option"
  xs_received :: "int option"
  xs_done :: bool
  xs_ticket :: uint64
  xs_original :: uint16
  xs_started :: bool
  xs_reserved :: bool
  xs_sealed :: bool
  xs_finished :: bool

definition err_result :: "error \<Rightarrow> ExchangeResult" where
  "err_result e = \<lparr> er_Response = None, er_ReceivedAt = None, er_Err = Some e \<rparr>"

definition NewExchangeState :: "int option \<Rightarrow> ExchangeState" where
  "NewExchangeState cutoff = \<lparr> xs_result = \<lparr> er_Response = None, er_ReceivedAt = None, er_Err = None \<rparr>,
     xs_deadline = cutoff, xs_received = None, xs_done = False, xs_ticket = 0, xs_original = 0,
     xs_started = False, xs_reserved = False, xs_sealed = False, xs_finished = False \<rparr>"

definition close_done :: "ExchangeState \<Rightarrow> ExchangeState go" where
  "close_done s = (if xs_done s then None else Some (s\<lparr>xs_done := True\<rparr>))"

definition completeLocked :: "ExchangeResult \<Rightarrow> ExchangeState \<Rightarrow> ExchangeState go" where
  "completeLocked r s =
     (if xs_finished s then Some s
      else close_done (s\<lparr>xs_result := r, xs_finished := True, xs_reserved := False\<rparr>))"

definition xs_Result :: "ExchangeState \<Rightarrow> ExchangeResult \<times> bool" where
  "xs_Result s = (xs_result s, xs_finished s)"

definition Expire :: "ExchangeState \<Rightarrow> ExchangeState go" where
  "Expire s =
     (let s = s\<lparr>xs_sealed := True\<rparr> in
      if xs_reserved s then Some s else completeLocked (err_result DeadlineExceeded) s)"

definition Abandon :: "ExchangeState \<Rightarrow> ExchangeState go" where
  "Abandon s = completeLocked (err_result ErrExchangeAbandoned) s"

text \<open>The methods below accept a nil receiver.\<close>

definition xs_start :: "uint16 \<Rightarrow> ExchangeState option \<Rightarrow> error option \<times> ExchangeState option" where
  "xs_start i so = (case so of
      None \<Rightarrow> (None, None)
    | Some s \<Rightarrow> if xs_started s then (Some (ErrMsg ''exchange state reused''), so)
                else (None, Some (s\<lparr>xs_started := True, xs_original := i\<rparr>)))"

definition past_deadline :: "ExchangeState \<Rightarrow> int \<Rightarrow> bool" where
  "past_deadline s now = (case xs_deadline s of None \<Rightarrow> False | Some d \<Rightarrow> now > d)"

definition reserveCandidate :: "int \<Rightarrow> ExchangeState option \<Rightarrow> (uint64 \<times> ExchangeState option) go" where
  "reserveCandidate now so = (case so of
      None \<Rightarrow> Some (0, None)
    | Some s \<Rightarrow>
        if xs_finished s \<or> xs_sealed s \<or> xs_reserved s then Some (0, so)
        else if past_deadline s now then do {
          s \<leftarrow> completeLocked (err_result DeadlineExceeded) s;
          Some (0, Some s) }
        else let s = s\<lparr>xs_ticket := xs_ticket s + 1, xs_reserved := True, xs_received := Some now\<rparr>
             in Some (xs_ticket s, Some s))"

text \<open>The bits of a DNS header that make a frame a candidate.\<close>

definition final_header :: "bytes \<Rightarrow> uint16 \<Rightarrow> bool \<Rightarrow> bool" where
  "final_header wire i udp \<longleftrightarrow> \<not> (length wire < 12 \<or> get_uint16 wire \<noteq> Some i \<or>
     wire ! 2 AND 0x80 = 0 \<or> (udp \<and> wire ! 2 AND 0x02 \<noteq> 0))"

definition reserve :: "bytes \<Rightarrow> uint16 \<Rightarrow> bool \<Rightarrow> int \<Rightarrow> ExchangeState option \<Rightarrow> (uint64 \<times> ExchangeState option) go" where
  "reserve wire i udp now so =
     (if so = None \<or> \<not> final_header wire i udp then Some (0, so) else reserveCandidate now so)"

definition xs_reject :: "uint64 \<Rightarrow> int \<Rightarrow> ExchangeState option \<Rightarrow> ExchangeState option go" where
  "xs_reject ticket now so = (case so of
      None \<Rightarrow> Some None
    | Some s \<Rightarrow>
        if ticket = 0 \<or> xs_finished s \<or> \<not> xs_reserved s \<or> ticket \<noteq> xs_ticket s then Some so
        else let s = s\<lparr>xs_reserved := False\<rparr> in
          if xs_sealed s \<or> past_deadline s now then map_option Some (completeLocked (err_result DeadlineExceeded) s)
          else Some (Some s))"

definition xs_accept :: "uint64 \<Rightarrow> Msg \<Rightarrow> ExchangeState option \<Rightarrow> ExchangeState option go" where
  "xs_accept ticket response so = (case so of
      None \<Rightarrow> Some None
    | Some s \<Rightarrow>
        if ticket \<noteq> 0 \<and> \<not> xs_finished s \<and> xs_reserved s \<and> ticket = xs_ticket s
        then map_option Some (completeLocked \<lparr> er_Response = Some (response\<lparr>m_Id := xs_original s\<rparr>),
               er_ReceivedAt = xs_received s, er_Err = None \<rparr> s)
        else Some so)"

definition xs_finish :: "error option \<Rightarrow> ExchangeState option \<Rightarrow> ExchangeState option go" where
  "xs_finish err so = (case so of
      None \<Rightarrow> Some None
    | Some s \<Rightarrow> map_option Some (completeLocked (err_result (case err of None \<Rightarrow> ErrNoReply | Some e \<Rightarrow> e)) s))"

subsection \<open>Sequences of calls\<close>

text \<open>The calls that the exchange, its group and its timers may make, in any order.\<close>

datatype xs_op =
    OpStart uint16
  | OpReserve int
  | OpReject uint64 int
  | OpAccept uint64 Msg
  | OpFinish "error option"
  | OpExpire
  | OpAbandon

fun xs_step :: "xs_op \<Rightarrow> ExchangeState \<Rightarrow> ExchangeState go" where
  "xs_step (OpStart i) s = snd (xs_start i (Some s))"
| "xs_step (OpReserve now) s = do { (_, so) \<leftarrow> reserveCandidate now (Some s); so }"
| "xs_step (OpReject k now) s = do { so \<leftarrow> xs_reject k now (Some s); so }"
| "xs_step (OpAccept k m) s = do { so \<leftarrow> xs_accept k m (Some s); so }"
| "xs_step (OpFinish e) s = do { so \<leftarrow> xs_finish e (Some s); so }"
| "xs_step OpExpire s = Expire s"
| "xs_step OpAbandon s = Abandon s"

fun xs_run :: "xs_op list \<Rightarrow> ExchangeState \<Rightarrow> ExchangeState go" where
  "xs_run [] s = Some s"
| "xs_run (x # xs) s = do { s \<leftarrow> xs_step x s; xs_run xs s }"

subsection \<open>Decisions are final and admitted in time\<close>

definition in_time :: "int option \<Rightarrow> int option \<Rightarrow> bool" where
  "in_time cutoff t \<longleftrightarrow> (\<exists>t'. t = Some t' \<and> (\<forall>d. cutoff = Some d \<longrightarrow> t' \<le> d))"

definition xs_inv :: "uint16 \<Rightarrow> int option \<Rightarrow> ExchangeState \<Rightarrow> bool" where
  "xs_inv i cutoff s \<longleftrightarrow> xs_deadline s = cutoff \<and> xs_started s \<and> xs_original s = i \<and>
     (xs_done s \<longleftrightarrow> xs_finished s) \<and> (xs_finished s \<longrightarrow> \<not> xs_reserved s) \<and>
     (xs_reserved s \<longrightarrow> in_time cutoff (xs_received s)) \<and>
     (\<forall>r. er_Response (xs_result s) = Some r \<longrightarrow> xs_finished s \<and> m_Id r = i \<and> er_Err (xs_result s) = None \<and>
        in_time cutoff (er_ReceivedAt (xs_result s))) \<and>
     (xs_finished s \<longrightarrow> er_Response (xs_result s) = None \<longrightarrow> er_Err (xs_result s) \<noteq> None)"

text \<open>What may change from one state to a later one.\<close>

definition xs_later :: "ExchangeState \<Rightarrow> ExchangeState \<Rightarrow> bool" where
  "xs_later s s' \<longleftrightarrow> (xs_finished s \<longrightarrow> xs_finished s' \<and> xs_result s' = xs_result s) \<and>
     (xs_sealed s \<longrightarrow> xs_sealed s' \<and> (\<not> xs_finished s \<longrightarrow>
        (\<not> xs_finished s' \<longrightarrow> xs_received s' = xs_received s) \<and>
        (xs_finished s' \<longrightarrow> er_Response (xs_result s') \<noteq> None \<longrightarrow> er_ReceivedAt (xs_result s') = xs_received s)))"

lemma xs_later_refl [simp]: "(\<not> xs_finished s \<longrightarrow> er_Response (xs_result s) = None) \<Longrightarrow> xs_later s s"
  by (simp add: xs_later_def)

lemma xs_later_trans: "xs_later s s' \<Longrightarrow> xs_later s' s'' \<Longrightarrow> xs_later s s''"
  by (auto simp: xs_later_def)

lemmas xs_method_defs = completeLocked_def close_done_def Expire_def Abandon_def xs_start_def
  reserveCandidate_def xs_reject_def xs_accept_def xs_finish_def err_result_def past_deadline_def

lemma xs_step_ok:
  assumes "xs_inv i cutoff s"
  shows "\<exists>s'. xs_step x s = Some s' \<and> xs_inv i cutoff s' \<and> xs_later s s'"
proof (cases x)
  case (OpStart j)
  with assms show ?thesis by (simp add: xs_inv_def xs_later_def xs_method_defs)
next
  case (OpReserve now)
  with assms show ?thesis
    by (cases "xs_deadline s") (auto simp: xs_inv_def xs_later_def in_time_def xs_method_defs Let_def)
next
  case (OpReject k now)
  with assms show ?thesis by (auto simp: xs_inv_def xs_later_def xs_method_defs Let_def)
next
  case (OpAccept k m)
  with assms show ?thesis by (auto simp: xs_inv_def xs_later_def xs_method_defs)
next
  case (OpFinish e)
  with assms show ?thesis by (cases e) (auto simp: xs_inv_def xs_later_def xs_method_defs)
next
  case OpExpire
  with assms show ?thesis by (auto simp: xs_inv_def xs_later_def xs_method_defs Let_def)
next
  case OpAbandon
  with assms show ?thesis by (auto simp: xs_inv_def xs_later_def xs_method_defs)
qed

text \<open>Only accepting a reserved candidate publishes a response.\<close>

lemma xs_step_publish:
  assumes "xs_inv i cutoff s" "xs_step x s = Some s'" "\<not> xs_finished s" "er_Response (xs_result s') = Some r"
  shows "\<exists>k m. x = OpAccept k m \<and> k \<noteq> 0 \<and> r = m\<lparr>m_Id := i\<rparr>"
  using assms
  by (cases x) (auto simp: xs_inv_def xs_method_defs Let_def split: if_splits option.splits)

lemma xs_run_ok:
  assumes "xs_inv i cutoff s"
  shows "\<exists>s'. xs_run xs s = Some s' \<and> xs_inv i cutoff s' \<and> xs_later s s'"
  using assms
proof (induction xs arbitrary: s)
  case Nil
  then show ?case by (simp add: xs_inv_def) (metis option.exhaust xs_later_refl)
next
  case (Cons x xs)
  from xs_step_ok [OF Cons.prems] obtain s1 where
    1: "xs_step x s = Some s1" "xs_inv i cutoff s1" "xs_later s s1" by blast
  from Cons.IH [OF 1(2)] obtain s2 where "xs_run xs s1 = Some s2" "xs_inv i cutoff s2" "xs_later s1 s2" by blast
  with 1 xs_later_trans show ?case by auto
qed

lemma xs_inv_started: "xs_run [OpStart i] (NewExchangeState cutoff) = Some s \<Longrightarrow> xs_inv i cutoff s"
  by (auto simp: xs_start_def NewExchangeState_def xs_inv_def)

text \<open>
  The decision of an exchange.  Whatever calls its goroutine, its group and its timer make after the
  start, in whatever order and with whatever tickets, no call panics and the channel is closed exactly when
  a decision is there.  A decision never changes.  A response is published only with the identifier of
  the request and only if its frame was complete before the cutoff; once admission is sealed by
  \<^verbatim>\<open>Expire\<close> only the candidate already observed can be published.
\<close>

theorem exchange_decision_final:
  "\<exists>s s'. xs_run (OpStart i # xs) (NewExchangeState cutoff) = Some s \<and> xs_run ys s = Some s' \<and>
     (xs_done s' \<longleftrightarrow> xs_finished s') \<and>
     (xs_finished s \<longrightarrow> xs_Result s' = xs_Result s) \<and>
     (\<forall>r. er_Response (xs_result s') = Some r \<longrightarrow> m_Id r = i \<and> er_Err (xs_result s') = None \<and>
        (\<exists>t. er_ReceivedAt (xs_result s') = Some t \<and> (\<forall>d. cutoff = Some d \<longrightarrow> t \<le> d))) \<and>
     (xs_sealed s \<longrightarrow> \<not> xs_finished s \<longrightarrow> er_Response (xs_result s') \<noteq> None \<longrightarrow>
        er_ReceivedAt (xs_result s') = xs_received s)"
proof -
  obtain s0 where s0: "xs_run [OpStart i] (NewExchangeState cutoff) = Some s0"
    by (simp add: xs_start_def NewExchangeState_def)
  from xs_run_ok [OF xs_inv_started [OF s0], of xs] obtain s where
    1: "xs_run xs s0 = Some s" "xs_inv i cutoff s" by blast
  from xs_run_ok [OF 1(2), of ys] obtain s' where
    2: "xs_run ys s = Some s'" "xs_inv i cutoff s'" "xs_later s s'" by blast
  have "xs_run (OpStart i # xs) (NewExchangeState cutoff) = Some s"
    using s0 1(1) by (cases "snd (xs_start i (Some (NewExchangeState cutoff)))") simp_all
  moreover have "xs_done s' \<longleftrightarrow> xs_finished s'" using 2(2) by (simp add: xs_inv_def)
  moreover have "xs_finished s \<longrightarrow> xs_Result s' = xs_Result s" using 2(3) by (simp add: xs_later_def xs_Result_def)
  moreover have resp: "xs_finished s' \<and> m_Id r = i \<and> er_Err (xs_result s') = None \<and>
        (\<exists>t. er_ReceivedAt (xs_result s') = Some t \<and> (\<forall>d. cutoff = Some d \<longrightarrow> t \<le> d))"
    if "er_Response (xs_result s') = Some r" for r
    using 2(2) that unfolding xs_inv_def in_time_def by blast
  moreover have "er_ReceivedAt (xs_result s') = xs_received s"
    if "xs_sealed s" "\<not> xs_finished s" "er_Response (xs_result s') \<noteq> None"
    using 2(3) that resp unfolding xs_later_def by blast
  ultimately show ?thesis using 2(1) by blast
qed

theorem exchange_decision_final_witness:
  "\<exists>s s'. xs_run [OpStart 7, OpReserve 5, OpExpire] (NewExchangeState (Some 9)) = Some s \<and>
     xs_run [OpReserve 8, OpAccept 1 empty_Msg, OpFinish None, OpAbandon] s = Some s' \<and>
     er_ReceivedAt (xs_result s') = Some 5 \<and> m_Id (the (er_Response (xs_result s'))) = 7"
proof -
  from exchange_decision_final [of 7 "[OpReserve 5, OpExpire]" "Some 9" "[OpReserve 8, OpAccept 1 empty_Msg, OpFinish None, OpAbandon]"]
  obtain s s' where s: "xs_run [OpStart 7, OpReserve 5, OpExpire] (NewExchangeState (Some 9)) = Some s"
    "xs_run [OpReserve 8, OpAccept 1 empty_Msg, OpFinish None, OpAbandon] s = Some s'"
    "\<forall>r. er_Response (xs_result s') = Some r \<longrightarrow> m_Id r = 7"
    "xs_sealed s \<longrightarrow> \<not> xs_finished s \<longrightarrow> er_Response (xs_result s') \<noteq> None \<longrightarrow> er_ReceivedAt (xs_result s') = xs_received s"
    by blast
  have "xs_sealed s" "\<not> xs_finished s" "xs_received s = Some 5"
    using s(1) by (auto simp: NewExchangeState_def xs_method_defs Let_def)
  moreover have "er_Response (xs_result s') \<noteq> None"
    using s(1,2) by (auto simp: NewExchangeState_def xs_method_defs Let_def)
  ultimately show ?thesis using s by auto
qed

subsection \<open>The specification the methods implement\<close>

text \<open>
  What the flags of the record encode: the exchange awaits a frame, with the number of candidates so far; it has a
  candidate with its ticket and the time it was observed, possibly after admission was sealed; or it is decided.
\<close>

datatype decision =
    Awaiting uint64
  | Candidate uint64 int bool
  | Decided ExchangeResult

definition late :: "int option \<Rightarrow> int \<Rightarrow> bool" where
  "late cutoff now = (case cutoff of None \<Rightarrow> False | Some d \<Rightarrow> now > d)"

fun decision_step :: "uint16 \<Rightarrow> int option \<Rightarrow> xs_op \<Rightarrow> decision \<Rightarrow> decision" where
  "decision_step i cutoff x (Decided r) = Decided r"
| "decision_step i cutoff (OpStart j) d = d"
| "decision_step i cutoff (OpReserve now) (Awaiting n) =
     (if late cutoff now then Decided (err_result DeadlineExceeded) else Candidate (n + 1) now False)"
| "decision_step i cutoff (OpReserve now) (Candidate k t b) = Candidate k t b"
| "decision_step i cutoff (OpReject k now) (Awaiting n) = Awaiting n"
| "decision_step i cutoff (OpReject k now) (Candidate k' t b) =
     (if k = 0 \<or> k \<noteq> k' then Candidate k' t b
      else if b \<or> late cutoff now then Decided (err_result DeadlineExceeded) else Awaiting k')"
| "decision_step i cutoff (OpAccept k m) (Awaiting n) = Awaiting n"
| "decision_step i cutoff (OpAccept k m) (Candidate k' t b) =
     (if k = 0 \<or> k \<noteq> k' then Candidate k' t b
      else Decided \<lparr> er_Response = Some (m\<lparr>m_Id := i\<rparr>), er_ReceivedAt = Some t, er_Err = None \<rparr>)"
| "decision_step i cutoff (OpFinish e) d = Decided (err_result (case e of None \<Rightarrow> ErrNoReply | Some e \<Rightarrow> e))"
| "decision_step i cutoff OpExpire (Awaiting n) = Decided (err_result DeadlineExceeded)"
| "decision_step i cutoff OpExpire (Candidate k t b) = Candidate k t True"
| "decision_step i cutoff OpAbandon d = Decided (err_result ErrExchangeAbandoned)"

definition decision_of :: "ExchangeState \<Rightarrow> decision" where
  "decision_of s =
     (if xs_finished s then Decided (xs_result s)
      else if xs_reserved s then Candidate (xs_ticket s) (the (xs_received s)) (xs_sealed s)
      else Awaiting (xs_ticket s))"

text \<open>Admission is sealed only while a candidate is left or after the decision.\<close>

definition xs_wf :: "uint16 \<Rightarrow> int option \<Rightarrow> ExchangeState \<Rightarrow> bool" where
  "xs_wf i cutoff s \<longleftrightarrow> xs_inv i cutoff s \<and> (xs_sealed s \<longrightarrow> \<not> xs_finished s \<longrightarrow> xs_reserved s)"

lemma xs_step_refines:
  assumes "xs_wf i cutoff s"
  shows "\<exists>s'. xs_step x s = Some s' \<and> xs_wf i cutoff s' \<and> decision_of s' = decision_step i cutoff x (decision_of s)"
proof -
  have inv: "xs_inv i cutoff s" and seal: "xs_sealed s \<longrightarrow> \<not> xs_finished s \<longrightarrow> xs_reserved s"
    using assms by (simp_all add: xs_wf_def)
  obtain s' where s': "xs_step x s = Some s'" "xs_inv i cutoff s'" using xs_step_ok [OF inv] by blast
  have "(xs_sealed s' \<longrightarrow> \<not> xs_finished s' \<longrightarrow> xs_reserved s') \<and>
      decision_of s' = decision_step i cutoff x (decision_of s)"
    using s'(1) inv seal
    by (cases x) (auto simp: xs_inv_def in_time_def decision_of_def late_def xs_method_defs Let_def
        split: if_splits option.splits)
  with s' show ?thesis by (simp add: xs_wf_def)
qed

lemma xs_run_refines:
  assumes "xs_wf i cutoff s"
  shows "\<exists>s'. xs_run xs s = Some s' \<and> xs_wf i cutoff s' \<and>
    decision_of s' = fold (decision_step i cutoff) xs (decision_of s)"
  using assms
proof (induction xs arbitrary: s)
  case (Cons x xs)
  from xs_step_refines [OF Cons.prems, of x] obtain s1 where
    1: "xs_step x s = Some s1" "xs_wf i cutoff s1" "decision_of s1 = decision_step i cutoff x (decision_of s)" by blast
  from Cons.IH [OF 1(2)] 1 show ?case by auto
qed simp

text \<open>
  C10: the methods of the exchange state implement the specification.  After the start, every sequence of calls, in
  whatever order, runs without a panic and leaves the record in a state whose meaning is what the specification makes
  of the same sequence, starting with no candidate; and \<^verbatim>\<open>Result\<close> reports a decision exactly when the
  specification has one, with the same result.
\<close>

theorem exchange_state_refines:
  "\<exists>s. xs_run (OpStart i # xs) (NewExchangeState cutoff) = Some s \<and>
     decision_of s = fold (decision_step i cutoff) xs (Awaiting 0) \<and>
     (\<forall>r. xs_Result s = (r, True) \<longleftrightarrow> fold (decision_step i cutoff) xs (Awaiting 0) = Decided r)"
proof -
  obtain s0 where s0: "xs_run [OpStart i] (NewExchangeState cutoff) = Some s0" "xs_wf i cutoff s0"
      "decision_of s0 = Awaiting 0"
    by (auto simp: xs_start_def NewExchangeState_def xs_wf_def xs_inv_def decision_of_def)
  from xs_run_refines [OF s0(2), of xs] obtain s where
    s: "xs_run xs s0 = Some s" "xs_wf i cutoff s" "decision_of s = fold (decision_step i cutoff) xs (Awaiting 0)"
    using s0(3) by auto
  have "xs_run (OpStart i # xs) (NewExchangeState cutoff) = Some s"
    using s0(1) s(1) by (cases "snd (xs_start i (Some (NewExchangeState cutoff)))") simp_all
  moreover have "xs_Result s = (r, True) \<longleftrightarrow> decision_of s = Decided r" for r
    by (simp add: xs_Result_def decision_of_def)
  ultimately show ?thesis using s(3) by auto
qed

end
