(* ===== verification/Upstream_Plain.thy ===== *)
theory Upstream_Plain
  imports Exchange_State Sample_Lib
begin

text \<open>
  Reading a DNS response from a connection (\<^verbatim>\<open>upstream/response.go\<close>), the validation of
  its question (\<^verbatim>\<open>upstream/upstream.go\<close>) and the plain DNS upstream
  (\<^verbatim>\<open>upstream/plain.go\<close>).  A connection is what its operations return: the outcomes of
  setting the deadline, of writing and closing, and the frames that can be read before
  the deadline, each with the times of its observation and of the end of its decoding
  and with the calls of \<^verbatim>\<open>Expire\<close> and \<^verbatim>\<open>Abandon\<close> that other goroutines make meanwhile.
\<close>

subsection \<open>Errors\<close>

definition errDNSProtocol :: error where "errDNSProtocol = ErrMsg ''invalid DNS response''"

definition errQuestion :: error where "errQuestion = ErrMsg ''bad question section''"

definition ErrShortRead :: error where "ErrShortRead = ErrMsg ''dns: short read''"

definition ErrId :: error where "ErrId = ErrMsg ''dns: id mismatch''"

definition ErrTimeout :: error where "ErrTimeout = ErrMsg ''i/o timeout''"

definition io_EOF :: error where "io_EOF = ErrMsg ''EOF''"

definition Err0RTTRejected :: error where "Err0RTTRejected = ErrMsg ''0-RTT rejected''"

subsection \<open>Validation\<close>

definition EqualFold :: "string \<Rightarrow> string \<Rightarrow> bool" where
  "EqualFold s t \<longleftrightarrow> to_lower s = to_lower t"

definition validateResponse :: "Msg \<Rightarrow> Msg \<Rightarrow> error option go" where
  "validateResponse req resp =
     (if length (m_Question resp) \<noteq> 1 then Some (Some (ErrWrap ''only 1 question allowed'' errQuestion))
      else do {
        reqQ \<leftarrow> go_index (m_Question req) 0;
        respQ \<leftarrow> go_index (m_Question resp) 0;
        if q_Qtype reqQ \<noteq> q_Qtype respQ then Some (Some (ErrWrap ''mismatched type'' errQuestion))
        else if \<not> EqualFold (q_Name reqQ) (q_Name respQ) then Some (Some (ErrWrap ''mismatched name'' errQuestion))
        else Some None })"

subsection \<open>Connections\<close>

datatype group_call = GroupExpire | GroupAbandon

record read_event =
  rv_before :: "group_call list"
  rv_now :: int
  rv_frame :: "error + bytes"
  rv_during :: "group_call list"
  rv_end :: int

record connection =
  cn_SetDeadline :: "error option"
  cn_WriteMsg :: "error option"
  cn_reads :: "read_event list"
  cn_Close :: "error option"

text \<open>
  The message library decodes a frame into a message, possibly a partial one with an error;
  \<^verbatim>\<open>up_asNet\<close> is \<^verbatim>\<open>errors.As\<close> for network errors and tells whether one is a timeout.
\<close>

record conn_env =
  up_Unpack :: "bytes \<Rightarrow> Msg \<times> error option"
  up_IsTsig :: "Msg \<Rightarrow> bool"
  up_TsigVerify :: "bytes \<Rightarrow> error option"
  up_asNet :: "error \<Rightarrow> bool option"
  up_WithDeferred :: "error option \<Rightarrow> error option \<Rightarrow> error option"

fun group_calls :: "group_call list \<Rightarrow> ExchangeState option \<Rightarrow> ExchangeState option go" where
  "group_calls cs None = Some None"
| "group_calls [] (Some s) = Some (Some s)"
| "group_calls (c # cs) (Some s) = do {
     s \<leftarrow> (case c of GroupExpire \<Rightarrow> Expire s | GroupAbandon \<Rightarrow> Abandon s);
     group_calls cs (Some s) }"

subsection \<open>Reading a response\<close>

definition decode_frame :: "conn_env \<Rightarrow> bytes \<Rightarrow> Msg \<times> error option" where
  "decode_frame E wire = (let (response, err) = up_Unpack E wire in
     (response, if err = None \<and> up_IsTsig E response then up_TsigVerify E wire else err))"

text \<open>When no frame is left the deadline of the connection ends the reading.\<close>

fun readDNSResponse ::
  "conn_env \<Rightarrow> Msg \<Rightarrow> bool \<Rightarrow> bool \<Rightarrow> read_event list \<Rightarrow> ExchangeState option \<Rightarrow>
     (Msg option \<times> error option \<times> ExchangeState option) go" where
  "readDNSResponse E req udp checkQuestion [] so = Some (None, Some ErrTimeout, so)"
| "readDNSResponse E req udp checkQuestion (r # rs) so = do {
     so \<leftarrow> group_calls (rv_before r) so;
     (case rv_frame r of
       Inl err \<Rightarrow> Some (None, Some (if errors_Is ErrShortRead err then ErrJoin [errDNSProtocol, err] else err), so)
     | Inr wire \<Rightarrow> do {
         (ticket, so) \<leftarrow> reserve wire (m_Id req) udp (rv_now r) so;
         let (response, err) = decode_frame E wire;
         so \<leftarrow> group_calls (rv_during r) so;
         (case err of
           Some e \<Rightarrow> do {
             so \<leftarrow> xs_reject ticket (rv_end r) so;
             Some (Some response, Some (ErrJoin [errDNSProtocol, e]), so) }
         | None \<Rightarrow>
             if m_Id response \<noteq> m_Id req then do {
               so \<leftarrow> xs_reject ticket (rv_end r) so;
               if udp then readDNSResponse E req udp checkQuestion rs so
               else Some (Some response, Some (ErrJoin [errDNSProtocol, ErrId]), so) }
             else do {
               qerr \<leftarrow> (if checkQuestion then validateResponse req response else Some None);
               (case qerr of
                 Some e \<Rightarrow> do {
                   so \<leftarrow> xs_reject ticket (rv_end r) so;
                   Some (Some response, Some (ErrJoin [errDNSProtocol, e]), so) }
               | None \<Rightarrow> do {
                   so \<leftarrow> xs_accept ticket response so;
                   Some (Some response, None, so) }) }) }) }"

subsection \<open>The plain upstream\<close>

definition networkUDP :: string where "networkUDP = ''udp''"

definition networkTCP :: string where "networkTCP = ''tcp''"

text \<open>The dialer is asked at most twice per network.\<close>

record plainDNS =
  pl_env :: conn_env
  pl_net :: string
  pl_bootstrap :: bool
  pl_getDialer :: "error option"
  pl_dial :: "string \<Rightarrow> nat \<Rightarrow> error + connection"
  pl_newId :: uint16

definition isExchangeTimeout :: "conn_env \<Rightarrow> error \<Rightarrow> bool" where
  "isExchangeTimeout E err \<longleftrightarrow> errors_Is DeadlineExceeded err \<or> up_asNet E err = Some True"

definition isExpectedConnErr :: "conn_env \<Rightarrow> error option \<Rightarrow> bool" where
  "isExpectedConnErr E eo = (case eo of
      None \<Rightarrow> False
    | Some err \<Rightarrow> \<not> isExchangeTimeout E err \<and> (up_asNet E err \<noteq> None \<or> errors_Is io_EOF err))"

definition setRequestForNetwork :: "uint16 \<Rightarrow> Msg \<Rightarrow> string \<Rightarrow> Msg" where
  "setRequestForNetwork newId orig network =
     (if network \<noteq> networkUDP then orig
      else if m_Id orig = 0 then orig\<lparr>m_Id := newId\<rparr> else orig)"

definition exchangeWithConn ::
  "plainDNS \<Rightarrow> Msg \<Rightarrow> connection \<Rightarrow> string \<Rightarrow> ExchangeState option \<Rightarrow>
     (Msg option \<times> error option \<times> ExchangeState option) go" where
  "exchangeWithConn p req conn network so =
     (if cn_SetDeadline conn \<noteq> None then Some (None, cn_SetDeadline conn, so)
      else if cn_WriteMsg conn \<noteq> None then Some (None, cn_WriteMsg conn, so)
      else readDNSResponse (pl_env p) req (network = networkUDP) (\<not> pl_bootstrap p) (cn_reads conn) so)"

definition wrap_exchange :: "error option \<Rightarrow> error option" where
  "wrap_exchange err = map_option (ErrWrap ''exchanging'') err"

text \<open>The deferred functions close the connections, the last one first, and restore the identifier.\<close>

definition dialExchange ::
  "plainDNS \<Rightarrow> string \<Rightarrow> Msg \<Rightarrow> ExchangeState option \<Rightarrow>
     (Msg option \<times> error option \<times> ExchangeState option) go" where
  "dialExchange p network req so =
     (let E = pl_env p; upstreamReq = setRequestForNetwork (pl_newId p) req network in
      (case pl_dial p network 0 of
        Inl err \<Rightarrow> Some (None, Some (ErrWrap ''dialing'' err), so)
      | Inr conn \<Rightarrow> do {
          (resp, err, so) \<leftarrow> exchangeWithConn p upstreamReq conn network so;
          (resp, err, so) \<leftarrow>
            (if \<not> pl_bootstrap p \<and> isExpectedConnErr E err then
               (case pl_dial p network 1 of
                 Inl err \<Rightarrow> Some (None, Some (ErrWrap ''dialing again'' err), so)
               | Inr conn2 \<Rightarrow> do {
                   (resp, err, so) \<leftarrow> exchangeWithConn p upstreamReq conn2 network so;
                   Some (resp, up_WithDeferred E (wrap_exchange err) (cn_Close conn2), so) })
             else Some (resp, wrap_exchange err, so));
          let err = up_WithDeferred E err (cn_Close conn);
          Some (map_option (\<lambda>m. m\<lparr>m_Id := m_Id req\<rparr>) resp, err, so) }))"

definition plain_exchange ::
  "plainDNS \<Rightarrow> Msg \<Rightarrow> ExchangeState option \<Rightarrow> (Msg option \<times> error option \<times> ExchangeState option) go" where
  "plain_exchange p req so = do {
     (resp, err, so) \<leftarrow> dialExchange p (pl_net p) req so;
     if pl_bootstrap p \<and> err \<noteq> None then Some (resp, err, so)
     else if pl_net p \<noteq> networkUDP then Some (resp, err, so)
     else (case resp of
         None \<Rightarrow> Some (resp, err, so)
       | Some m \<Rightarrow>
           if \<not> pl_bootstrap p \<and> (case err of None \<Rightarrow> False | Some e \<Rightarrow> errors_Is errQuestion e)
           then dialExchange p networkTCP req so
           else if m_Truncated m then do { _ \<leftarrow> go_index (m_Question req) 0; dialExchange p networkTCP req so }
           else Some (resp, err, so)) }"

subsection \<open>The state only observes\<close>

text \<open>
  A step of an exchange from the state \<^term>\<open>s\<close> to \<^term>\<open>s'\<close> that publishes nothing but possibly
  a response with the property \<^term>\<open>P\<close>.
\<close>

definition publishes :: "uint16 \<Rightarrow> int option \<Rightarrow> (Msg \<Rightarrow> bool) \<Rightarrow> ExchangeState \<Rightarrow> ExchangeState \<Rightarrow> bool" where
  "publishes i cutoff P s s' \<longleftrightarrow> xs_inv i cutoff s' \<and> xs_later s s' \<and>
     (\<forall>r. \<not> xs_finished s \<longrightarrow> er_Response (xs_result s') = Some r \<longrightarrow> P r)"

lemma publishes_trans:
  assumes "publishes i c P s s'" "publishes i c Q s' s''"
  shows "publishes i c (\<lambda>r. P r \<or> Q r) s s''"
  using assms unfolding publishes_def by (metis xs_later_def xs_later_trans)

lemma publishes_mono: "publishes i c P s s' \<Longrightarrow> (\<And>r. P r \<Longrightarrow> Q r) \<Longrightarrow> publishes i c Q s s'"
  by (auto simp: publishes_def)

lemma publishes_refl: "xs_inv i c s \<Longrightarrow> publishes i c P s s"
  by (auto simp: publishes_def xs_inv_def intro!: xs_later_refl)

lemma publishes_inv: "publishes i c P s s' \<Longrightarrow> xs_inv i c s'"
  by (simp add: publishes_def)

lemma step_publishes:
  assumes "xs_inv i c s"
  obtains s' where "xs_step x s = Some s'"
    "publishes i c (\<lambda>r. \<exists>k m. x = OpAccept k m \<and> k \<noteq> 0 \<and> r = m\<lparr>m_Id := i\<rparr>) s s'"
  using xs_step_ok [OF assms, of x] xs_step_publish [OF assms, of x] unfolding publishes_def by blast

lemma group_calls_publishes:
  assumes "xs_inv i c s"
  shows "\<exists>s'. group_calls cs (Some s) = Some (Some s') \<and> publishes i c (\<lambda>_. False) s s'"
  using assms
proof (induction cs arbitrary: s)
  case Nil
  then show ?case by (simp add: publishes_refl)
next
  case (Cons a cs)
  obtain s1 where 1: "(case a of GroupExpire \<Rightarrow> Expire s | GroupAbandon \<Rightarrow> Abandon s) = Some s1"
    "publishes i c (\<lambda>_. False) s s1"
    by (rule step_publishes [OF Cons.prems, of "case a of GroupExpire \<Rightarrow> OpExpire | GroupAbandon \<Rightarrow> OpAbandon"])
      (cases a; auto elim: publishes_mono)
  from Cons.IH [OF publishes_inv [OF 1(2)]] obtain s2 where
    2: "group_calls cs (Some s1) = Some (Some s2)" "publishes i c (\<lambda>_. False) s1 s2" by blast
  have "publishes i c (\<lambda>_. False) s s2" using publishes_trans [OF 1(2) 2(2)] by simp
  with 1(1) 2(1) show ?case by simp
qed

lemma reserve_publishes:
  assumes "xs_inv i c s"
  shows "\<exists>k s'. reserve wire j udp now (Some s) = Some (k, Some s') \<and> publishes i c (\<lambda>_. False) s s' \<and>
    (k \<noteq> 0 \<longrightarrow> final_header wire j udp)"
proof (cases "final_header wire j udp")
  case True
  obtain s' where s': "xs_step (OpReserve now) s = Some s'" "publishes i c (\<lambda>_. False) s s'"
    by (rule step_publishes [OF assms, of "OpReserve now"]) (auto elim: publishes_mono)
  then obtain k where "reserveCandidate now (Some s) = Some (k, Some s')"
    by (auto simp: bind_eq_Some_conv)
  with True s'(2) show ?thesis by (simp add: reserve_def)
next
  case False
  with publishes_refl [OF assms] show ?thesis by (simp add: reserve_def)
qed

lemma reject_publishes:
  assumes "xs_inv i c s"
  shows "\<exists>s'. xs_reject k now (Some s) = Some (Some s') \<and> publishes i c (\<lambda>_. False) s s'"
proof -
  obtain s' where "xs_step (OpReject k now) s = Some s'" "publishes i c (\<lambda>_. False) s s'"
    by (rule step_publishes [OF assms, of "OpReject k now"]) (auto elim: publishes_mono)
  then show ?thesis by (auto simp: bind_eq_Some_conv)
qed

lemma accept_publishes:
  assumes "xs_inv i c s"
  shows "\<exists>s'. xs_accept k m (Some s) = Some (Some s') \<and> publishes i c (\<lambda>r. k \<noteq> 0 \<and> r = m\<lparr>m_Id := i\<rparr>) s s'"
proof -
  obtain s' where "xs_step (OpAccept k m) s = Some s'" "publishes i c (\<lambda>r. k \<noteq> 0 \<and> r = m\<lparr>m_Id := i\<rparr>) s s'"
    by (rule step_publishes [OF assms, of "OpAccept k m"]) (auto elim: publishes_mono)
  then show ?thesis by (auto simp: bind_eq_Some_conv)
qed

text \<open>What the code relies on: a message that is decoded has the truncation bit of its header.\<close>

definition unpack_header_law :: "conn_env \<Rightarrow> bool" where
  "unpack_header_law E \<longleftrightarrow> (\<forall>wire m. up_Unpack E wire = (m, None) \<longrightarrow> 12 \<le> length wire \<longrightarrow>
     m_Truncated m = (wire ! 2 AND 0x02 \<noteq> 0))"

lemma decode_frame_None: "decode_frame E wire = (m, None) \<Longrightarrow> up_Unpack E wire = (m, None)"
  by (auto simp: decode_frame_def Let_def split: prod.splits if_splits)

lemma final_header_not_truncated:
  assumes "unpack_header_law E" "decode_frame E wire = (m, None)" "final_header wire j True"
  shows "\<not> m_Truncated m"
  using assms decode_frame_None [OF assms(2)] by (auto simp: unpack_header_law_def final_header_def)

lemma validateResponse_total: "m_Question req \<noteq> [] \<Longrightarrow> \<exists>e. validateResponse req resp = Some e"
  by (cases "m_Question req"; cases "m_Question resp") (auto simp: validateResponse_def go_index_def)

text \<open>A result of reading: an accepted message fits the request, and only an accepted message is published.\<close>

definition good_read :: "Msg \<Rightarrow> bool \<Rightarrow> Msg option \<Rightarrow> error option \<Rightarrow> bool" where
  "good_read req check resp err \<longleftrightarrow> (err = None \<longrightarrow> (\<exists>m. resp = Some m \<and> m_Id m = m_Id req \<and>
     (check \<longrightarrow> validateResponse req m = Some None)))"

definition published_read :: "uint16 \<Rightarrow> bool \<Rightarrow> Msg option \<Rightarrow> error option \<Rightarrow> Msg \<Rightarrow> bool" where
  "published_read i udp resp err r \<longleftrightarrow> err = None \<and> (\<exists>m. resp = Some m \<and> r = m\<lparr>m_Id := i\<rparr> \<and> (udp \<longrightarrow> \<not> m_Truncated m))"

lemma readDNSResponse_spec:
  assumes "unpack_header_law E" "m_Question req \<noteq> []" "xs_inv i c s"
  shows "\<exists>resp err s'. readDNSResponse E req udp check rs (Some s) = Some (resp, err, Some s') \<and>
    readDNSResponse E req udp check rs None = Some (resp, err, None) \<and> good_read req check resp err \<and>
    publishes i c (published_read i udp resp err) s s'"
  using assms(3)
proof (induction rs arbitrary: s)
  case Nil
  then show ?case by (simp add: good_read_def publishes_refl)
next
  case (Cons r rs)
  obtain s1 where 1: "group_calls (rv_before r) (Some s) = Some (Some s1)" "publishes i c (\<lambda>_. False) s s1"
    using group_calls_publishes [OF Cons.prems] by blast
  show ?case
  proof (cases "rv_frame r")
    case (Inl err)
    with 1 show ?thesis by (auto simp: good_read_def elim: publishes_mono)
  next
    case (Inr wire)
    obtain k s2 where 2: "reserve wire (m_Id req) udp (rv_now r) (Some s1) = Some (k, Some s2)"
      "publishes i c (\<lambda>_. False) s1 s2" "k \<noteq> 0 \<longrightarrow> final_header wire (m_Id req) udp"
      using reserve_publishes [OF publishes_inv [OF 1(2)]] by blast
    have no: "reserve wire (m_Id req) udp (rv_now r) None = Some (0, None)" by (simp add: reserve_def)
    obtain m derr where m: "decode_frame E wire = (m, derr)" by fastforce
    obtain s3 where 3: "group_calls (rv_during r) (Some s2) = Some (Some s3)" "publishes i c (\<lambda>_. False) s2 s3"
      using group_calls_publishes [OF publishes_inv [OF 2(2)]] by blast
    have 4: "publishes i c (\<lambda>_. False) s s3"
      using publishes_trans [OF publishes_trans [OF 1(2) 2(2)] 3(2)] by simp
    obtain s4 where 5: "xs_reject k (rv_end r) (Some s3) = Some (Some s4)" "publishes i c (\<lambda>_. False) s3 s4"
      using reject_publishes [OF publishes_inv [OF 4]] by blast
    have rej: "publishes i c P s s4" for P
      using publishes_trans [OF 4 5(2)] by (auto elim: publishes_mono)
    obtain s5 where 6: "xs_accept k m (Some s3) = Some (Some s5)"
      "publishes i c (\<lambda>r. k \<noteq> 0 \<and> r = m\<lparr>m_Id := i\<rparr>) s3 s5"
      using accept_publishes [OF publishes_inv [OF 4]] by blast
    have acc: "publishes i c (\<lambda>r. k \<noteq> 0 \<and> r = m\<lparr>m_Id := i\<rparr>) s s5"
      using publishes_trans [OF 4 6(2)] by simp
    note run = Inr 1(1) 2(1) no m 3(1) 5(1) 6(1) xs_reject_def xs_accept_def
    show ?thesis
    proof (cases derr)
      case (Some e)
      with run rej show ?thesis by (simp add: good_read_def)
    next
      case derr: None
      show ?thesis
      proof (cases "m_Id m = m_Id req")
        case False
        from Cons.IH [OF publishes_inv [OF rej]] obtain resp err s' where
          7: "readDNSResponse E req udp check rs (Some s4) = Some (resp, err, Some s')"
            "readDNSResponse E req udp check rs None = Some (resp, err, None)" "good_read req check resp err"
            "publishes i c (published_read i udp resp err) s4 s'" by blast
        have "publishes i c (published_read i udp resp err) s s'"
          using publishes_trans [OF rej 7(4), of "\<lambda>_. False"] by simp
        with run derr False 7 rej show ?thesis by (cases udp) (simp_all add: good_read_def)
      next
        case True
        obtain q where q: "(if check then validateResponse req m else Some None) = Some q"
          using validateResponse_total [OF assms(2), of m] by (cases check) auto
        show ?thesis
        proof (cases q)
          case (Some e)
          with run derr True q rej show ?thesis by (simp add: good_read_def)
        next
          case None
          have "published_read i udp (Some m) None r'" if "k \<noteq> 0 \<and> r' = m\<lparr>m_Id := i\<rparr>" for r'
            using that 2(3) final_header_not_truncated [OF assms(1)] m derr by (auto simp: published_read_def)
          then have "publishes i c (published_read i udp (Some m) None) s s5"
            by (rule publishes_mono [OF acc])
          moreover have "good_read req check (Some m) None" using True q None by (auto simp: good_read_def split: if_splits)
          ultimately show ?thesis using run derr True q None by simp
        qed
      qed
    qed
  qed
qed

subsection \<open>The contract of an upstream\<close>

text \<open>
  Every upstream's \<^verbatim>\<open>Exchange\<close> starts the state, runs its protocol and, deferred, finishes the state with
  the error it returns; \<^verbatim>\<open>'p\<close> is the state that the upstream keeps between exchanges.
\<close>

type_synonym 'p exchange_body =
  "'p \<Rightarrow> Msg \<Rightarrow> ExchangeState option \<Rightarrow> (Msg option \<times> error option \<times> ExchangeState option \<times> 'p) go"

definition run_exchange :: "'p exchange_body \<Rightarrow> 'p exchange_body" where
  "run_exchange body p req so =
     (case xs_start (m_Id req) so of
       (Some err, so) \<Rightarrow> Some (None, Some err, so, p)
     | (None, so) \<Rightarrow> do {
         (resp, err, so, p) \<leftarrow> body p req so;
         so \<leftarrow> xs_finish err so;
         Some (resp, err, so, p) })"

text \<open>
  The law: the protocol never panics, behaves the same with and without a state, publishes only the response it returns,
  and without an error returns a response to the request that it accepts.
\<close>

locale deciding_upstream =
  fixes body :: "'p exchange_body" and ok :: "'p \<Rightarrow> bool" and accepted :: "'p \<Rightarrow> Msg \<Rightarrow> Msg \<Rightarrow> bool"
  assumes observes: "ok p \<Longrightarrow> m_Question req \<noteq> [] \<Longrightarrow> xs_inv (m_Id req) c s \<Longrightarrow>
    \<exists>resp err s' p'. body p req (Some s) = Some (resp, err, Some s', p') \<and> body p req None = Some (resp, err, None, p') \<and>
      ok p' \<and> publishes (m_Id req) c (\<lambda>r. resp = Some r) s s' \<and>
      (err = None \<longrightarrow> (\<exists>m. resp = Some m \<and> m_Id m = m_Id req \<and> accepted p req m))"
begin

lemma decides:
  assumes "ok p" "m_Question req \<noteq> []"
  shows "\<exists>resp err s' p'. run_exchange body p req (Some (NewExchangeState cutoff)) = Some (resp, err, Some s', p') \<and>
    run_exchange body p req None = Some (resp, err, None, p') \<and> ok p' \<and> xs_finished s' \<and>
    (\<forall>r. er_Response (xs_result s') = Some r \<longrightarrow> resp = Some r \<and>
       (\<exists>t. er_ReceivedAt (xs_result s') = Some t \<and> (\<forall>d. cutoff = Some d \<longrightarrow> t \<le> d))) \<and>
    (err = None \<longrightarrow> (\<exists>m. resp = Some m \<and> m_Id m = m_Id req \<and> accepted p req m))"
proof -
  obtain s where start: "xs_start (m_Id req) (Some (NewExchangeState cutoff)) = (None, Some s)"
    "xs_run [OpStart (m_Id req)] (NewExchangeState cutoff) = Some s"
    by (simp add: xs_start_def NewExchangeState_def)
  have fresh: "\<not> xs_finished s" using start(1) by (auto simp: xs_start_def NewExchangeState_def)
  obtain resp err s1 p' where 1: "body p req (Some s) = Some (resp, err, Some s1, p')" "body p req None = Some (resp, err, None, p')"
    "ok p'" "publishes (m_Id req) cutoff (\<lambda>r. resp = Some r) s s1"
    "err = None \<longrightarrow> (\<exists>m. resp = Some m \<and> m_Id m = m_Id req \<and> accepted p req m)"
    using observes [OF assms xs_inv_started [OF start(2)]] by blast
  obtain s' where 2: "xs_step (OpFinish err) s1 = Some s'" "publishes (m_Id req) cutoff (\<lambda>_. False) s1 s'"
    by (rule step_publishes [OF publishes_inv [OF 1(4)], of "OpFinish err"]) (auto elim: publishes_mono)
  have fin: "xs_finish err (Some s1) = Some (Some s')" using 2(1) by (auto simp: bind_eq_Some_conv)
  then have dec: "xs_finished s'" by (auto simp: xs_finish_def completeLocked_def close_done_def split: if_splits)
  have pub: "resp = Some r \<and> in_time cutoff (er_ReceivedAt (xs_result s'))" if "er_Response (xs_result s') = Some r" for r
    using publishes_trans [OF 1(4) 2(2)] that fresh unfolding publishes_def xs_inv_def by auto
  have "run_exchange body p req (Some (NewExchangeState cutoff)) = Some (resp, err, Some s', p')"
    using start(1) 1(1) fin by (simp add: run_exchange_def)
  moreover have "run_exchange body p req None = Some (resp, err, None, p')"
    using 1(2) by (simp add: run_exchange_def xs_start_def xs_finish_def)
  ultimately show ?thesis using dec pub 1(3,5) unfolding in_time_def by blast
qed

end

text \<open>
  The shape in which the encrypted upstreams meet the law: one attempt after the other, of which at most the
  last, successful one publishes.
\<close>

definition good_attempt :: "Msg \<Rightarrow> Msg option \<Rightarrow> error option \<Rightarrow> bool" where
  "good_attempt req resp err \<longleftrightarrow> (case err of
      None \<Rightarrow> \<exists>m. resp = Some m \<and> m_Id m = m_Id req \<and> validateResponse req m = Some None
    | Some _ \<Rightarrow> resp = None)"

definition validated :: "'p \<Rightarrow> Msg \<Rightarrow> Msg \<Rightarrow> bool" where
  "validated p req m \<longleftrightarrow> validateResponse req m = Some None"

lemma validateResponse_ok:
  assumes "validateResponse req m = Some None" "m_Question req = rq # rqs"
  shows "\<exists>q. m_Question m = [q] \<and> q_Qtype q = q_Qtype rq \<and> EqualFold (q_Name rq) (q_Name q)"
  using assms
  by (cases "m_Question m"; cases "tl (m_Question m)")
    (auto simp: validateResponse_def go_index_def split: if_splits)

locale validating_upstream = deciding_upstream body ok validated
  for body :: "'p exchange_body" and ok :: "'p \<Rightarrow> bool"
begin

lemma answers_question:
  assumes "ok p" "m_Question req = rq # rqs"
  shows "\<exists>resp err s' p'. run_exchange body p req (Some (NewExchangeState cutoff)) = Some (resp, err, Some s', p') \<and>
    run_exchange body p req None = Some (resp, err, None, p') \<and> ok p' \<and> xs_finished s' \<and>
    (\<forall>r. er_Response (xs_result s') = Some r \<longrightarrow> resp = Some r \<and>
       (\<exists>t. er_ReceivedAt (xs_result s') = Some t \<and> (\<forall>d. cutoff = Some d \<longrightarrow> t \<le> d))) \<and>
    (err = None \<longrightarrow> (\<exists>m q. resp = Some m \<and> m_Id m = m_Id req \<and> m_Question m = [q] \<and> q_Qtype q = q_Qtype rq \<and>
       EqualFold (q_Name rq) (q_Name q)))"
proof -
  have q: "m_Question req \<noteq> []" using assms(2) by simp
  obtain resp err s' p' where 1: "run_exchange body p req (Some (NewExchangeState cutoff)) = Some (resp, err, Some s', p')"
    "run_exchange body p req None = Some (resp, err, None, p')" "ok p'" "xs_finished s'"
    "\<forall>r. er_Response (xs_result s') = Some r \<longrightarrow> resp = Some r \<and>
       (\<exists>t. er_ReceivedAt (xs_result s') = Some t \<and> (\<forall>d. cutoff = Some d \<longrightarrow> t \<le> d))"
    "err = None \<longrightarrow> (\<exists>m. resp = Some m \<and> m_Id m = m_Id req \<and> validated p req m)"
    using decides [OF assms(1) q, of cutoff] by blast
  have "\<exists>m q. resp = Some m \<and> m_Id m = m_Id req \<and> m_Question m = [q] \<and> q_Qtype q = q_Qtype rq \<and>
       EqualFold (q_Name rq) (q_Name q)" if "err = None"
    using 1(6) that validateResponse_ok [OF _ assms(2)] unfolding validated_def by blast
  with 1(1-5) show ?thesis by blast
qed

end

definition exchange_gives ::
  "('p \<Rightarrow> bool) \<Rightarrow> Msg \<Rightarrow> int option \<Rightarrow> ExchangeState \<Rightarrow>
     (ExchangeState option \<Rightarrow> (Msg option \<times> error option \<times> ExchangeState option \<times> 'p) go) \<Rightarrow> bool" where
  "exchange_gives ok req c s f \<longleftrightarrow> (\<exists>resp err s' p'. f (Some s) = Some (resp, err, Some s', p') \<and> f None = Some (resp, err, None, p') \<and>
     ok p' \<and> publishes (m_Id req) c (\<lambda>r. resp = Some r) s s' \<and>
     (err = None \<longrightarrow> (\<exists>m. resp = Some m \<and> m_Id m = m_Id req \<and> validateResponse req m = Some None)))"

lemma gives_error:
  assumes "f (Some s) = Some (None, Some e, Some s', p')" "f None = Some (None, Some e, None, p')" "ok p'"
    "publishes (m_Id req) c (\<lambda>_. False) s s'"
  shows "exchange_gives ok req c s f"
proof -
  have "publishes (m_Id req) c (\<lambda>r. None = Some r) s s'" using assms(4) by simp
  with assms(1-3) show ?thesis unfolding exchange_gives_def by blast
qed

lemma gives_reply:
  assumes "f (Some s) = Some (resp, None, Some s', p')" "f None = Some (resp, None, None, p')" "ok p'"
    "good_attempt req resp None" "publishes (m_Id req) c (\<lambda>r. None = None \<and> resp = Some r) s s'"
  shows "exchange_gives ok req c s f"
proof -
  have "publishes (m_Id req) c (\<lambda>r. resp = Some r) s s'" using assms(5) by simp
  with assms(1-4) show ?thesis unfolding exchange_gives_def good_attempt_def by auto
qed

lemma m_Id_update_same [simp]: "m_Id m = i \<Longrightarrow> m\<lparr>m_Id := i\<rparr> = m"
  by (cases m) simp

text \<open>
  DNS-over-QUIC and DNS-over-HTTPS read one complete frame, reserve it as the candidate, decode it to a verdict and,
  deferred, settle the candidate by the verdict.  The calls of other goroutines and the times are those of a read.
\<close>

record receipt_times =
  rt_before :: "group_call list"
  rt_now :: int
  rt_during :: "group_call list"
  rt_end :: int

definition settle ::
  "receipt_times \<Rightarrow> bytes \<Rightarrow> error + Msg \<Rightarrow> ExchangeState option \<Rightarrow> (Msg option \<times> error option \<times> ExchangeState option) go" where
  "settle t wire verdict so = do {
     so \<leftarrow> group_calls (rt_before t) so;
     (ticket, so) \<leftarrow> reserve wire 0 False (rt_now t) so;
     so \<leftarrow> group_calls (rt_during t) so;
     (case verdict of
       Inl err \<Rightarrow> do { so \<leftarrow> xs_reject ticket (rt_end t) so; Some (None, Some err, so) }
     | Inr m \<Rightarrow> do { so \<leftarrow> xs_accept ticket m so; Some (Some m, None, so) }) }"

lemma settle_spec:
  assumes "xs_inv i c s"
  shows "\<exists>s'. settle t wire v (Some s) = Some (case v of Inl e \<Rightarrow> (None, Some e, Some s') | Inr m \<Rightarrow> (Some m, None, Some s')) \<and>
    settle t wire v None = Some (case v of Inl e \<Rightarrow> (None, Some e, None) | Inr m \<Rightarrow> (Some m, None, None)) \<and>
    publishes i c (\<lambda>r. \<exists>m. v = Inr m \<and> r = m\<lparr>m_Id := i\<rparr>) s s'"
proof -
  obtain s1 where 1: "group_calls (rt_before t) (Some s) = Some (Some s1)" "publishes i c (\<lambda>_. False) s s1"
    using group_calls_publishes [OF assms] by blast
  obtain k s2 where 2: "reserve wire 0 False (rt_now t) (Some s1) = Some (k, Some s2)" "publishes i c (\<lambda>_. False) s1 s2"
    using reserve_publishes [OF publishes_inv [OF 1(2)]] by blast
  obtain s3 where 3: "group_calls (rt_during t) (Some s2) = Some (Some s3)" "publishes i c (\<lambda>_. False) s2 s3"
    using group_calls_publishes [OF publishes_inv [OF 2(2)]] by blast
  have 4: "publishes i c (\<lambda>_. False) s s3"
    using publishes_trans [OF publishes_trans [OF 1(2) 2(2)] 3(2)] by simp
  have none: "reserve wire 0 False (rt_now t) None = Some (0, None)" by (simp add: reserve_def)
  show ?thesis
  proof (cases v)
    case (Inl e)
    obtain s4 where 5: "xs_reject k (rt_end t) (Some s3) = Some (Some s4)" "publishes i c (\<lambda>_. False) s3 s4"
      using reject_publishes [OF publishes_inv [OF 4]] by blast
    have "publishes i c (\<lambda>_. False) s s4" using publishes_trans [OF 4 5(2)] by simp
    with Inl 1(1) 2(1) 3(1) 5(1) none show ?thesis by (simp add: settle_def xs_reject_def)
  next
    case (Inr m)
    obtain s4 where 5: "xs_accept k m (Some s3) = Some (Some s4)" "publishes i c (\<lambda>r. k \<noteq> 0 \<and> r = m\<lparr>m_Id := i\<rparr>) s3 s4"
      using accept_publishes [OF publishes_inv [OF 4]] by blast
    have "publishes i c (\<lambda>r. False \<or> (k \<noteq> 0 \<and> r = m\<lparr>m_Id := i\<rparr>)) s s4" by (rule publishes_trans [OF 4 5(2)])
    then have "publishes i c (\<lambda>r. r = m\<lparr>m_Id := i\<rparr>) s s4" by (rule publishes_mono) simp
    with Inr 1(1) 2(1) 3(1) 5(1) none show ?thesis by (simp add: settle_def xs_accept_def)
  qed
qed

subsection \<open>The exchange of a plain upstream\<close>

text \<open>
  \<^verbatim>\<open>errors.WithDeferred\<close> gives the returned error when closing succeeds and otherwise an error made of
  the two; the errors of closing a connection are not about questions.
\<close>

definition plain_law :: "plainDNS \<Rightarrow> bool" where
  "plain_law p \<longleftrightarrow> unpack_header_law (pl_env p) \<and>
     (\<forall>e. up_WithDeferred (pl_env p) e None = e) \<and>
     (\<forall>e d. up_WithDeferred (pl_env p) e (Some d) \<noteq> None) \<and>
     (\<forall>e d err. up_WithDeferred (pl_env p) e d = Some err \<longrightarrow> errors_Is errQuestion err \<longrightarrow>
        (\<exists>e' \<in> set_option e \<union> set_option d. errors_Is errQuestion e')) \<and>
     (\<forall>net n conn. pl_dial p net n = Inr conn \<longrightarrow> (\<forall>d. cn_Close conn = Some d \<longrightarrow> \<not> errors_Is errQuestion d))"

lemma WithDeferred_None:
  assumes "plain_law p"
  shows "up_WithDeferred (pl_env p) e d = None \<longleftrightarrow> e = None \<and> d = None"
  using assms by (cases d) (simp_all add: plain_law_def)

lemma exchangeWithConn_spec:
  assumes "plain_law p" "m_Question req \<noteq> []" "xs_inv i c s"
  shows "\<exists>resp err s'. exchangeWithConn p req conn net (Some s) = Some (resp, err, Some s') \<and>
    exchangeWithConn p req conn net None = Some (resp, err, None) \<and> good_read req (\<not> pl_bootstrap p) resp err \<and>
    publishes i c (published_read i (net = networkUDP) resp err) s s'"
  using readDNSResponse_spec [OF _ assms(2,3), of "pl_env p" "net = networkUDP" "\<not> pl_bootstrap p" "cn_reads conn"]
    assms(1) publishes_refl [OF assms(3)]
  by (auto simp: exchangeWithConn_def plain_law_def good_read_def)

text \<open>What a dialled exchange returns, with the identifier restored.\<close>

definition good_dial :: "plainDNS \<Rightarrow> Msg \<Rightarrow> Msg option \<Rightarrow> error option \<Rightarrow> bool" where
  "good_dial p req resp err \<longleftrightarrow> (\<forall>m. resp = Some m \<longrightarrow> m_Id m = m_Id req) \<and>
     (err = None \<longrightarrow> (\<exists>m. resp = Some m \<and> (\<not> pl_bootstrap p \<longrightarrow> validateResponse req m = Some None)))"

definition published_dial :: "bool \<Rightarrow> Msg option \<Rightarrow> error option \<Rightarrow> Msg \<Rightarrow> bool" where
  "published_dial udp resp err r \<longleftrightarrow> resp = Some r \<and> (udp \<longrightarrow> \<not> m_Truncated r) \<and>
     (\<forall>e. err = Some e \<longrightarrow> \<not> errors_Is errQuestion e)"

lemma validateResponse_Id [simp]:
  "validateResponse (req\<lparr>m_Id := i\<rparr>) m = validateResponse req m" "validateResponse req (m\<lparr>m_Id := i\<rparr>) = validateResponse req m"
  by (simp_all add: validateResponse_def)

lemma setRequestForNetwork_Question [simp]:
  "m_Question (setRequestForNetwork j req net) = m_Question req"
  "validateResponse (setRequestForNetwork j req net) m = validateResponse req m"
  by (simp_all add: setRequestForNetwork_def)

text \<open>Closing a connection after an exchange keeps what the exchange gave.\<close>

lemma close_good:
  assumes "plain_law p" "good_read (setRequestForNetwork j req net) (\<not> pl_bootstrap p) resp err"
  shows "good_dial p req (map_option (\<lambda>m. m\<lparr>m_Id := m_Id req\<rparr>) resp)
    (up_WithDeferred (pl_env p) (wrap_exchange err) d)"
  using assms(2) WithDeferred_None [OF assms(1), of "wrap_exchange err" d]
  by (cases err) (auto simp: good_dial_def good_read_def wrap_exchange_def)

lemma close_keeps_good:
  assumes "plain_law p" "good_dial p req resp e"
  shows "good_dial p req resp (up_WithDeferred (pl_env p) e d)"
  using assms(2) unfolding good_dial_def WithDeferred_None [OF assms(1)] by blast

definition not_question :: "error option \<Rightarrow> bool" where
  "not_question err \<longleftrightarrow> (\<forall>e. err = Some e \<longrightarrow> \<not> errors_Is errQuestion e)"

lemma close_not_question:
  assumes "plain_law p" "pl_dial p net n = Inr conn" "not_question e"
  shows "not_question (up_WithDeferred (pl_env p) e (cn_Close conn))"
  unfolding not_question_def
proof (intro allI impI notI)
  fix err assume "up_WithDeferred (pl_env p) e (cn_Close conn) = Some err" "errors_Is errQuestion err"
  then obtain e' where "e' \<in> set_option e \<union> set_option (cn_Close conn)" "errors_Is errQuestion e'"
    using assms(1) unfolding plain_law_def by blast
  moreover have "\<not> errors_Is errQuestion d" if "cn_Close conn = Some d" for d
    using assms(1,2) that unfolding plain_law_def by blast
  ultimately show False using assms(3) by (auto simp: not_question_def)
qed

lemma published_no_error: "published_read i udp resp err r \<Longrightarrow> not_question (wrap_exchange err)"
  by (simp add: published_read_def not_question_def wrap_exchange_def)

lemma published_closed:
  assumes "published_read i udp resp err r" "not_question err'"
  shows "published_dial udp (map_option (\<lambda>m. m\<lparr>m_Id := i\<rparr>) resp) err' r"
  using assms by (auto simp: published_read_def published_dial_def not_question_def)

lemma dialExchange_eqs:
  assumes "pl_dial p net 0 = Inr conn"
    and "exchangeWithConn p (setRequestForNetwork (pl_newId p) req net) conn net so = Some (resp, err, so1)"
  shows "\<not> (\<not> pl_bootstrap p \<and> isExpectedConnErr (pl_env p) err) \<Longrightarrow> dialExchange p net req so =
      Some (map_option (\<lambda>m. m\<lparr>m_Id := m_Id req\<rparr>) resp, up_WithDeferred (pl_env p) (wrap_exchange err) (cn_Close conn), so1)"
    and "\<not> pl_bootstrap p \<and> isExpectedConnErr (pl_env p) err \<Longrightarrow> pl_dial p net 1 = Inl e \<Longrightarrow> dialExchange p net req so =
      Some (None, up_WithDeferred (pl_env p) (Some (ErrWrap ''dialing again'' e)) (cn_Close conn), so1)"
    and "\<not> pl_bootstrap p \<and> isExpectedConnErr (pl_env p) err \<Longrightarrow> pl_dial p net 1 = Inr conn2 \<Longrightarrow>
      exchangeWithConn p (setRequestForNetwork (pl_newId p) req net) conn2 net so1 = Some (resp2, err2, so2) \<Longrightarrow>
      dialExchange p net req so = Some (map_option (\<lambda>m. m\<lparr>m_Id := m_Id req\<rparr>) resp2,
        up_WithDeferred (pl_env p) (up_WithDeferred (pl_env p) (wrap_exchange err2) (cn_Close conn2)) (cn_Close conn), so2)"
  using assms unfolding dialExchange_def Let_def by (simp_all del: de_Morgan_conj)

lemma dialExchange_spec:
  assumes "plain_law p" "m_Question req \<noteq> []" "xs_inv (m_Id req) c s"
  shows "\<exists>resp err s'. dialExchange p net req (Some s) = Some (resp, err, Some s') \<and>
    dialExchange p net req None = Some (resp, err, None) \<and> good_dial p req resp err \<and>
    publishes (m_Id req) c (published_dial (net = networkUDP) resp err) s s'"
proof (cases "pl_dial p net 0")
  case (Inl e)
  with publishes_refl [OF assms(3)] show ?thesis by (simp add: dialExchange_def good_dial_def)
next
  case (Inr conn)
  let ?req = "setRequestForNetwork (pl_newId p) req net" and ?W = "up_WithDeferred (pl_env p)"
    and ?id = "\<lambda>m. m\<lparr>m_Id := m_Id req\<rparr>" and ?udp = "net = networkUDP"
  have q: "m_Question ?req \<noteq> []" using assms(2) by simp
  obtain resp err s1 where 1: "exchangeWithConn p ?req conn net (Some s) = Some (resp, err, Some s1)"
    "exchangeWithConn p ?req conn net None = Some (resp, err, None)" "good_read ?req (\<not> pl_bootstrap p) resp err"
    "publishes (m_Id req) c (published_read (m_Id req) ?udp resp err) s s1"
    using exchangeWithConn_spec [OF assms(1) q assms(3)] by blast
  show ?thesis
  proof (cases "\<not> pl_bootstrap p \<and> isExpectedConnErr (pl_env p) err")
    case False
    let ?err = "?W (wrap_exchange err) (cn_Close conn)"
    have "published_dial ?udp (map_option ?id resp) ?err r" if "published_read (m_Id req) ?udp resp err r" for r
      by (rule published_closed [OF that]) (rule close_not_question [OF assms(1) Inr published_no_error [OF that]])
    then have pub: "publishes (m_Id req) c (published_dial ?udp (map_option ?id resp) ?err) s s1"
      by (rule publishes_mono [OF 1(4)])
    show ?thesis
      by (intro exI conjI, rule dialExchange_eqs(1) [OF Inr 1(1) False], rule dialExchange_eqs(1) [OF Inr 1(2) False],
          rule close_good [OF assms(1) 1(3)], rule pub)
  next
    case True
    then have no: "\<not> published_read (m_Id req) ?udp resp err r" for r
      by (auto simp: published_read_def isExpectedConnErr_def)
    then have p1: "publishes (m_Id req) c P s s1" for P by (intro publishes_mono [OF 1(4)]) simp
    show ?thesis
    proof (cases "pl_dial p net 1")
      case (Inl e)
      have good: "good_dial p req None (?W (Some (ErrWrap ''dialing again'' e)) (cn_Close conn))"
        using WithDeferred_None [OF assms(1), of "Some (ErrWrap ''dialing again'' e)"] by (simp add: good_dial_def)
      show ?thesis
        by (intro exI conjI, rule dialExchange_eqs(2) [OF Inr 1(1) True Inl], rule dialExchange_eqs(2) [OF Inr 1(2) True Inl],
            rule good, rule p1)
    next
      case conn2: (Inr conn2)
      obtain resp2 err2 s2 where 2: "exchangeWithConn p ?req conn2 net (Some s1) = Some (resp2, err2, Some s2)"
        "exchangeWithConn p ?req conn2 net None = Some (resp2, err2, None)" "good_read ?req (\<not> pl_bootstrap p) resp2 err2"
        "publishes (m_Id req) c (published_read (m_Id req) ?udp resp2 err2) s1 s2"
        using exchangeWithConn_spec [OF assms(1) q publishes_inv [OF p1 [of "\<lambda>_. False"]]] by blast
      let ?err1 = "?W (wrap_exchange err2) (cn_Close conn2)"
      let ?err = "?W ?err1 (cn_Close conn)"
      have "publishes (m_Id req) c (published_read (m_Id req) ?udp resp2 err2) s s2"
        using publishes_trans [OF p1 2(4), of "\<lambda>_. False"] by simp
      moreover have "published_dial ?udp (map_option ?id resp2) ?err r" if "published_read (m_Id req) ?udp resp2 err2 r" for r
        by (rule published_closed [OF that], rule close_not_question [OF assms(1) Inr],
            rule close_not_question [OF assms(1) conn2 published_no_error [OF that]])
      ultimately have pub: "publishes (m_Id req) c (published_dial ?udp (map_option ?id resp2) ?err) s s2"
        by (rule publishes_mono)
      have good: "good_dial p req (map_option ?id resp2) ?err"
        by (rule close_keeps_good [OF assms(1) close_good [OF assms(1) 2(3)]])
      show ?thesis
        by (intro exI conjI, rule dialExchange_eqs(3) [OF Inr 1(1) True conn2 2(1)],
            rule dialExchange_eqs(3) [OF Inr 1(2) True conn2 2(2)], rule good, rule pub)
    qed
  qed
qed

text \<open>When the exchange is repeated over TCP.\<close>

definition over_tcp :: "plainDNS \<Rightarrow> Msg option \<Rightarrow> error option \<Rightarrow> bool" where
  "over_tcp p resp err \<longleftrightarrow> pl_net p = networkUDP \<and> \<not> (pl_bootstrap p \<and> err \<noteq> None) \<and>
     (\<exists>m. resp = Some m \<and> (m_Truncated m \<or>
        \<not> pl_bootstrap p \<and> (case err of None \<Rightarrow> False | Some e \<Rightarrow> errors_Is errQuestion e)))"

lemma plain_exchange_eqs:
  assumes "dialExchange p (pl_net p) req so = Some (resp, err, so1)" "go_index (m_Question req) 0 = Some q"
  shows "plain_exchange p req so =
    (if over_tcp p resp err then dialExchange p networkTCP req so1 else Some (resp, err, so1))"
  unfolding plain_exchange_def over_tcp_def assms(1)
  by (cases resp; cases err; cases "pl_bootstrap p"; cases "pl_net p = networkUDP") (simp_all add: assms(2))

lemma plain_exchange_spec:
  assumes "plain_law p" "m_Question req \<noteq> []" "xs_inv (m_Id req) c s"
  shows "\<exists>resp err s'. plain_exchange p req (Some s) = Some (resp, err, Some s') \<and>
    plain_exchange p req None = Some (resp, err, None) \<and> good_dial p req resp err \<and>
    publishes (m_Id req) c (\<lambda>r. resp = Some r) s s'"
proof -
  let ?udp = "pl_net p = networkUDP"
  obtain resp err s1 where 1: "dialExchange p (pl_net p) req (Some s) = Some (resp, err, Some s1)"
    "dialExchange p (pl_net p) req None = Some (resp, err, None)" "good_dial p req resp err"
    "publishes (m_Id req) c (published_dial ?udp resp err) s s1"
    using dialExchange_spec [OF assms] by blast
  obtain resp2 err2 s2 where 2: "dialExchange p networkTCP req (Some s1) = Some (resp2, err2, Some s2)"
    "dialExchange p networkTCP req None = Some (resp2, err2, None)" "good_dial p req resp2 err2"
    "publishes (m_Id req) c (published_dial (networkTCP = networkUDP) resp2 err2) s1 s2"
    using dialExchange_spec [OF assms(1,2) publishes_inv [OF 1(4)]] by blast
  obtain q where q: "go_index (m_Question req) 0 = Some q" using assms(2) by (auto simp: go_index_def)
  show ?thesis
  proof (cases "over_tcp p resp err")
    case True
    then have no: "\<not> published_dial ?udp resp err r" for r
      unfolding over_tcp_def published_dial_def by (cases err) auto
    have "publishes (m_Id req) c (\<lambda>r. resp2 = Some r) s s2"
    proof (rule publishes_mono [OF publishes_trans [OF 1(4) 2(4)]])
      show "published_dial ?udp resp err r \<or> published_dial (networkTCP = networkUDP) resp2 err2 r \<Longrightarrow> resp2 = Some r" for r
        using no [of r] published_dial_def by blast
    qed
    moreover have "plain_exchange p req (Some s) = Some (resp2, err2, Some s2)" "plain_exchange p req None = Some (resp2, err2, None)"
      using plain_exchange_eqs [OF 1(1) q] plain_exchange_eqs [OF 1(2) q] True 2(1,2) by simp_all
    ultimately show ?thesis using 2(3) by blast
  next
    case False
    have "publishes (m_Id req) c (\<lambda>r. resp = Some r) s s1"
      by (rule publishes_mono [OF 1(4)]) (simp add: published_dial_def)
    moreover have "plain_exchange p req (Some s) = Some (resp, err, Some s1)" "plain_exchange p req None = Some (resp, err, None)"
      using plain_exchange_eqs [OF 1(1) q] plain_exchange_eqs [OF 1(2) q] False by simp_all
    ultimately show ?thesis using 1(3) by blast
  qed
qed

text \<open>What \<^verbatim>\<open>Exchange\<close> does between starting and finishing the state.\<close>

definition plain_body :: "plainDNS exchange_body" where
  "plain_body p req so = do {
     (resp, err, so) \<leftarrow>
       (case pl_getDialer p of Some err \<Rightarrow> Some (None, Some err, so) | None \<Rightarrow> plain_exchange p req so);
     Some (resp, err, so, p) }"

definition plain_Exchange :: "plainDNS exchange_body" where
  "plain_Exchange = run_exchange plain_body"

definition plain_accepted :: "plainDNS \<Rightarrow> Msg \<Rightarrow> Msg \<Rightarrow> bool" where
  "plain_accepted p req m \<longleftrightarrow> (\<not> pl_bootstrap p \<longrightarrow> validateResponse req m = Some None)"

lemma plain_body_spec:
  assumes "plain_law p" "m_Question req \<noteq> []" "xs_inv (m_Id req) c s"
  shows "\<exists>resp err s' p'. plain_body p req (Some s) = Some (resp, err, Some s', p') \<and>
    plain_body p req None = Some (resp, err, None, p') \<and> p' = p \<and>
    publishes (m_Id req) c (\<lambda>r. resp = Some r) s s' \<and>
    (err = None \<longrightarrow> (\<exists>m. resp = Some m \<and> m_Id m = m_Id req \<and> plain_accepted p req m))"
proof (cases "pl_getDialer p")
  case None
  obtain resp err s' where 1: "plain_exchange p req (Some s) = Some (resp, err, Some s')"
    "plain_exchange p req None = Some (resp, err, None)" "good_dial p req resp err"
    "publishes (m_Id req) c (\<lambda>r. resp = Some r) s s'"
    using plain_exchange_spec [OF assms] by blast
  have "plain_body p req (Some s) = Some (resp, err, Some s', p)" "plain_body p req None = Some (resp, err, None, p)"
    using None 1(1,2) by (simp_all add: plain_body_def)
  moreover have "\<exists>m. resp = Some m \<and> m_Id m = m_Id req \<and> plain_accepted p req m" if "err = None"
    using 1(3) that unfolding good_dial_def plain_accepted_def by blast
  ultimately show ?thesis using 1(4) by blast
next
  case (Some e)
  with publishes_refl [OF assms(3)] show ?thesis by (simp add: plain_body_def)
qed

interpretation plain: deciding_upstream plain_body "\<lambda>p'. plain_law p' \<and> p' = p" plain_accepted for p
  by unfold_locales (use plain_body_spec in blast)

text \<open>
  C14: an exchange of a plain upstream never panics and always decides.  The state only observes: response and
  error are the same as without one.  A published decision is the very response returned,
  with the identifier of the request, observed before the cutoff.  An exchange without
  an error has a response with the identifier of the request and, unless it is for bootstrapping, with
  one question, of the type and, up to case, the name of the question asked.
\<close>

theorem plain_Exchange_decides:
  assumes "plain_law p" "m_Question req = rq # rqs"
  shows "\<exists>resp err s'. plain_Exchange p req (Some (NewExchangeState cutoff)) = Some (resp, err, Some s', p) \<and>
    plain_Exchange p req None = Some (resp, err, None, p) \<and> xs_finished s' \<and>
    (\<forall>r. er_Response (xs_result s') = Some r \<longrightarrow> resp = Some r \<and>
       (\<exists>t. er_ReceivedAt (xs_result s') = Some t \<and> (\<forall>d. cutoff = Some d \<longrightarrow> t \<le> d))) \<and>
    (err = None \<longrightarrow> (\<exists>m. resp = Some m \<and> m_Id m = m_Id req \<and> (\<not> pl_bootstrap p \<longrightarrow>
       (\<exists>q. m_Question m = [q] \<and> q_Qtype q = q_Qtype rq \<and> EqualFold (q_Name rq) (q_Name q)))))"
proof -
  have q: "m_Question req \<noteq> []" using assms(2) by simp
  obtain resp err s' where 1: "plain_Exchange p req (Some (NewExchangeState cutoff)) = Some (resp, err, Some s', p)"
    "plain_Exchange p req None = Some (resp, err, None, p)" "xs_finished s'"
    "\<forall>r. er_Response (xs_result s') = Some r \<longrightarrow> resp = Some r \<and>
       (\<exists>t. er_ReceivedAt (xs_result s') = Some t \<and> (\<forall>d. cutoff = Some d \<longrightarrow> t \<le> d))"
    "err = None \<longrightarrow> (\<exists>m. resp = Some m \<and> m_Id m = m_Id req \<and> plain_accepted p req m)"
    unfolding plain_Exchange_def using plain.decides [OF conjI [OF assms(1) refl] q, of cutoff] by blast
  have "\<exists>m. resp = Some m \<and> m_Id m = m_Id req \<and> (\<not> pl_bootstrap p \<longrightarrow>
       (\<exists>q. m_Question m = [q] \<and> q_Qtype q = q_Qtype rq \<and> EqualFold (q_Name rq) (q_Name q)))" if "err = None"
    using 1(5) that validateResponse_ok [OF _ assms(2)] unfolding plain_accepted_def by blast
  with 1(1-4) show ?thesis by blast
qed

text \<open>An upstream that answers over UDP.\<close>

definition sample_conn_env :: conn_env where
  "sample_conn_env = \<lparr> up_Unpack = (\<lambda>wire. (sample_resp\<lparr>m_Truncated := (12 \<le> length wire \<and> wire ! 2 AND 0x02 \<noteq> 0)\<rparr>, None)),
     up_IsTsig = (\<lambda>_. False), up_TsigVerify = (\<lambda>_. None), up_asNet = (\<lambda>_. None),
     up_WithDeferred = (\<lambda>e d. case d of None \<Rightarrow> e | Some d \<Rightarrow> Some (case e of None \<Rightarrow> d | Some e \<Rightarrow> ErrJoin [e, d])) \<rparr>"

definition sample_plain :: plainDNS where
  "sample_plain = \<lparr> pl_env = sample_conn_env, pl_net = networkUDP, pl_bootstrap = False, pl_getDialer = None,
     pl_dial = (\<lambda>_ _. Inr \<lparr> cn_SetDeadline = None, cn_WriteMsg = None,
       cn_reads = [\<lparr> rv_before = [], rv_now = 3, rv_frame = Inr [0, 1, 0x80, 0, 0, 1, 0, 1, 0, 0, 0, 0],
         rv_during = [GroupExpire], rv_end = 4 \<rparr>], cn_Close = None \<rparr>), pl_newId = 9 \<rparr>"

lemma sample_plain_law: "plain_law sample_plain"
  by (auto simp: plain_law_def sample_plain_def sample_conn_env_def unpack_header_law_def errQuestion_def split: option.splits)

theorem plain_Exchange_decides_witness:
  "\<exists>resp err s'. plain_Exchange sample_plain sample_req (Some (NewExchangeState (Some 5))) = Some (resp, err, Some s', sample_plain) \<and>
     xs_finished s' \<and> er_Response (xs_result s') = resp \<and> (\<exists>m. resp = Some m \<and> m_Id m = 1)"
proof -
  obtain resp err s' where *: "plain_Exchange sample_plain sample_req (Some (NewExchangeState (Some 5))) = Some (resp, err, Some s', sample_plain)"
    "xs_finished s'" "\<forall>r. er_Response (xs_result s') = Some r \<longrightarrow> resp = Some r"
    "err = None \<longrightarrow> (\<exists>m. resp = Some m \<and> m_Id m = m_Id sample_req)"
    using plain_Exchange_decides [OF sample_plain_law, of sample_req sample_question "[]" "Some 5"]
    by (auto simp: sample_req_def)
  have "err = None \<and> (\<exists>r. er_Response (xs_result s') = Some r)"
    using *(1)
    by (auto simp: plain_Exchange_def run_exchange_def plain_body_def plain_exchange_def dialExchange_def exchangeWithConn_def sample_plain_def
        sample_conn_env_def sample_req_def sample_resp_def sample_question_def decode_frame_def reserve_def final_header_def
        setRequestForNetwork_def validateResponse_def go_index_def EqualFold_def wrap_exchange_def
        isExpectedConnErr_def networkUDP_def networkTCP_def empty_Msg_def NewExchangeState_def xs_method_defs Let_def)
  with * show ?thesis by (auto simp: sample_req_def)
qed

end
