(* ===== verification/Upstream_Dot.thy ===== *)
theory Upstream_Dot
  imports Upstream_Plain
begin

text \<open>
  The DNS-over-TLS upstream (\<^verbatim>\<open>upstream/dot.go\<close>): its pool of connections, the exchange with its one
  retry, and closing.  Connections are numbers; what a connection does during the exchange at hand, what the dialer
  and the TLS handshakes return and what the context says are fields of the upstream.
\<close>

subsection \<open>Dialing\<close>

record tls_attempt =
  ta_ctxErr :: "error option"
  ta_dial :: "error + nat"
  ta_SetDeadline :: "error option"
  ta_Handshake :: "error option"
  ta_Close :: "error option"

record dnsOverTLS =
  dt_env :: conn_env
  dt_getDialer :: "error option"
  dt_conns :: "nat list"
  dt_use :: "nat \<Rightarrow> connection"
  dt_tls :: "nat \<Rightarrow> tls_attempt"
  dt_ctxErr :: "error option"
  dt_late :: bool

definition tlsDial :: "conn_env \<Rightarrow> tls_attempt \<Rightarrow> nat option \<times> error option" where
  "tlsDial E t =
     (if ta_ctxErr t \<noteq> None then (None, ta_ctxErr t)
      else (case ta_dial t of
        Inl err \<Rightarrow> (None, Some err)
      | Inr conn \<Rightarrow>
          if ta_SetDeadline t \<noteq> None then (None, up_WithDeferred E (ta_SetDeadline t) (ta_Close t))
          else if ta_Handshake t \<noteq> None then (None, up_WithDeferred E (ta_Handshake t) (ta_Close t))
          else (Some conn, None)))"

subsection \<open>The pool\<close>

text \<open>The critical sections of \<^verbatim>\<open>conn\<close> and \<^verbatim>\<open>putBack\<close>: the last connection is taken and given back at the end.\<close>

definition pool_take :: "nat list \<Rightarrow> (nat \<times> nat list) option" where
  "pool_take conns = (if conns = [] then None else Some (last conns, butlast conns))"

definition pool_put :: "nat \<Rightarrow> nat list \<Rightarrow> nat list" where
  "pool_put conn conns = conns @ [conn]"

definition putBack :: "nat \<Rightarrow> dnsOverTLS \<Rightarrow> dnsOverTLS" where
  "putBack conn p = p\<lparr>dt_conns := pool_put conn (dt_conns p)\<rparr>"

text \<open>The deferred function of \<^verbatim>\<open>conn\<close>, which dials when the pool gave no usable connection.\<close>

definition conn_dial :: "dnsOverTLS \<Rightarrow> (nat option \<times> bool \<times> error option) \<times> dnsOverTLS" where
  "conn_dial p = (let (conn, err) = tlsDial (dt_env p) (dt_tls p 0)
     in ((conn, False, map_option (ErrWrap ''connecting'') err), p))"

definition dot_conn :: "dnsOverTLS \<Rightarrow> (nat option \<times> bool \<times> error option) \<times> dnsOverTLS" where
  "dot_conn p = (case pool_take (dt_conns p) of
      None \<Rightarrow> conn_dial p
    | Some (conn, conns) \<Rightarrow>
        let p = p\<lparr>dt_conns := conns\<rparr> in
        if cn_SetDeadline (dt_use p conn) \<noteq> None then conn_dial p else ((Some conn, True, None), p))"

definition os_ErrDeadlineExceeded :: error where "os_ErrDeadlineExceeded = ErrMsg ''deadline exceeded''"

definition isConnBroken :: "error \<Rightarrow> bool" where
  "isConnBroken err \<longleftrightarrow> errors_Is (ErrMsg ''broken pipe'') err \<or> errors_Is (ErrMsg ''connection timed out'') err"

definition isCriticalTCP :: "conn_env \<Rightarrow> error \<Rightarrow> bool" where
  "isCriticalTCP E err \<longleftrightarrow> up_asNet E err \<noteq> Some True \<and>
     \<not> (errors_Is io_EOF err \<or> errors_Is net_ErrClosed err \<or> errors_Is os_ErrDeadlineExceeded err \<or> isConnBroken err)"

text \<open>\<^verbatim>\<open>Close\<close> closes the pooled connections and leaves them in the pool.\<close>

definition dot_Close :: "dnsOverTLS \<Rightarrow> error option" where
  "dot_Close p = errors_Join [e \<leftarrow> List.map_filter (\<lambda>c. cn_Close (dt_use p c)) (dt_conns p). isCriticalTCP (dt_env p) e]"

subsection \<open>The exchange\<close>

definition dot_exchangeWithConn ::
  "dnsOverTLS \<Rightarrow> nat \<Rightarrow> Msg \<Rightarrow> ExchangeState option \<Rightarrow> (Msg option \<times> error option \<times> ExchangeState option) go" where
  "dot_exchangeWithConn p conn req so =
     (case cn_WriteMsg (dt_use p conn) of
       Some err \<Rightarrow> Some (None, Some (ErrWrap ''sending request'' err), so)
     | None \<Rightarrow> do {
         (reply, err, so) \<leftarrow> readDNSResponse (dt_env p) req False True (cn_reads (dt_use p conn)) so;
         Some (case err of
             Some e \<Rightarrow> (None, Some (ErrWrap ''reading response'' e), so)
           | None \<Rightarrow> (reply, None, so)) })"

text \<open>The retry over a new connection, after the error \<^verbatim>\<open>err\<close> on a pooled one.\<close>

definition dot_retry ::
  "dnsOverTLS \<Rightarrow> Msg \<Rightarrow> ExchangeState option \<Rightarrow> (Msg option \<times> error option \<times> ExchangeState option \<times> dnsOverTLS) go" where
  "dot_retry p req so =
     (case tlsDial (dt_env p) (dt_tls p 1) of
       (_, Some err) \<Rightarrow> Some (None, Some (ErrWrap ''dialing'' err), so, p)
     | (conn, None) \<Rightarrow> do {
         conn \<leftarrow> conn;
         (reply, err, so) \<leftarrow> dot_exchangeWithConn p conn req so;
         Some (if err \<noteq> None then (reply, up_WithDeferred (dt_env p) err (cn_Close (dt_use p conn)), so, p)
               else (reply, None, so, putBack conn p)) })"

definition dot_body :: "dnsOverTLS exchange_body" where
  "dot_body p req so =
     (case dt_getDialer p of
       Some err \<Rightarrow> Some (None, Some (ErrWrap ''getting conn'' err), so, p)
     | None \<Rightarrow>
         let ((conn, cached, err), p) = dot_conn p in
         (case err of
           Some e \<Rightarrow> Some (None, Some (ErrWrap ''getting conn'' e), so, p)
         | None \<Rightarrow> do {
             conn \<leftarrow> conn;
             (reply, err, so) \<leftarrow> dot_exchangeWithConn p conn req so;
             if err = None then Some (reply, None, so, putBack conn p)
             else let err = up_WithDeferred (dt_env p) err (cn_Close (dt_use p conn)) in
               if \<not> cached \<or> (case err of None \<Rightarrow> False | Some e \<Rightarrow> errors_Is errDNSProtocol e)
               then Some (None, err, so, p)
               else if dt_ctxErr p \<noteq> None then Some (None, join_errors [err, dt_ctxErr p], so, p)
               else if dt_late p then Some (None, join_errors [err, Some DeadlineExceeded], so, p)
               else dot_retry p req so }))"

definition dot_Exchange :: "dnsOverTLS exchange_body" where
  "dot_Exchange = run_exchange dot_body"

subsection \<open>The exchange decides\<close>

text \<open>\<^verbatim>\<open>errors.WithDeferred\<close> of an error is an error.\<close>

definition dot_law :: "dnsOverTLS \<Rightarrow> bool" where
  "dot_law p \<longleftrightarrow> unpack_header_law (dt_env p) \<and> (\<forall>e d. up_WithDeferred (dt_env p) (Some e) d \<noteq> None)"

lemma dot_law_update [simp]: "dot_law (p\<lparr>dt_conns := cs\<rparr>) = dot_law p" "dot_law (putBack c p) = dot_law p"
  by (simp_all add: dot_law_def putBack_def)

lemma WithDeferred_err: "dot_law p \<Longrightarrow> err \<noteq> None \<Longrightarrow> up_WithDeferred (dt_env p) err d \<noteq> None"
  by (auto simp: dot_law_def)

lemma tlsDial_cases:
  assumes "dot_law p"
  shows "(\<exists>e. tlsDial (dt_env p) t = (None, Some e)) \<or> (\<exists>c. tlsDial (dt_env p) t = (Some c, None))"
  using WithDeferred_err [OF assms] by (auto simp: tlsDial_def split: sum.splits)

lemma conn_dial_cases:
  assumes "dot_law p"
  obtains conn err where "conn_dial p = ((conn, False, err), p)" "err = None \<longrightarrow> (\<exists>c. conn = Some c)"
  using tlsDial_cases [OF assms, of "dt_tls p 0"] by (auto simp: conn_dial_def)

text \<open>Only the connections of the pool change.\<close>

lemma dot_conn_cases:
  assumes "dot_law p"
  obtains conn cached err cs where "dot_conn p = ((conn, cached, err), p\<lparr>dt_conns := cs\<rparr>)" "err = None \<longrightarrow> (\<exists>c. conn = Some c)"
proof (cases "pool_take (dt_conns p)")
  case None
  obtain conn err where "conn_dial p = ((conn, False, err), p)" "err = None \<longrightarrow> (\<exists>c. conn = Some c)"
    using conn_dial_cases [OF assms] .
  with None that [of conn False err "dt_conns p"] show ?thesis by (simp add: dot_conn_def)
next
  case (Some x)
  obtain c cs where x: "x = (c, cs)" by (cases x)
  let ?p = "p\<lparr>dt_conns := cs\<rparr>"
  have "dot_law ?p" using assms by simp
  then obtain conn err where d: "conn_dial ?p = ((conn, False, err), ?p)" "err = None \<longrightarrow> (\<exists>c. conn = Some c)"
    using conn_dial_cases by blast
  show ?thesis
  proof (cases "cn_SetDeadline (dt_use p c) = None")
    case True
    with Some x that [of "Some c" True None cs] show ?thesis by (simp add: dot_conn_def Let_def)
  next
    case False
    with Some x d that [of conn False err cs] show ?thesis by (simp add: dot_conn_def Let_def)
  qed
qed

text \<open>A response is published only by the attempt that succeeds.\<close>

lemma dot_attempt_spec:
  assumes "dot_law p" "m_Question req \<noteq> []" "xs_inv (m_Id req) c s"
  shows "\<exists>reply err s'. dot_exchangeWithConn p conn req (Some s) = Some (reply, err, Some s') \<and>
    dot_exchangeWithConn p conn req None = Some (reply, err, None) \<and> good_attempt req reply err \<and>
    publishes (m_Id req) c (\<lambda>r. err = None \<and> reply = Some r) s s'"
proof (cases "cn_WriteMsg (dt_use p conn)")
  case (Some e)
  with publishes_refl [OF assms(3)] show ?thesis by (simp add: dot_exchangeWithConn_def good_attempt_def)
next
  case None
  have "unpack_header_law (dt_env p)" using assms(1) by (simp add: dot_law_def)
  from readDNSResponse_spec [OF this assms(2,3), of False True "cn_reads (dt_use p conn)"]
  obtain resp err s' where 1: "readDNSResponse (dt_env p) req False True (cn_reads (dt_use p conn)) (Some s) = Some (resp, err, Some s')"
    "readDNSResponse (dt_env p) req False True (cn_reads (dt_use p conn)) None = Some (resp, err, None)"
    "good_read req True resp err" "publishes (m_Id req) c (published_read (m_Id req) False resp err) s s'" by blast
  show ?thesis
  proof (cases err)
    case (Some e)
    with 1(4) have "publishes (m_Id req) c (\<lambda>_. False) s s'" by (elim publishes_mono) (simp add: published_read_def)
    with None Some 1(1,2) show ?thesis by (simp add: dot_exchangeWithConn_def good_attempt_def)
  next
    case err: None
    with 1(3) obtain m where m: "resp = Some m" "m_Id m = m_Id req" "validateResponse req m = Some None"
      by (auto simp: good_read_def)
    with 1(4) have "publishes (m_Id req) c (\<lambda>r. resp = Some r) s s'"
      by (elim publishes_mono) (auto simp: published_read_def)
    with None err 1(1,2) m show ?thesis by (simp add: dot_exchangeWithConn_def good_attempt_def)
  qed
qed

lemma dot_retry_gives:
  assumes "dot_law p" "m_Question req \<noteq> []" "xs_inv (m_Id req) c s1" "publishes (m_Id req) c (\<lambda>_. False) s s1"
    "f (Some s) = dot_retry p req (Some s1)" "f None = dot_retry p req None"
  shows "exchange_gives dot_law req c s f"
  using tlsDial_cases [OF assms(1), of "dt_tls p 1"]
proof (elim disjE exE)
  fix e assume "tlsDial (dt_env p) (dt_tls p 1) = (None, Some e)"
  with assms show ?thesis by (intro gives_error) (simp_all add: dot_retry_def)
next
  fix conn assume d: "tlsDial (dt_env p) (dt_tls p 1) = (Some conn, None)"
  obtain resp err s2 where 1: "dot_exchangeWithConn p conn req (Some s1) = Some (resp, err, Some s2)"
    "dot_exchangeWithConn p conn req None = Some (resp, err, None)" "good_attempt req resp err"
    "publishes (m_Id req) c (\<lambda>r. err = None \<and> resp = Some r) s1 s2"
    using dot_attempt_spec [OF assms(1-3)] by blast
  have pub: "publishes (m_Id req) c (\<lambda>r. err = None \<and> resp = Some r) s s2"
    using publishes_trans [OF assms(4) 1(4)] by simp
  show ?thesis
  proof (cases err)
    case None
    show ?thesis
      by (rule gives_reply [of f s resp s2 "putBack conn p"])
        (use assms(1,5,6) d 1 pub None in \<open>simp_all add: dot_retry_def\<close>)
  next
    case (Some e)
    obtain e' where "up_WithDeferred (dt_env p) err (cn_Close (dt_use p conn)) = Some e'"
      using WithDeferred_err [OF assms(1)] Some by blast
    moreover have "resp = None" using 1(3) Some by (simp add: good_attempt_def)
    ultimately show ?thesis
      by (intro gives_error [of f s e' s2 p]) (use assms(1,5,6) d 1 pub Some in \<open>simp_all add: dot_retry_def\<close>)
  qed
qed

lemma dot_body_gives:
  assumes "dot_law p" "m_Question req \<noteq> []" "xs_inv (m_Id req) c s"
  shows "exchange_gives dot_law req c s (dot_body p req)"
proof (cases "dt_getDialer p")
  case (Some e)
  with assms(1) publishes_refl [OF assms(3)] show ?thesis by (intro gives_error) (simp_all add: dot_body_def)
next
  case None
  obtain conn cached err cs where 1: "dot_conn p = ((conn, cached, err), p\<lparr>dt_conns := cs\<rparr>)" "err = None \<longrightarrow> (\<exists>c. conn = Some c)"
    using dot_conn_cases [OF assms(1)] .
  let ?p = "p\<lparr>dt_conns := cs\<rparr>"
  have law: "dot_law ?p" using assms(1) by simp
  show ?thesis
  proof (cases err)
    case (Some e)
    show ?thesis
      by (rule gives_error [of _ s "ErrWrap ''getting conn'' e" s ?p])
        (use None 1 Some law publishes_refl [OF assms(3)] in \<open>simp_all add: dot_body_def\<close>)
  next
    case err: None
    with 1(2) obtain k where k: "conn = Some k" by blast
    obtain resp err1 s1 where 2: "dot_exchangeWithConn ?p k req (Some s) = Some (resp, err1, Some s1)"
      "dot_exchangeWithConn ?p k req None = Some (resp, err1, None)" "good_attempt req resp err1"
      "publishes (m_Id req) c (\<lambda>r. err1 = None \<and> resp = Some r) s s1"
      using dot_attempt_spec [OF law assms(2,3)] by blast
    note run = None 1(1) err k 2(1,2)
    show ?thesis
    proof (cases err1)
      case e1: None
      show ?thesis
        by (rule gives_reply [of _ s resp s1 "putBack k ?p"]) (use run law 2 e1 in \<open>simp_all add: dot_body_def\<close>)
    next
      case (Some e)
      then have pub: "publishes (m_Id req) c (\<lambda>_. False) s s1" using 2(4) by simp
      obtain e' where e': "up_WithDeferred (dt_env p) (Some e) (cn_Close (dt_use p k)) = Some e'"
        using WithDeferred_err [OF assms(1), of "Some e"] by blast
      have fail: "exchange_gives dot_law req c s (dot_body p req)"
        if "dot_body p req (Some s) = Some (None, Some x, Some s1, ?p)" "dot_body p req None = Some (None, Some x, None, ?p)" for x
        by (rule gives_error [where ok = dot_law, OF that law pub])
      show ?thesis
      proof (cases "cached \<and> \<not> errors_Is errDNSProtocol e' \<and> dt_ctxErr p = None \<and> \<not> dt_late p")
        case True
        show ?thesis
          by (rule dot_retry_gives [OF law assms(2) publishes_inv [OF pub] pub])
            (use run Some e' True in \<open>simp_all add: dot_body_def Let_def\<close>)
      next
        case False
        have "\<exists>x. dot_body p req (Some s) = Some (None, Some x, Some s1, ?p) \<and> dot_body p req None = Some (None, Some x, None, ?p)"
          using run Some e' False
          by (auto simp: dot_body_def Let_def join_errors_def errors_Join_def List.map_filter_def)
        with fail show ?thesis by blast
      qed
    qed
  qed
qed

interpretation dot: validating_upstream dot_body dot_law
  by unfold_locales (use dot_body_gives in \<open>unfold exchange_gives_def validated_def, blast\<close>)

subsection \<open>Concurrent exchanges share the pool\<close>

text \<open>
  Exchanges run concurrently; only the sections under the lock are atomic.  An exchange has not yet asked for a connection,
  is about to dial one, uses one, is about to dial a new one for its retry, or is over.  \<^verbatim>\<open>dp_dropped\<close> are the connections
  that exchanges closed after a failure; \<^verbatim>\<open>Close\<close> closes connections but moves none of them.
\<close>

datatype dot_phase = Starting | Dialing | Using nat bool | Retrying | Over

record dot_pool =
  dp_conns :: "nat list"
  dp_phase :: "nat \<Rightarrow> dot_phase"
  dp_dialed :: nat
  dp_dropped :: "nat set"

inductive pool_step :: "dot_pool \<Rightarrow> dot_pool \<Rightarrow> bool" where
  Take: "dp_phase s e = Starting \<Longrightarrow> pool_take (dp_conns s) = Some (c, cs) \<Longrightarrow>
    pool_step s (s\<lparr>dp_conns := cs, dp_phase := (dp_phase s)(e := Using c True)\<rparr>)"
| TakeBroken: "dp_phase s e = Starting \<Longrightarrow> pool_take (dp_conns s) = Some (c, cs) \<Longrightarrow>
    pool_step s (s\<lparr>dp_conns := cs, dp_phase := (dp_phase s)(e := Dialing), dp_dropped := insert c (dp_dropped s)\<rparr>)"
| Empty: "dp_phase s e = Starting \<Longrightarrow> pool_take (dp_conns s) = None \<Longrightarrow>
    pool_step s (s\<lparr>dp_phase := (dp_phase s)(e := Dialing)\<rparr>)"
| Dialed: "dp_phase s e = Dialing \<or> dp_phase s e = Retrying \<Longrightarrow>
    pool_step s (s\<lparr>dp_dialed := Suc (dp_dialed s), dp_phase := (dp_phase s)(e := Using (dp_dialed s) False)\<rparr>)"
| DialFailed: "dp_phase s e = Dialing \<or> dp_phase s e = Retrying \<Longrightarrow>
    pool_step s (s\<lparr>dp_phase := (dp_phase s)(e := Over)\<rparr>)"
| Replied: "dp_phase s e = Using c cached \<Longrightarrow>
    pool_step s (s\<lparr>dp_conns := pool_put c (dp_conns s), dp_phase := (dp_phase s)(e := Over)\<rparr>)"
| FailedRetry: "dp_phase s e = Using c True \<Longrightarrow>
    pool_step s (s\<lparr>dp_phase := (dp_phase s)(e := Retrying), dp_dropped := insert c (dp_dropped s)\<rparr>)"
| Failed: "dp_phase s e = Using c cached \<Longrightarrow>
    pool_step s (s\<lparr>dp_phase := (dp_phase s)(e := Over), dp_dropped := insert c (dp_dropped s)\<rparr>)"
| Closing: "pool_step s s"

inductive pool_reachable :: "dot_pool \<Rightarrow> bool" where
  initial: "pool_reachable \<lparr> dp_conns = [], dp_phase = (\<lambda>_. Starting), dp_dialed = 0, dp_dropped = {} \<rparr>"
| step: "pool_reachable s \<Longrightarrow> pool_step s s' \<Longrightarrow> pool_reachable s'"

definition pool_inv :: "dot_pool \<Rightarrow> bool" where
  "pool_inv s \<longleftrightarrow> distinct (dp_conns s) \<and> (\<forall>c \<in> set (dp_conns s). c < dp_dialed s \<and> c \<notin> dp_dropped s) \<and>
     (\<forall>c \<in> dp_dropped s. c < dp_dialed s) \<and>
     (\<forall>e c b. dp_phase s e = Using c b \<longrightarrow> c < dp_dialed s \<and> c \<notin> set (dp_conns s) \<and> c \<notin> dp_dropped s \<and>
        (\<forall>e' b'. dp_phase s e' = Using c b' \<longrightarrow> e' = e))"

lemma pool_take_Some:
  "pool_take cs = Some (c, cs') \<longleftrightarrow> cs = cs' @ [c]"
  by (cases cs rule: rev_cases) (auto simp: pool_take_def)

lemma pool_step_inv: "pool_step s s' \<Longrightarrow> pool_inv s \<Longrightarrow> pool_inv s'"
proof (induction rule: pool_step.induct)
  case (Take s e c cs)
  then show ?case unfolding pool_inv_def pool_take_Some by (auto; blast)
next
  case (TakeBroken s e c cs)
  then show ?case unfolding pool_inv_def pool_take_Some by (auto; blast)
next
  case (Empty s e)
  then show ?case unfolding pool_inv_def by (auto; blast)
next
  case (Dialed s e)
  then show ?case unfolding pool_inv_def by (auto simp: less_Suc_eq; blast)
next
  case (DialFailed s e)
  then show ?case unfolding pool_inv_def by (auto; blast)
next
  case (Replied s e c cached)
  then show ?case unfolding pool_inv_def pool_put_def by (auto; blast)
next
  case (FailedRetry s e c)
  then show ?case unfolding pool_inv_def by (auto; blast)
next
  case (Failed s e c cached)
  then show ?case unfolding pool_inv_def by (auto; blast)
next
  case (Closing s)
  then show ?case .
qed

lemma pool_reachable_inv: "pool_reachable s \<Longrightarrow> pool_inv s"
proof (induction rule: pool_reachable.induct)
  case initial
  show ?case by (simp add: pool_inv_def)
next
  case (step s s')
  then show ?case by (simp add: pool_step_inv)
qed

text \<open>
  C21.  In every interleaving of exchanges over one DNS-over-TLS upstream no connection is used by two exchanges at a time
  or stored in the pool while it is used, the pool holds no connection twice, and a connection that
  an exchange dropped after a failure is never in the pool or in use again.
\<close>

theorem pool_connections_exclusive:
  assumes "pool_reachable s"
  shows "distinct (dp_conns s) \<and> set (dp_conns s) \<inter> dp_dropped s = {} \<and>
    (\<forall>e c b. dp_phase s e = Using c b \<longrightarrow> c \<notin> set (dp_conns s) \<and> c \<notin> dp_dropped s \<and>
       (\<forall>e' b'. dp_phase s e' = Using c b' \<longrightarrow> e' = e))"
  using pool_reachable_inv [OF assms] unfolding pool_inv_def by blast

text \<open>Two exchanges, the first of which leaves its connection to the second while a third dials its own.\<close>

definition sample_pool :: dot_pool where
  "sample_pool = \<lparr> dp_conns = [], dp_phase = (\<lambda>_. Starting)(0 := Over, 1 := Using 0 True, 2 := Using 1 False),
     dp_dialed = 2, dp_dropped = {} \<rparr>"

lemma sample_pool_reachable: "pool_reachable sample_pool"
proof -
  let ?s0 = "\<lparr> dp_conns = [], dp_phase = (\<lambda>_. Starting), dp_dialed = 0, dp_dropped = {} \<rparr>"
  let ?s1 = "?s0\<lparr>dp_phase := (\<lambda>_. Starting)(0 := Dialing)\<rparr>"
  let ?s2 = "?s0\<lparr>dp_phase := (\<lambda>_. Starting)(0 := Using 0 False), dp_dialed := 1\<rparr>"
  let ?s3 = "?s0\<lparr>dp_conns := [0], dp_phase := (\<lambda>_. Starting)(0 := Over), dp_dialed := 1\<rparr>"
  let ?s4 = "?s0\<lparr>dp_phase := (\<lambda>_. Starting)(0 := Over, 1 := Using 0 True), dp_dialed := 1\<rparr>"
  let ?s5 = "?s0\<lparr>dp_phase := (\<lambda>_. Starting)(0 := Over, 1 := Using 0 True, 2 := Dialing), dp_dialed := 1\<rparr>"
  have "pool_step ?s0 ?s1" using pool_step.Empty [of ?s0 0] by (simp add: pool_take_def)
  moreover have "pool_step ?s1 ?s2" using pool_step.Dialed [of ?s1 0] by simp
  moreover have "pool_step ?s2 ?s3" using pool_step.Replied [of ?s2 0 0 False] by (simp add: pool_put_def)
  moreover have "pool_step ?s3 ?s4" using pool_step.Take [of ?s3 1 0 "[]"] by (simp add: pool_take_def)
  moreover have "pool_step ?s4 ?s5" using pool_step.Empty [of ?s4 2] by (simp add: pool_take_def)
  moreover have "pool_step ?s5 sample_pool"
    using pool_step.Dialed [of ?s5 2] by (simp add: sample_pool_def numeral_2_eq_2)
  ultimately show ?thesis using pool_reachable.initial pool_reachable.step by meson
qed

theorem pool_connections_exclusive_witness:
  "dp_phase sample_pool 1 = Using 0 True \<and> {e. \<exists>b. dp_phase sample_pool e = Using 0 b} = {1}"
proof -
  have "dp_phase sample_pool 1 = Using 0 True" by (simp add: sample_pool_def)
  with pool_connections_exclusive [OF sample_pool_reachable] show ?thesis by blast
qed

text \<open>
  C15.  An exchange of a DNS-over-TLS upstream never panics and always decides.  The state only observes, a published decision
  is the very response returned, observed before the cutoff, and an exchange without an
  error has a response with the identifier of the request and one question, of the type and, up to case, the name asked for.
\<close>

theorem dot_Exchange_decides:
  assumes "dot_law p" "m_Question req = rq # rqs"
  shows "\<exists>resp err s' p'. dot_Exchange p req (Some (NewExchangeState cutoff)) = Some (resp, err, Some s', p') \<and>
    dot_Exchange p req None = Some (resp, err, None, p') \<and> xs_finished s' \<and>
    (\<forall>r. er_Response (xs_result s') = Some r \<longrightarrow> resp = Some r \<and>
       (\<exists>t. er_ReceivedAt (xs_result s') = Some t \<and> (\<forall>d. cutoff = Some d \<longrightarrow> t \<le> d))) \<and>
    (err = None \<longrightarrow> (\<exists>m q. resp = Some m \<and> m_Id m = m_Id req \<and> m_Question m = [q] \<and> q_Qtype q = q_Qtype rq \<and>
       EqualFold (q_Name rq) (q_Name q)))"
  unfolding dot_Exchange_def using dot.answers_question [OF assms, of cutoff] by blast

text \<open>An upstream whose pooled connection has been closed by the server.\<close>

definition sample_dot :: dnsOverTLS where
  "sample_dot = \<lparr> dt_env = sample_conn_env, dt_getDialer = None, dt_conns = [0],
     dt_use = (\<lambda>c. \<lparr> cn_SetDeadline = None, cn_WriteMsg = None,
       cn_reads = (if c = 0 then [\<lparr> rv_before = [], rv_now = 1, rv_frame = Inl io_EOF, rv_during = [], rv_end = 1 \<rparr>]
         else [\<lparr> rv_before = [], rv_now = 3, rv_frame = Inr [0, 1, 0x80, 0, 0, 1, 0, 1, 0, 0, 0, 0],
           rv_during = [GroupExpire], rv_end = 4 \<rparr>]), cn_Close = None \<rparr>),
     dt_tls = (\<lambda>_. \<lparr> ta_ctxErr = None, ta_dial = Inr 5, ta_SetDeadline = None, ta_Handshake = None, ta_Close = None \<rparr>),
     dt_ctxErr = None, dt_late = False \<rparr>"

lemma sample_dot_law: "dot_law sample_dot"
  by (auto simp: dot_law_def sample_dot_def sample_conn_env_def unpack_header_law_def split: option.splits)

theorem dot_Exchange_decides_witness:
  "\<exists>resp err s' p'. dot_Exchange sample_dot sample_req (Some (NewExchangeState (Some 5))) = Some (resp, err, Some s', p') \<and>
     xs_finished s' \<and> er_Response (xs_result s') = resp \<and> dt_conns p' = [5] \<and> (\<exists>m. resp = Some m \<and> m_Id m = 1)"
proof -
  obtain resp err s' p' where *: "dot_Exchange sample_dot sample_req (Some (NewExchangeState (Some 5))) = Some (resp, err, Some s', p')"
    "xs_finished s'" "\<forall>r. er_Response (xs_result s') = Some r \<longrightarrow> resp = Some r"
    "err = None \<longrightarrow> (\<exists>m. resp = Some m \<and> m_Id m = m_Id sample_req)"
    using dot_Exchange_decides [OF sample_dot_law, of sample_req sample_question "[]" "Some 5"]
    by (auto simp: sample_req_def)
  have "err = None \<and> (\<exists>r. er_Response (xs_result s') = Some r) \<and> dt_conns p' = [5]"
    using *(1)
    by (auto simp: dot_Exchange_def run_exchange_def dot_body_def dot_conn_def pool_take_def dot_exchangeWithConn_def sample_dot_def
        sample_conn_env_def sample_req_def sample_resp_def sample_question_def decode_frame_def reserve_def final_header_def
        validateResponse_def go_index_def EqualFold_def io_EOF_def errDNSProtocol_def ErrShortRead_def dot_retry_def tlsDial_def
        putBack_def pool_put_def empty_Msg_def NewExchangeState_def xs_method_defs Let_def)
  with * show ?thesis by (auto simp: sample_req_def)
qed

end
