(* ===== verification/Upstream_Doq.thy ===== *)
theory Upstream_Doq
  imports Upstream_Plain
begin

text \<open>
  The DNS-over-QUIC upstream (\<^verbatim>\<open>upstream/doq.go\<close>, \<^verbatim>\<open>upstream/network_quic.go\<close>): the cached connection, one stream per
  query with its length-prefixed frame, the retry over a new connection and the codes with which connections are
  closed.  The QUIC library is what opening connections and streams returns; a stream is the bytes
  that can be read from it and the error that ends them.
\<close>

subsection \<open>Connections\<close>

definition QUICCodeNoError :: nat where "QUICCodeNoError = 0"

definition QUICCodeInternalError :: nat where "QUICCodeInternalError = 1"

definition QUICCodeProtocolError :: nat where "QUICCodeProtocolError = 2"

definition errDoQProtocol :: error where "errDoQProtocol = ErrMsg ''invalid DoQ response''"

definition ErrUnexpectedEOF :: error where "ErrUnexpectedEOF = ErrMsg ''unexpected EOF''"

record quic_attempt =
  qa_networkDialer :: bool
  qa_DialPacket :: "error + bool \<times> bool"
  qa_DialEarly :: "error + nat"
  qa_getDialer :: "error option"
  qa_dial :: "error + bool"
  qa_DialAddrEarly :: "error + nat"

record doq_stream =
  ds_OpenStream :: "error option"
  ds_SetDeadline :: "error option"
  ds_Write :: "error option"
  ds_data :: bytes
  ds_end :: error
  ds_times :: receipt_times

record dnsOverQUIC =
  dq_env :: conn_env
  dq_Pack :: "Msg \<Rightarrow> error + bytes"
  dq_timeout :: bool
  dq_attempt :: "nat \<Rightarrow> quic_attempt"
  dq_stream :: "nat \<Rightarrow> doq_stream"
  dq_conn :: "nat option"
  dq_tokens :: nat
  dq_closed :: "(nat \<times> nat) list"

text \<open>\<^verbatim>\<open>dialQUIC\<close>, with the routed dialer or natively.\<close>

definition dialQUIC :: "quic_attempt \<Rightarrow> bool \<Rightarrow> error + nat" where
  "dialQUIC a routed =
     (if \<not> routed then qa_DialAddrEarly a
      else (case qa_DialPacket a of
        Inl err \<Rightarrow> Inl err
      | Inr (packet, destination) \<Rightarrow>
          if \<not> packet \<or> \<not> destination
          then Inl (ErrMsg ''network dialer returned an incomplete packet connection'')
          else qa_DialEarly a))"

definition openConnection :: "quic_attempt \<Rightarrow> error + nat" where
  "openConnection a =
     (if qa_networkDialer a then dialQUIC a True
      else (case qa_getDialer a of
        Some err \<Rightarrow> Inl (ErrWrap ''bootstrapping'' err)
      | None \<Rightarrow> (case qa_dial a of
          Inl err \<Rightarrow> Inl (ErrWrap ''dialing raw connection'' err)
        | Inr isUDP \<Rightarrow>
            if \<not> isUDP then Inl (ErrMsg ''unexpected type of connection'')
            else (case dialQUIC a False of
              Inl err \<Rightarrow> Inl (ErrWrap ''dialing quic connection'' err)
            | Inr conn \<Rightarrow> Inr conn))))"

definition getConnection :: "nat \<Rightarrow> dnsOverQUIC \<Rightarrow> (error + nat \<times> bool) \<times> dnsOverQUIC" where
  "getConnection n p = (case dq_conn p of
      Some conn \<Rightarrow> (Inr (conn, True), p)
    | None \<Rightarrow> (case openConnection (dq_attempt p n) of
        Inl err \<Rightarrow> (Inl err, p)
      | Inr conn \<Rightarrow> (Inr (conn, False), p\<lparr>dq_conn := Some conn\<rparr>)))"

definition doq_resetQUICConfig :: "dnsOverQUIC \<Rightarrow> dnsOverQUIC" where
  "doq_resetQUICConfig p = p\<lparr>dq_tokens := dq_tokens p + 1\<rparr>"

definition err_is :: "error \<Rightarrow> error option \<Rightarrow> bool" where
  "err_is t eo = (case eo of None \<Rightarrow> False | Some e \<Rightarrow> errors_Is t e)"

definition close_code :: "error option \<Rightarrow> nat" where
  "close_code err = (let code = (if err \<noteq> None then QUICCodeInternalError else QUICCodeNoError)
     in if err_is errDoQProtocol err then QUICCodeProtocolError else code)"

definition closeConnWithError :: "nat \<Rightarrow> error option \<Rightarrow> dnsOverQUIC \<Rightarrow> dnsOverQUIC" where
  "closeConnWithError conn err p =
     (let p = (if err_is Err0RTTRejected err then doq_resetQUICConfig p else p);
          p = p\<lparr>dq_closed := dq_closed p @ [(conn, close_code err)]\<rparr>
      in if dq_conn p = Some conn then p\<lparr>dq_conn := None\<rparr> else p)"

definition doq_Close :: "dnsOverQUIC \<Rightarrow> dnsOverQUIC" where
  "doq_Close p = (case dq_conn p of
      None \<Rightarrow> p
    | Some conn \<Rightarrow> p\<lparr>dq_closed := dq_closed p @ [(conn, QUICCodeNoError)]\<rparr>)"

subsection \<open>Streams\<close>

text \<open>\<^verbatim>\<open>io.ReadFull\<close> of a stream that ends with \<^verbatim>\<open>fin\<close>.\<close>

definition stream_ReadFull :: "nat \<Rightarrow> error \<Rightarrow> bytes \<Rightarrow> error + bytes \<times> bytes" where
  "stream_ReadFull n fin data =
     (if n \<le> length data then Inr (take n data, drop n data)
      else Inl (if fin = io_EOF \<and> data \<noteq> [] then ErrUnexpectedEOF else fin))"

definition eof_error :: "error \<Rightarrow> bool" where
  "eof_error err \<longleftrightarrow> errors_Is io_EOF err \<or> errors_Is ErrUnexpectedEOF err"

text \<open>A response is one length-prefixed frame followed by the end of the stream.\<close>

definition read_frame :: "error \<Rightarrow> bytes \<Rightarrow> (error + bytes) go" where
  "read_frame fin data = (case stream_ReadFull 2 fin data of
      Inl err \<Rightarrow> Some (Inl (if eof_error err then ErrJoin [errDoQProtocol, err] else ErrWrap ''reading response length'' err))
    | Inr (lenBuf, data) \<Rightarrow> do {
        msgLen \<leftarrow> get_uint16 lenBuf;
        if msgLen = 0 then Some (Inl (ErrJoin [errDoQProtocol, ErrMsg ''zero response length'']))
        else Some (case stream_ReadFull (unat msgLen) fin data of
            Inl err \<Rightarrow> Inl (if eof_error err then ErrJoin [errDoQProtocol, err] else err)
          | Inr (respBuf, extra) \<Rightarrow>
              if extra \<noteq> [] then Inl (ErrJoin [errDoQProtocol, ErrMsg ''extra data after frame''])
              else if \<not> errors_Is io_EOF fin then Inl (ErrWrap ''reading DoQ response FIN'' fin)
              else Inr respBuf) })"

definition doq_verdict :: "conn_env \<Rightarrow> Msg \<Rightarrow> bytes \<Rightarrow> (error + Msg) go" where
  "doq_verdict E req respBuf = (case up_Unpack E respBuf of
      (_, Some err) \<Rightarrow> Some (Inl (ErrJoin [errDoQProtocol, err]))
    | (m, None) \<Rightarrow>
        if m_Id m \<noteq> 0 then Some (Inl (ErrJoin [errDoQProtocol, ErrId]))
        else do {
          err \<leftarrow> validateResponse req m;
          Some (case err of Some e \<Rightarrow> Inl (ErrJoin [errDoQProtocol, e]) | None \<Rightarrow> Inr m) })"

definition doq_readMsg ::
  "conn_env \<Rightarrow> doq_stream \<Rightarrow> Msg \<Rightarrow> ExchangeState option \<Rightarrow> (Msg option \<times> error option \<times> ExchangeState option) go" where
  "doq_readMsg E st req so = do {
     frame \<leftarrow> read_frame (ds_end st) (ds_data st);
     (case frame of
       Inl err \<Rightarrow> Some (None, Some (ErrWrap ''from'' err), so)
     | Inr respBuf \<Rightarrow> do {
         verdict \<leftarrow> doq_verdict E req respBuf;
         settle (ds_times st) respBuf (map_sum (ErrWrap ''from'') id verdict) so }) }"

subsection \<open>The exchange\<close>

definition exchangeQUIC ::
  "dnsOverQUIC \<Rightarrow> Msg \<Rightarrow> nat \<Rightarrow> ExchangeState option \<Rightarrow> (Msg option \<times> error option \<times> ExchangeState option) go" where
  "exchangeQUIC p req conn so = (case dq_Pack p req of
      Inl err \<Rightarrow> Some (None, Some (ErrWrap ''failed to pack DNS message for DoQ'' err), so)
    | Inr buf \<Rightarrow> (case LengthPrefix (int (length buf)) of
        None \<Rightarrow> Some (None, Some (ErrMsg ''message too large''), so)
      | Some _ \<Rightarrow>
          let st = dq_stream p conn in
          if ds_OpenStream st \<noteq> None
          then Some (None, map_option (\<lambda>e. ErrWrap ''opening stream'' (ErrWrap ''failed to open a QUIC stream'' e)) (ds_OpenStream st), so)
          else if dq_timeout p \<and> ds_SetDeadline st \<noteq> None
          then Some (None, map_option (ErrWrap ''setting deadline'') (ds_SetDeadline st), so)
          else if ds_Write st \<noteq> None
          then Some (None, map_option (ErrWrap ''failed to write to a QUIC stream'') (ds_Write st), so)
          else doq_readMsg (dq_env p) st req so))"

definition doq_retries :: "dnsOverQUIC \<Rightarrow> bool \<Rightarrow> error option \<Rightarrow> bool" where
  "doq_retries p cached eo \<longleftrightarrow> cached \<and> (case eo of
      None \<Rightarrow> False
    | Some err \<Rightarrow> \<not> errors_Is errDoQProtocol err \<and> \<not> isExchangeTimeout (dq_env p) err)"

text \<open>The end of \<^verbatim>\<open>Exchange\<close>: a failed connection is closed, and the deferred function restores the identifier.\<close>

definition doq_finish ::
  "uint16 \<Rightarrow> nat \<Rightarrow> Msg option \<times> error option \<times> ExchangeState option \<Rightarrow> dnsOverQUIC \<Rightarrow>
     Msg option \<times> error option \<times> ExchangeState option \<times> dnsOverQUIC" where
  "doq_finish i conn = (\<lambda>(resp, err, so) p. (map_option (\<lambda>m. m\<lparr>m_Id := i\<rparr>) resp, err, so,
     if err \<noteq> None then closeConnWithError conn err p else p))"

definition doq_body :: "dnsOverQUIC exchange_body" where
  "doq_body p req so = (let req' = req\<lparr>m_Id := 0\<rparr> in
     (case getConnection 0 p of
       (Inl err, p) \<Rightarrow> Some (None, Some (ErrWrap ''getting conn'' err), so, p)
     | (Inr (conn, cached), p) \<Rightarrow> do {
         (resp, err, so) \<leftarrow> exchangeQUIC p req' conn so;
         if doq_retries p cached err then
           (case getConnection 1 (closeConnWithError conn err p) of
             (Inl err, p) \<Rightarrow> Some (None, Some (ErrWrap ''getting new conn'' err), so, p)
           | (Inr (conn, _), p) \<Rightarrow> do {
               r \<leftarrow> exchangeQUIC p req' conn so;
               Some (doq_finish (m_Id req) conn r p) })
         else Some (doq_finish (m_Id req) conn (resp, err, so) p) }))"

definition doq_Exchange :: "dnsOverQUIC exchange_body" where
  "doq_Exchange = run_exchange doq_body"

subsection \<open>The exchange decides\<close>

lemma read_frame_total: "\<exists>r. read_frame fin data = Some r"
proof (cases "stream_ReadFull 2 fin data")
  case (Inr x)
  then obtain l d where x: "x = (l, d)" by (cases x)
  with Inr have "length l = 2" by (auto simp: stream_ReadFull_def split: if_splits)
  then have "get_uint16 l \<noteq> None" by (auto simp: get_uint16_None_iff)
  with Inr x show ?thesis by (auto simp: read_frame_def)
qed (simp add: read_frame_def)

lemma doq_verdict_total:
  assumes "m_Question req \<noteq> []"
  obtains v where "doq_verdict E req wire = Some v" "\<forall>m. v = Inr m \<longrightarrow> validateResponse req m = Some None"
proof -
  obtain m err where u: "up_Unpack E wire = (m, err)" by fastforce
  obtain q where q: "validateResponse req m = Some q" using validateResponse_total [OF assms] by blast
  show ?thesis
    by (rule that [of "case err of Some e \<Rightarrow> Inl (ErrJoin [errDoQProtocol, e]) | None \<Rightarrow> if m_Id m \<noteq> 0 then
        Inl (ErrJoin [errDoQProtocol, ErrId]) else (case q of Some e \<Rightarrow> Inl (ErrJoin [errDoQProtocol, e]) | None \<Rightarrow> Inr m)"])
      (auto simp: doq_verdict_def u q split: option.splits)
qed

text \<open>One attempt, with the identifier zero of the request sent.\<close>

definition doq_attempt_ok :: "Msg \<Rightarrow> Msg option \<Rightarrow> error option \<Rightarrow> bool" where
  "doq_attempt_ok req resp err \<longleftrightarrow> (case err of
      None \<Rightarrow> \<exists>m. resp = Some m \<and> validateResponse req m = Some None
    | Some _ \<Rightarrow> resp = None)"

lemma doq_readMsg_spec:
  assumes "m_Question req \<noteq> []" "xs_inv i c s"
  shows "\<exists>resp err s'. doq_readMsg E st req (Some s) = Some (resp, err, Some s') \<and>
    doq_readMsg E st req None = Some (resp, err, None) \<and> doq_attempt_ok req resp err \<and>
    publishes i c (\<lambda>r. \<exists>m. resp = Some m \<and> r = m\<lparr>m_Id := i\<rparr>) s s'"
proof -
  obtain f where f: "read_frame (ds_end st) (ds_data st) = Some f" using read_frame_total by blast
  show ?thesis
  proof (cases f)
    case (Inl e)
    with f publishes_refl [OF assms(2)] show ?thesis by (simp add: doq_readMsg_def doq_attempt_ok_def)
  next
    case (Inr wire)
    obtain v where v: "doq_verdict E req wire = Some v" "\<forall>m. v = Inr m \<longrightarrow> validateResponse req m = Some None"
      using doq_verdict_total [OF assms(1)] .
    obtain s' where s': "settle (ds_times st) wire (map_sum (ErrWrap ''from'') id v) (Some s) =
        Some (case map_sum (ErrWrap ''from'') id v of Inl e \<Rightarrow> (None, Some e, Some s') | Inr m \<Rightarrow> (Some m, None, Some s'))"
      "settle (ds_times st) wire (map_sum (ErrWrap ''from'') id v) None =
        Some (case map_sum (ErrWrap ''from'') id v of Inl e \<Rightarrow> (None, Some e, None) | Inr m \<Rightarrow> (Some m, None, None))"
      "publishes i c (\<lambda>r. \<exists>m. map_sum (ErrWrap ''from'') id v = Inr m \<and> r = m\<lparr>m_Id := i\<rparr>) s s'"
      using settle_spec [OF assms(2)] by blast
    show ?thesis
    proof (cases v)
      case Inl': (Inl e)
      with f Inr v s' show ?thesis by (simp add: doq_readMsg_def doq_attempt_ok_def)
    next
      case Inr': (Inr m)
      with f Inr v s' show ?thesis by (simp add: doq_readMsg_def doq_attempt_ok_def)
    qed
  qed
qed

lemma exchangeQUIC_spec:
  assumes "m_Question req \<noteq> []" "xs_inv i c s"
  shows "\<exists>resp err s'. exchangeQUIC p (req\<lparr>m_Id := 0\<rparr>) conn (Some s) = Some (resp, err, Some s') \<and>
    exchangeQUIC p (req\<lparr>m_Id := 0\<rparr>) conn None = Some (resp, err, None) \<and> doq_attempt_ok req resp err \<and>
    publishes i c (\<lambda>r. \<exists>m. resp = Some m \<and> r = m\<lparr>m_Id := i\<rparr>) s s'"
proof -
  have q: "m_Question (req\<lparr>m_Id := 0\<rparr>) \<noteq> []" using assms(1) by simp
  let ?st = "dq_stream p conn"
  have fail: "?thesis" if "exchangeQUIC p (req\<lparr>m_Id := 0\<rparr>) conn = (\<lambda>so. Some (None, Some e, so))" for e
    using that publishes_refl [OF assms(2)] by (simp add: doq_attempt_ok_def)
  have ok: "doq_attempt_ok (req\<lparr>m_Id := 0\<rparr>) resp err = doq_attempt_ok req resp err" for resp err
    by (cases err) (simp_all add: doq_attempt_ok_def)
  show ?thesis
  proof (cases "dq_Pack p (req\<lparr>m_Id := 0\<rparr>)")
    case (Inl e)
    then show ?thesis by (intro fail) (simp add: exchangeQUIC_def fun_eq_iff)
  next
    case (Inr buf)
    show ?thesis
    proof (cases "LengthPrefix (int (length buf)) = None \<or> ds_OpenStream ?st \<noteq> None \<or>
        (dq_timeout p \<and> ds_SetDeadline ?st \<noteq> None) \<or> ds_Write ?st \<noteq> None")
      case True
      then have "\<exists>e. exchangeQUIC p (req\<lparr>m_Id := 0\<rparr>) conn = (\<lambda>so. Some (None, Some e, so))"
        using Inr by (cases "ds_OpenStream ?st"; cases "ds_SetDeadline ?st"; cases "ds_Write ?st"; cases "dq_timeout p")
          (auto simp: exchangeQUIC_def fun_eq_iff Let_def split: option.splits)
      with fail show ?thesis by blast
    next
      case False
      then have "exchangeQUIC p (req\<lparr>m_Id := 0\<rparr>) conn = doq_readMsg (dq_env p) ?st (req\<lparr>m_Id := 0\<rparr>)"
        using Inr by (auto simp: exchangeQUIC_def fun_eq_iff Let_def split: option.splits)
      with doq_readMsg_spec [OF q assms(2), of "dq_env p" ?st] show ?thesis by (simp add: ok)
    qed
  qed
qed

text \<open>A connection that failed is no longer the cached one.\<close>

lemma closeConn_conn: "dq_conn (closeConnWithError conn err p) = (if dq_conn p = Some conn then None else dq_conn p)"
  by (simp add: closeConnWithError_def doq_resetQUICConfig_def Let_def)

lemma getConnection_cases:
  obtains (Fail) err where "getConnection n p = (Inl err, p)" "dq_conn p = None"
  | (Conn) conn cached p' where "getConnection n p = (Inr (conn, cached), p')" "dq_conn p' = Some conn"
  by (cases "dq_conn p"; cases "openConnection (dq_attempt p n)") (auto simp: getConnection_def)

text \<open>The cached connection after an exchange: the one that answered, or none after a failure.\<close>

definition conn_kept :: "error option \<Rightarrow> dnsOverQUIC \<Rightarrow> bool" where
  "conn_kept err p \<longleftrightarrow> (dq_conn p \<noteq> None \<longleftrightarrow> err = None)"

lemma doq_finish_kept:
  "dq_conn p = Some conn \<Longrightarrow> doq_finish i conn r p = (resp, err, so', p') \<Longrightarrow> conn_kept err p'"
  by (cases r) (auto simp: doq_finish_def conn_kept_def closeConn_conn split: if_splits)

lemma doq_body_kept:
  assumes "doq_body p req so = Some (resp, err, so', p')"
  shows "conn_kept err p'"
proof (cases "0 :: nat" p rule: getConnection_cases)
  case (Fail e)
  with assms show ?thesis by (auto simp: doq_body_def conn_kept_def)
next
  case (Conn conn cached p1)
  obtain resp1 err1 so1 where 1: "exchangeQUIC p1 (req\<lparr>m_Id := 0\<rparr>) conn so = Some (resp1, err1, so1)"
    using assms Conn(1) by (auto simp: doq_body_def Let_def bind_eq_Some_conv)
  show ?thesis
  proof (cases "doq_retries p1 cached err1")
    case False
    with assms Conn(1) 1 have "doq_finish (m_Id req) conn (resp1, err1, so1) p1 = (resp, err, so', p')"
      by (simp add: doq_body_def Let_def)
    with Conn(2) show ?thesis by (rule doq_finish_kept)
  next
    case retry: True
    let ?p2 = "closeConnWithError conn err1 p1"
    show ?thesis
    proof (cases "1 :: nat" ?p2 rule: getConnection_cases)
      case (Fail e)
      with assms Conn(1) 1 retry show ?thesis by (auto simp: doq_body_def Let_def conn_kept_def)
    next
      case Conn2: (Conn conn2 cached2 p3)
      with assms Conn(1) 1 retry obtain r where "doq_finish (m_Id req) conn2 r p3 = (resp, err, so', p')"
        by (auto simp: doq_body_def Let_def bind_eq_Some_conv)
      with Conn2(2) show ?thesis by (rule doq_finish_kept)
    qed
  qed
qed

text \<open>One attempt that is the last.\<close>

lemma doq_finish_gives:
  assumes "m_Question req \<noteq> []" "publishes (m_Id req) c (\<lambda>_. False) s s1"
    "\<And>so. f so = exchangeQUIC p (req\<lparr>m_Id := 0\<rparr>) conn so \<bind> (\<lambda>r. Some (doq_finish (m_Id req) conn r p))"
    "g (Some s) = f (Some s1)" "g None = f None"
  shows "exchange_gives (\<lambda>_. True) req c s g"
proof -
  obtain resp err s2 where 1: "exchangeQUIC p (req\<lparr>m_Id := 0\<rparr>) conn (Some s1) = Some (resp, err, Some s2)"
    "exchangeQUIC p (req\<lparr>m_Id := 0\<rparr>) conn None = Some (resp, err, None)" "doq_attempt_ok req resp err"
    "publishes (m_Id req) c (\<lambda>r. \<exists>m. resp = Some m \<and> r = m\<lparr>m_Id := m_Id req\<rparr>) s1 s2"
    using exchangeQUIC_spec [OF assms(1) publishes_inv [OF assms(2)]] by blast
  let ?p = "if err \<noteq> None then closeConnWithError conn err p else p"
  have g: "g (Some s) = Some (map_option (\<lambda>m. m\<lparr>m_Id := m_Id req\<rparr>) resp, err, Some s2, ?p)"
    "g None = Some (map_option (\<lambda>m. m\<lparr>m_Id := m_Id req\<rparr>) resp, err, None, ?p)"
    using 1(1,2) by (simp_all add: assms(3-5) doq_finish_def)
  have "publishes (m_Id req) c (\<lambda>r. False \<or> (\<exists>m. resp = Some m \<and> r = m\<lparr>m_Id := m_Id req\<rparr>)) s s2"
    by (rule publishes_trans [OF assms(2) 1(4)])
  then have "publishes (m_Id req) c (\<lambda>r. map_option (\<lambda>m. m\<lparr>m_Id := m_Id req\<rparr>) resp = Some r) s s2"
    by (rule publishes_mono) auto
  moreover have "\<exists>m. map_option (\<lambda>m. m\<lparr>m_Id := m_Id req\<rparr>) resp = Some m \<and> m_Id m = m_Id req \<and> validateResponse req m = Some None"
    if "err = None" using 1(3) that by (auto simp: doq_attempt_ok_def)
  ultimately show ?thesis unfolding exchange_gives_def using g by blast
qed

lemma doq_body_gives:
  assumes "m_Question req \<noteq> []" "xs_inv (m_Id req) c s"
  shows "exchange_gives (\<lambda>_. True) req c s (doq_body p req)"
proof (cases "0 :: nat" p rule: getConnection_cases)
  case (Fail e)
  with publishes_refl [OF assms(2)] show ?thesis by (intro gives_error) (simp_all add: doq_body_def)
next
  case (Conn conn cached p1)
  obtain resp err s1 where 1: "exchangeQUIC p1 (req\<lparr>m_Id := 0\<rparr>) conn (Some s) = Some (resp, err, Some s1)"
    "exchangeQUIC p1 (req\<lparr>m_Id := 0\<rparr>) conn None = Some (resp, err, None)" "doq_attempt_ok req resp err"
    "publishes (m_Id req) c (\<lambda>r. \<exists>m. resp = Some m \<and> r = m\<lparr>m_Id := m_Id req\<rparr>) s s1"
    using exchangeQUIC_spec [OF assms] by blast
  show ?thesis
  proof (cases "doq_retries p1 cached err")
    case False
    show ?thesis
      by (rule doq_finish_gives [OF assms(1) publishes_refl [OF assms(2)], of _ p1 conn, OF refl])
        (use Conn(1) 1(1,2) False in \<open>simp_all add: doq_body_def Let_def\<close>)
  next
    case True
    then have "resp = None" using 1(3) by (auto simp: doq_retries_def doq_attempt_ok_def split: option.splits)
    then have pub: "publishes (m_Id req) c (\<lambda>_. False) s s1" using 1(4) by simp
    let ?p2 = "closeConnWithError conn err p1"
    show ?thesis
    proof (cases "1 :: nat" ?p2 rule: getConnection_cases)
      case (Fail e)
      show ?thesis
        by (rule gives_error [of _ s "ErrWrap ''getting new conn'' e" s1 ?p2])
          (use Fail Conn(1) 1(1,2) True pub in \<open>simp_all add: doq_body_def Let_def\<close>)
    next
      case Conn2: (Conn conn2 cached2 p3)
      show ?thesis
        by (rule doq_finish_gives [OF assms(1) pub, of _ p3 conn2, OF refl])
          (use Conn2(1) Conn(1) 1(1,2) True in \<open>simp_all add: doq_body_def Let_def\<close>)
    qed
  qed
qed

interpretation doq: validating_upstream doq_body "\<lambda>_. True"
  by unfold_locales (use doq_body_gives in \<open>unfold exchange_gives_def validated_def, blast\<close>)

lemma doq_Exchange_kept:
  assumes "doq_Exchange p req None = Some (resp, err, so, p')"
  shows "conn_kept err p'"
proof -
  have "\<exists>r so'. doq_body p req None = Some (r, err, so', p')"
    using assms by (auto simp: doq_Exchange_def run_exchange_def xs_start_def bind_eq_Some_conv)
  then show ?thesis using doq_body_kept by blast
qed


definition net_timeout :: error where "net_timeout = ErrMsg ''no recent network activity''"

text \<open>An upstream whose cached connection is broken and whose new one answers.\<close>

definition sample_doq :: dnsOverQUIC where
  "sample_doq = \<lparr> dq_env = sample_conn_env\<lparr>up_Unpack := (\<lambda>_. (sample_resp\<lparr>m_Id := 0\<rparr>, None))\<rparr>, dq_Pack = (\<lambda>_. Inr (replicate 12 0)),
     dq_timeout = False,
     dq_attempt = (\<lambda>_. \<lparr> qa_networkDialer = False, qa_DialPacket = Inr (True, True), qa_DialEarly = Inr 4,
       qa_getDialer = None, qa_dial = Inr True, qa_DialAddrEarly = Inr 4 \<rparr>),
     dq_stream = (\<lambda>c. \<lparr> ds_OpenStream = (if c = 3 then Some net_timeout else None), ds_SetDeadline = None, ds_Write = None,
       ds_data = [0, 12, 0, 0, 0x80, 0, 0, 1, 0, 1, 0, 0, 0, 0], ds_end = io_EOF,
       ds_times = \<lparr> rt_before = [], rt_now = 3, rt_during = [GroupExpire], rt_end = 4 \<rparr> \<rparr>),
     dq_conn = Some 3, dq_tokens = 0, dq_closed = [] \<rparr>"


end
