(* ===== verification/Upstream_Doh.thy ===== *)
theory Upstream_Doh
  imports Upstream_Plain
begin

text \<open>
  The DNS-over-HTTPS upstream (\<^verbatim>\<open>upstream/doh.go\<close>): the shared HTTP client, its creation with the race between
  HTTP/3 and TLS, the request with the checks of its response, the retries over a new client, and closing.  Clients
  are numbered in the order of their creation; what the HTTP and QUIC libraries return is given per creation and
  per request.
\<close>

subsection \<open>Transports\<close>

definition HTTPVersion11 :: string where "HTTPVersion11 = ''http/1.1''"

definition HTTPVersion2 :: string where "HTTPVersion2 = ''h2''"

definition HTTPVersion3 :: string where "HTTPVersion3 = ''h3''"

definition DefaultHTTPVersions :: "string list" where "DefaultHTTPVersions = [HTTPVersion11, HTTPVersion2]"

text \<open>The first of the two probes that is received, with its error.\<close>

datatype probe = ProbeQUIC "error option" | ProbeTLS "error option"

record transport_attempt =
  tr_getDialer :: "error option"
  tr_dialUDP :: "error + bool"
  tr_probe :: probe
  tr_ConfigureTransports :: "error option"

record http_response =
  hr_StatusCode :: nat
  hr_media :: "string option"
  hr_ContentLength :: int
  hr_Body :: "bytes \<times> error option"
  hr_times :: receipt_times

record dnsOverHTTPS =
  dh_env :: conn_env
  dh_Pack :: "Msg \<Rightarrow> error + bytes"
  dh_NextProtos :: "string list"
  dh_networkDialer :: bool
  dh_transport :: "nat \<Rightarrow> transport_attempt"
  dh_NewRequest :: "error option"
  dh_Do :: "nat \<Rightarrow> error + http_response"
  dh_lateLock :: "error option"
  dh_asApplication :: "error \<Rightarrow> nat option"
  dh_asReset :: "error \<Rightarrow> bool"
  dh_asTransport :: "error \<Rightarrow> nat option"
  dh_closeErr :: "nat \<Rightarrow> error option"
  dh_client :: "nat option"
  dh_created :: nat
  dh_retired :: "nat list"
  dh_tokens :: nat
  dh_closed :: bool

definition supportsH3 :: "dnsOverHTTPS \<Rightarrow> bool" where
  "supportsH3 p \<longleftrightarrow> HTTPVersion3 \<in> set (dh_NextProtos p)"

definition supportsHTTP :: "dnsOverHTTPS \<Rightarrow> bool" where
  "supportsHTTP p \<longleftrightarrow> list_ex (\<lambda>v. v = HTTPVersion11 \<or> v = HTTPVersion2) (dh_NextProtos p)"

definition probeH3 :: "dnsOverHTTPS \<Rightarrow> transport_attempt \<Rightarrow> error option" where
  "probeH3 p t =
     (let race = (if supportsH3 p \<and> \<not> supportsHTTP p then None
            else (case tr_probe t of
                ProbeQUIC err \<Rightarrow> err
              | ProbeTLS (Some _) \<Rightarrow> None
              | ProbeTLS None \<Rightarrow> Some (ErrMsg ''TLS was faster than QUIC, prefer it'')))
      in if dh_networkDialer p then race
         else (case tr_dialUDP t of
             Inl err \<Rightarrow> Some (ErrWrap ''failed to dial'' err)
           | Inr isUDP \<Rightarrow> if \<not> isUDP then Some (ErrMsg ''not a UDP connection'') else race))"

definition createTransportH3 :: "dnsOverHTTPS \<Rightarrow> transport_attempt \<Rightarrow> error option" where
  "createTransportH3 p t =
     (if \<not> supportsH3 p then Some (ErrMsg ''HTTP3 support is not enabled'') else probeH3 p t)"

text \<open>The result tells whether the transport is one for HTTP/3.\<close>

definition createTransport :: "dnsOverHTTPS \<Rightarrow> transport_attempt \<Rightarrow> error + bool" where
  "createTransport p t = (case tr_getDialer t of
      Some err \<Rightarrow> Inl (ErrWrap ''bootstrapping'' err)
    | None \<Rightarrow>
        if createTransportH3 p t = None then Inr True
        else if \<not> supportsHTTP p then Inl (ErrMsg ''HTTP1/1 and HTTP2 are not supported by this upstream'')
        else if HTTPVersion2 \<in> set (dh_NextProtos p) \<and> tr_ConfigureTransports t \<noteq> None
        then Inl (the (tr_ConfigureTransports t))
        else Inr False)"

subsection \<open>Clients\<close>

text \<open>\<^verbatim>\<open>createClient\<close> with the assignment of its result to the field; nil after an error.\<close>

definition createClient :: "dnsOverHTTPS \<Rightarrow> (nat option \<times> error option) \<times> dnsOverHTTPS" where
  "createClient p =
     (let n = dh_created p; p = p\<lparr>dh_created := n + 1\<rparr> in
      (case createTransport p (dh_transport p n) of
        Inl err \<Rightarrow> ((None, Some (ErrWrap ''initializing http transport'' err)), p\<lparr>dh_client := None\<rparr>)
      | Inr _ \<Rightarrow> ((Some n, None), p\<lparr>dh_client := Some n\<rparr>)))"

definition getClient :: "dnsOverHTTPS \<Rightarrow> (nat option \<times> bool \<times> error option) \<times> dnsOverHTTPS" where
  "getClient p =
     (if dh_closed p then ((None, False, Some net_ErrClosed), p)
      else (case dh_client p of
        Some c \<Rightarrow> ((Some c, True, None), p)
      | None \<Rightarrow>
          if dh_lateLock p \<noteq> None then ((None, False, dh_lateLock p), p)
          else let ((c, err), p) = createClient p in ((c, False, err), p)))"

definition closeClient :: "nat \<Rightarrow> dnsOverHTTPS \<Rightarrow> error option \<times> dnsOverHTTPS" where
  "closeClient c p = (dh_closeErr p c, p\<lparr>dh_retired := dh_retired p @ [c]\<rparr>)"

definition doh_resetQUICConfig :: "dnsOverHTTPS \<Rightarrow> dnsOverHTTPS" where
  "doh_resetQUICConfig p = p\<lparr>dh_tokens := dh_tokens p + 1\<rparr>"

definition resetClient :: "nat \<Rightarrow> error \<Rightarrow> dnsOverHTTPS \<Rightarrow> (nat option \<times> error option) \<times> dnsOverHTTPS" where
  "resetClient failed resetErr p =
     (if dh_closed p then ((None, Some net_ErrClosed), p)
      else if dh_client p \<noteq> None \<and> dh_client p \<noteq> Some failed then ((dh_client p, None), p)
      else
        let p = (if errors_Is Err0RTTRejected resetErr then doh_resetQUICConfig p else p);
            oldClient = dh_client p;
            (r, p) = createClient p
        in (r, (case oldClient of None \<Rightarrow> p | Some c \<Rightarrow> snd (closeClient c p))))"

definition doh_Close :: "dnsOverHTTPS \<Rightarrow> error option \<times> dnsOverHTTPS" where
  "doh_Close p =
     (if dh_closed p then (None, p)
      else let client = dh_client p; p = p\<lparr>dh_closed := True, dh_client := None\<rparr> in
        (case client of None \<Rightarrow> (None, p) | Some c \<Rightarrow> closeClient c p))"

definition shouldRetry :: "dnsOverHTTPS \<Rightarrow> error option \<Rightarrow> bool" where
  "shouldRetry p eo = (case eo of
      None \<Rightarrow> False
    | Some err \<Rightarrow>
        if isExchangeTimeout (dh_env p) err then False
        else if dh_asApplication p err = Some 0 \<or> dh_asApplication p err = Some 0x100 then True
        else if dh_asReset p err then True
        else if dh_asTransport p err = Some 0 then True
        else errors_Is Err0RTTRejected err)"

subsection \<open>Requests\<close>

abbreviation (input) "maxMsgSize \<equiv> (65535 :: nat)"

text \<open>The checks of the response, up to the body that is handed to the decoder.\<close>

definition http_body :: "http_response \<Rightarrow> error + bytes" where
  "http_body r =
     (if hr_StatusCode r \<noteq> 200 then Inl (ErrMsg ''expected status 200'')
      else if (case hr_media r of None \<Rightarrow> True | Some m \<Rightarrow> \<not> EqualFold m ''application/dns-message'')
      then Inl (ErrMsg ''invalid DNS response content type'')
      else if hr_ContentLength r > int maxMsgSize then Inl (ErrMsg ''DNS response body too large'')
      else let body = take (maxMsgSize + 1) (fst (hr_Body r));
               err = (if maxMsgSize + 1 \<le> length (fst (hr_Body r)) then None else snd (hr_Body r)) in
        if err \<noteq> None then Inl (ErrWrap ''reading'' (the err))
        else if body = [] \<or> length body > maxMsgSize then Inl (ErrMsg ''invalid DNS response body length'')
        else if hr_ContentLength r \<ge> 0 \<and> int (length body) \<noteq> hr_ContentLength r
        then Inl (ErrMsg ''DNS response body length'')
        else Inr body)"

definition doh_verdict :: "conn_env \<Rightarrow> Msg \<Rightarrow> bytes \<Rightarrow> (error + Msg) go" where
  "doh_verdict E req body = (case up_Unpack E body of
      (_, Some err) \<Rightarrow> Some (Inl (ErrWrap ''unpacking response'' err))
    | (resp, None) \<Rightarrow>
        if m_Id resp \<noteq> 0 then Some (Inl (ErrMsg ''unexpected non-zero id in response''))
        else let resp = resp\<lparr>m_Id := m_Id req\<rparr> in do {
          err \<leftarrow> validateResponse req resp;
          Some (case err of Some e \<Rightarrow> Inl (ErrWrap ''validating response'' e) | None \<Rightarrow> Inr resp) })"

definition exchangeHTTPSClient ::
  "dnsOverHTTPS \<Rightarrow> nat \<Rightarrow> Msg \<Rightarrow> ExchangeState option \<Rightarrow> (Msg option \<times> error option \<times> ExchangeState option) go" where
  "exchangeHTTPSClient p k req so =
     (case dh_NewRequest p of
       Some err \<Rightarrow> Some (None, Some (ErrWrap ''creating http request'' err), so)
     | None \<Rightarrow> (case dh_Do p k of
         Inl err \<Rightarrow> Some (None, Some (ErrWrap ''requesting'' err), so)
       | Inr r \<Rightarrow> (case http_body r of
           Inl err \<Rightarrow> Some (None, Some err, so)
         | Inr body \<Rightarrow> do {
             verdict \<leftarrow> doh_verdict (dh_env p) req body;
             settle (hr_times r) body verdict so })))"

text \<open>Zeroing the identifier of the packed request panics on less than two bytes.\<close>

definition exchangeHTTPS ::
  "dnsOverHTTPS \<Rightarrow> nat \<Rightarrow> Msg \<Rightarrow> ExchangeState option \<Rightarrow> (Msg option \<times> error option \<times> ExchangeState option) go" where
  "exchangeHTTPS p k req so = (case dh_Pack p req of
      Inl err \<Rightarrow> Some (None, Some (ErrWrap ''packing message'' err), so)
    | Inr buf \<Rightarrow>
        if length buf < 2 then None
        else do {
          (resp, err, so) \<leftarrow> exchangeHTTPSClient p k req so;
          Some (case err of
              Some e \<Rightarrow> (None, Some (ErrWrap ''exchanging'' e), so)
            | None \<Rightarrow> (resp, None, so)) })"

text \<open>The retry loop, with the number of retries left.\<close>

type_synonym doh_result = "Msg option \<times> error option \<times> ExchangeState option \<times> dnsOverHTTPS"

fun doh_loop :: "nat \<Rightarrow> nat \<Rightarrow> bool \<Rightarrow> Msg \<Rightarrow> nat \<Rightarrow> doh_result \<Rightarrow> (doh_result + nat \<times> doh_result) go" where
  "doh_loop 0 k isCached req client x = Some (Inr (client, x))"
| "doh_loop (Suc n) k isCached req client (resp, err, so, p) =
     (if \<not> (isCached \<and> shouldRetry p err) then Some (Inr (client, (resp, err, so, p)))
      else do {
        e \<leftarrow> err;
        let ((c, resetErr), p) = resetClient client e p;
        (case resetErr of
          Some e \<Rightarrow> Some (Inl (None, Some (ErrWrap ''failed to reset http client'' e), so, p))
        | None \<Rightarrow> do {
            c \<leftarrow> c;
            (resp, err, so) \<leftarrow> exchangeHTTPS p k req so;
            doh_loop n (Suc k) isCached req c (resp, err, so, p) }) })"

text \<open>After the last failure the decision is published before the client is replaced.\<close>

definition doh_end :: "nat \<Rightarrow> doh_result \<Rightarrow> doh_result go" where
  "doh_end client = (\<lambda>(resp, err, so, p). (case err of
      None \<Rightarrow> Some (resp, None, so, p)
    | Some e \<Rightarrow> do {
        so \<leftarrow> xs_finish (Some e) so;
        let ((_, resErr), p) = resetClient client e p;
        Some (None, up_WithDeferred (dh_env p) (Some e) resErr, so, p) }))"

definition doh_body :: "dnsOverHTTPS exchange_body" where
  "doh_body p req so =
     (let ((client, isCached, err), p) = getClient p in
      (case err of
        Some e \<Rightarrow> Some (None, Some (ErrWrap ''failed to init http client'' e), so, p)
      | None \<Rightarrow> do {
          client \<leftarrow> client;
          (resp, err, so) \<leftarrow> exchangeHTTPS p 0 req so;
          x \<leftarrow> doh_loop 2 1 isCached req client (resp, err, so, p);
          (case x of Inl r \<Rightarrow> Some r | Inr (client, r) \<Rightarrow> doh_end client r) }))"

definition doh_Exchange :: "dnsOverHTTPS exchange_body" where
  "doh_Exchange = run_exchange doh_body"

subsection \<open>The exchange decides\<close>

text \<open>
  A packed message has its identifier, and an error stays one when another is added to it.  The client in use has
  been created and not been retired, and no client is retired twice.
\<close>

definition doh_inv :: "dnsOverHTTPS \<Rightarrow> bool" where
  "doh_inv p \<longleftrightarrow> (\<forall>req buf. dh_Pack p req = Inr buf \<longrightarrow> 2 \<le> length buf) \<and>
     (\<forall>e d. up_WithDeferred (dh_env p) (Some e) d \<noteq> None) \<and>
     (\<forall>c. dh_client p = Some c \<longrightarrow> c < dh_created p \<and> c \<notin> set (dh_retired p)) \<and>
     (\<forall>c \<in> set (dh_retired p). c < dh_created p) \<and> distinct (dh_retired p)"

lemma createClient_inv:
  assumes "doh_inv p" "createClient p = ((c, err), p')" "\<forall>x. dh_client p = Some x \<longrightarrow> old = Some x"
  shows "doh_inv p' \<and> (err = None \<longrightarrow> (\<exists>n. c = Some n)) \<and>
    (\<forall>x. old = Some x \<longrightarrow> x < dh_created p \<longrightarrow> x \<notin> set (dh_retired p) \<longrightarrow> doh_inv (snd (closeClient x p')))"
  using assms
  by (auto simp: createClient_def doh_inv_def closeClient_def Let_def less_Suc_eq split: sum.splits)

lemma getClient_inv:
  assumes "doh_inv p"
  obtains c cached err p' where "getClient p = ((c, cached, err), p')" "doh_inv p'" "err = None \<longrightarrow> (\<exists>n. c = Some n)"
proof (cases "dh_closed p \<or> dh_client p \<noteq> None \<or> dh_lateLock p \<noteq> None")
  case True
  then show ?thesis using assms that by (cases "dh_closed p"; cases "dh_client p") (auto simp: getClient_def)
next
  case False
  obtain c err p' where c: "createClient p = ((c, err), p')" by (metis prod.collapse)
  then have "getClient p = ((c, False, err), p')" using False by (simp add: getClient_def)
  moreover have "doh_inv p' \<and> (err = None \<longrightarrow> (\<exists>n. c = Some n))"
    using createClient_inv [OF assms c, of None] False by simp
  ultimately show ?thesis using that by blast
qed

lemma resetClient_inv:
  assumes "doh_inv p"
  obtains c err p' where "resetClient failed e p = ((c, err), p')" "doh_inv p'" "err = None \<longrightarrow> (\<exists>n. c = Some n)"
proof (cases "dh_closed p \<or> (dh_client p \<noteq> None \<and> dh_client p \<noteq> Some failed)")
  case True
  then show ?thesis using assms that by (cases "dh_closed p") (auto simp: resetClient_def)
next
  case False
  define p1 where "p1 = (if errors_Is Err0RTTRejected e then doh_resetQUICConfig p else p)"
  have p1: "doh_inv p1" "dh_client p1 = dh_client p" "dh_created p1 = dh_created p" "dh_retired p1 = dh_retired p"
    using assms by (simp_all add: p1_def doh_resetQUICConfig_def doh_inv_def)
  obtain c err p2 where c: "createClient p1 = ((c, err), p2)" by (metis prod.collapse)
  let ?p = "case dh_client p of None \<Rightarrow> p2 | Some x \<Rightarrow> snd (closeClient x p2)"
  have r: "resetClient failed e p = ((c, err), ?p)"
    using False c by (auto simp: resetClient_def p1_def [symmetric] p1(2) Let_def)
  have "doh_inv ?p \<and> (err = None \<longrightarrow> (\<exists>n. c = Some n))"
    using createClient_inv [OF p1(1) c, of "dh_client p"] assms p1 by (auto simp: doh_inv_def [of p] split: option.splits)
  with r that show ?thesis by blast
qed

lemma doh_verdict_total:
  assumes "m_Question req \<noteq> []"
  obtains v where "doh_verdict E req body = Some v"
    "\<forall>m. v = Inr m \<longrightarrow> m_Id m = m_Id req \<and> validateResponse req m = Some None"
proof -
  obtain m err where u: "up_Unpack E body = (m, err)" by fastforce
  let ?m = "m\<lparr>m_Id := m_Id req\<rparr>"
  obtain q where q: "validateResponse req m = Some q" using validateResponse_total [OF assms] by blast
  show ?thesis
    by (rule that [of "case err of Some e \<Rightarrow> Inl (ErrWrap ''unpacking response'' e) | None \<Rightarrow> if m_Id m \<noteq> 0 then
        Inl (ErrMsg ''unexpected non-zero id in response'') else (case q of Some e \<Rightarrow> Inl (ErrWrap ''validating response'' e) | None \<Rightarrow> Inr ?m)"])
      (auto simp: doh_verdict_def u q split: option.splits)
qed

lemma exchangeHTTPSClient_spec:
  assumes "m_Question req \<noteq> []" "xs_inv (m_Id req) c s"
  shows "\<exists>resp err s'. exchangeHTTPSClient p k req (Some s) = Some (resp, err, Some s') \<and>
    exchangeHTTPSClient p k req None = Some (resp, err, None) \<and> good_attempt req resp err \<and>
    publishes (m_Id req) c (\<lambda>r. err = None \<and> resp = Some r) s s'"
proof -
  have fail: "?thesis" if "exchangeHTTPSClient p k req = (\<lambda>so. Some (None, Some e, so))" for e
    using that publishes_refl [OF assms(2)] by (simp add: good_attempt_def)
  consider e where "dh_NewRequest p = Some e" | e where "dh_NewRequest p = None" "dh_Do p k = Inl e"
    | r e where "dh_NewRequest p = None" "dh_Do p k = Inr r" "http_body r = Inl e"
    | r body where "dh_NewRequest p = None" "dh_Do p k = Inr r" "http_body r = Inr body"
    by (metis option.exhaust sum.exhaust)
  then show ?thesis
  proof cases
    case (1 e)
    then show ?thesis by (intro fail) (simp add: exchangeHTTPSClient_def fun_eq_iff)
  next
    case (2 e)
    then show ?thesis by (intro fail) (simp add: exchangeHTTPSClient_def fun_eq_iff)
  next
    case (3 r e)
    then show ?thesis by (intro fail) (simp add: exchangeHTTPSClient_def fun_eq_iff)
  next
    case (4 r body)
    obtain v where v: "doh_verdict (dh_env p) req body = Some v"
      "\<forall>m. v = Inr m \<longrightarrow> m_Id m = m_Id req \<and> validateResponse req m = Some None"
      using doh_verdict_total [OF assms(1)] .
    obtain s' where s': "settle (hr_times r) body v (Some s) =
        Some (case v of Inl e \<Rightarrow> (None, Some e, Some s') | Inr m \<Rightarrow> (Some m, None, Some s'))"
      "settle (hr_times r) body v None = Some (case v of Inl e \<Rightarrow> (None, Some e, None) | Inr m \<Rightarrow> (Some m, None, None))"
      "publishes (m_Id req) c (\<lambda>r. \<exists>m. v = Inr m \<and> r = m\<lparr>m_Id := m_Id req\<rparr>) s s'"
      using settle_spec [OF assms(2)] by blast
    show ?thesis
    proof (cases v)
      case (Inl e)
      with 4 v s' show ?thesis by (simp add: exchangeHTTPSClient_def good_attempt_def)
    next
      case (Inr m)
      with v(2) have m: "m_Id m = m_Id req" "validateResponse req m = Some None" by simp_all
      have "publishes (m_Id req) c (\<lambda>r. m = r) s s'" using s'(3) Inr m by (auto elim: publishes_mono)
      with 4 v(1) s'(1,2) Inr m show ?thesis by (simp add: exchangeHTTPSClient_def good_attempt_def)
    qed
  qed
qed

lemma exchangeHTTPS_spec:
  assumes "doh_inv p" "m_Question req \<noteq> []" "xs_inv (m_Id req) c s"
  shows "\<exists>resp err s'. exchangeHTTPS p k req (Some s) = Some (resp, err, Some s') \<and>
    exchangeHTTPS p k req None = Some (resp, err, None) \<and> good_attempt req resp err \<and>
    publishes (m_Id req) c (\<lambda>r. err = None \<and> resp = Some r) s s'"
proof (cases "dh_Pack p req")
  case (Inl e)
  with publishes_refl [OF assms(3)] show ?thesis by (simp add: exchangeHTTPS_def good_attempt_def)
next
  case (Inr buf)
  then have "\<not> length buf < 2" using assms(1) unfolding doh_inv_def by (meson not_less)
  moreover obtain resp err s' where 1: "exchangeHTTPSClient p k req (Some s) = Some (resp, err, Some s')"
    "exchangeHTTPSClient p k req None = Some (resp, err, None)" "good_attempt req resp err"
    "publishes (m_Id req) c (\<lambda>r. err = None \<and> resp = Some r) s s'"
    using exchangeHTTPSClient_spec [OF assms(2,3)] by blast
  ultimately show ?thesis using Inr by (cases err) (simp_all add: exchangeHTTPS_def good_attempt_def)
qed

text \<open>The rest of the exchange after an attempt.\<close>

definition doh_tail :: "nat \<Rightarrow> nat \<Rightarrow> bool \<Rightarrow> Msg \<Rightarrow> nat \<Rightarrow> doh_result \<Rightarrow> doh_result go" where
  "doh_tail n k isCached req client r =
     doh_loop n k isCached req client r \<bind> (\<lambda>x. case x of Inl r \<Rightarrow> Some r | Inr (client, r) \<Rightarrow> doh_end client r)"

lemma doh_end_gives:
  assumes "doh_inv p" "good_attempt req resp err" "publishes (m_Id req) c (\<lambda>r. err = None \<and> resp = Some r) s s1"
    "f (Some s) = doh_end client (resp, err, Some s1, p)" "f None = doh_end client (resp, err, None, p)"
  shows "exchange_gives doh_inv req c s f"
proof (cases err)
  case None
  show ?thesis
    by (rule gives_reply [of f s resp s1 p]) (use assms None in \<open>simp_all add: doh_end_def\<close>)
next
  case (Some e)
  then have pub: "publishes (m_Id req) c (\<lambda>_. False) s s1" using assms(3) by simp
  obtain s2 where s2: "xs_step (OpFinish (Some e)) s1 = Some s2" "publishes (m_Id req) c (\<lambda>_. False) s1 s2"
    by (rule step_publishes [OF publishes_inv [OF pub], of "OpFinish (Some e)"]) (auto elim: publishes_mono)
  then have fin: "xs_finish (Some e) (Some s1) = Some (Some s2)" by (auto simp: bind_eq_Some_conv)
  obtain cl rerr p' where r: "resetClient client e p = ((cl, rerr), p')" "doh_inv p'"
    using resetClient_inv [OF assms(1)] .
  obtain e' where e': "up_WithDeferred (dh_env p') (Some e) rerr = Some e'" using r(2) unfolding doh_inv_def by blast
  have "publishes (m_Id req) c (\<lambda>_. False) s s2" using publishes_trans [OF pub s2(2)] by simp
  then show ?thesis
    by (intro gives_error [of f s e' s2 p'])
      (use assms(4,5) Some r e' fin in \<open>simp_all add: doh_end_def xs_finish_def [of _ None]\<close>)
qed

lemma doh_tail_gives:
  assumes "doh_inv p" "m_Question req \<noteq> []" "good_attempt req resp err"
    "publishes (m_Id req) c (\<lambda>r. err = None \<and> resp = Some r) s s1"
    "f (Some s) = doh_tail n k isCached req client (resp, err, Some s1, p)"
    "f None = doh_tail n k isCached req client (resp, err, None, p)"
  shows "exchange_gives doh_inv req c s f"
  using assms(1,3-6)
proof (induction n arbitrary: k client resp err s1 p)
  case 0
  show ?case
    by (rule doh_end_gives [OF 0(1-3), of f client]) (use 0(4,5) in \<open>simp_all add: doh_tail_def\<close>)
next
  case (Suc n)
  show ?case
  proof (cases "isCached \<and> shouldRetry p err")
    case False
    show ?thesis
      by (rule doh_end_gives [OF Suc.prems(1-3), of f client]) (use Suc.prems(4,5) False in \<open>simp_all add: doh_tail_def\<close>)
  next
    case True
    then obtain e where e: "err = Some e" by (cases err) (auto simp: shouldRetry_def)
    then have pub: "publishes (m_Id req) c (\<lambda>_. False) s s1" using Suc.prems(3) by simp
    obtain cl rerr p' where r: "resetClient client e p = ((cl, rerr), p')" "doh_inv p'" "rerr = None \<longrightarrow> (\<exists>n. cl = Some n)"
      using resetClient_inv [OF Suc.prems(1)] .
    show ?thesis
    proof (cases rerr)
      case (Some x)
      show ?thesis
        by (rule gives_error [of f s "ErrWrap ''failed to reset http client'' x" s1 p'])
          (use Suc.prems(4,5) True e r Some pub in \<open>simp_all add: doh_tail_def\<close>)
    next
      case None
      with r(3) obtain m where m: "cl = Some m" by blast
      obtain resp2 err2 s2 where 1: "exchangeHTTPS p' k req (Some s1) = Some (resp2, err2, Some s2)"
        "exchangeHTTPS p' k req None = Some (resp2, err2, None)" "good_attempt req resp2 err2"
        "publishes (m_Id req) c (\<lambda>r. err2 = None \<and> resp2 = Some r) s1 s2"
        using exchangeHTTPS_spec [OF r(2) assms(2) publishes_inv [OF pub]] by blast
      have "publishes (m_Id req) c (\<lambda>r. err2 = None \<and> resp2 = Some r) s s2" using publishes_trans [OF pub 1(4)] by simp
      then show ?thesis
        by (rule Suc.IH [OF r(2) 1(3)]) (use Suc.prems(4,5) True e r None m 1(1,2) in \<open>simp_all add: doh_tail_def\<close>)
    qed
  qed
qed

lemma doh_body_gives:
  assumes "doh_inv p" "m_Question req \<noteq> []" "xs_inv (m_Id req) c s"
  shows "exchange_gives doh_inv req c s (doh_body p req)"
proof -
  obtain cl cached err p1 where 1: "getClient p = ((cl, cached, err), p1)" "doh_inv p1" "err = None \<longrightarrow> (\<exists>n. cl = Some n)"
    using getClient_inv [OF assms(1)] .
  show ?thesis
  proof (cases err)
    case (Some e)
    show ?thesis
      by (rule gives_error [of _ s "ErrWrap ''failed to init http client'' e" s p1])
        (use 1 Some publishes_refl [OF assms(3)] in \<open>simp_all add: doh_body_def\<close>)
  next
    case None
    with 1(3) obtain m where m: "cl = Some m" by blast
    obtain resp err1 s1 where 2: "exchangeHTTPS p1 0 req (Some s) = Some (resp, err1, Some s1)"
      "exchangeHTTPS p1 0 req None = Some (resp, err1, None)" "good_attempt req resp err1"
      "publishes (m_Id req) c (\<lambda>r. err1 = None \<and> resp = Some r) s s1"
      using exchangeHTTPS_spec [OF 1(2) assms(2,3)] by blast
    show ?thesis
      by (rule doh_tail_gives [OF 1(2) assms(2) 2(3,4), of _ 2 1 cached m])
        (use 1(1) None m 2(1,2) in \<open>simp_all add: doh_body_def doh_tail_def\<close>)
  qed
qed

interpretation doh: validating_upstream doh_body doh_inv
  by unfold_locales (use doh_body_gives in \<open>unfold exchange_gives_def validated_def, blast\<close>)

text \<open>A closed upstream refuses every exchange and creates no client.\<close>

lemma doh_closed_refuses:
  assumes "dh_closed p" "doh_Exchange p req None = Some (resp, err, so, p')"
  shows "resp = None \<and> err = Some (ErrWrap ''failed to init http client'' net_ErrClosed) \<and> p' = p"
  using assms by (auto simp: doh_Exchange_def run_exchange_def xs_start_def xs_finish_def doh_body_def getClient_def)


text \<open>An upstream with HTTP/3 whose client is stale: the first request fails with 0-RTT rejected, the second succeeds.\<close>

definition sample_doh :: dnsOverHTTPS where
  "sample_doh = \<lparr> dh_env = sample_conn_env\<lparr>up_Unpack := (\<lambda>_. (sample_resp\<lparr>m_Id := 0\<rparr>, None))\<rparr>, dh_Pack = (\<lambda>_. Inr (replicate 12 0)),
     dh_NextProtos = [HTTPVersion3], dh_networkDialer = False,
     dh_transport = (\<lambda>_. \<lparr> tr_getDialer = None, tr_dialUDP = Inr True, tr_probe = ProbeQUIC None, tr_ConfigureTransports = None \<rparr>),
     dh_NewRequest = None,
     dh_Do = (\<lambda>k. if k = 0 then Inl Err0RTTRejected else Inr \<lparr> hr_StatusCode = 200, hr_media = Some ''application/dns-message'',
       hr_ContentLength = 12, hr_Body = ([0, 0, 0x80, 0, 0, 1, 0, 1, 0, 0, 0, 0], None),
       hr_times = \<lparr> rt_before = [], rt_now = 3, rt_during = [GroupExpire], rt_end = 4 \<rparr> \<rparr>),
     dh_lateLock = None, dh_asApplication = (\<lambda>_. None), dh_asReset = (\<lambda>_. False), dh_asTransport = (\<lambda>_. None),
     dh_closeErr = (\<lambda>_. None), dh_client = Some 0, dh_created = 1, dh_retired = [], dh_tokens = 0, dh_closed = False \<rparr>"

lemma sample_doh_inv: "doh_inv sample_doh"
  by (auto simp: doh_inv_def sample_doh_def sample_conn_env_def split: option.splits)

lemma doh_loop_2: "doh_loop 2 = doh_loop (Suc (Suc 0))"
  by (simp add: numeral_2_eq_2)


end
