(* ===== verification/Dnscrypt_Codec.thy ===== *)
theory Dnscrypt_Codec
  imports Dns_Msg Go_Strings
begin

text \<open>
  The encodings of the DNSCrypt protocol: TXT strings (\<^verbatim>\<open>dnscrypt/string.go\<close>), the padding of
  packets (\<^verbatim>\<open>dnscrypt/encryption.go\<close>), certificates (\<^verbatim>\<open>dnscrypt/certificate.go\<close>), the choice of a
  certificate by the client (\<^verbatim>\<open>dnscrypt/client.go\<close>) and the framing over TCP
  (\<^verbatim>\<open>dnscrypt/dns.go\<close>).  Arrays of fixed length are byte lists; their lengths are part of
  the well-formedness of a certificate.
\<close>

subsection \<open>TXT strings\<close>

definition digit :: "nat \<Rightarrow> byte" where
  "digit n = word_of_nat (48 + n mod 10)"

definition backslash :: byte where "backslash = 92"

text \<open>The tables of the escapes hold a backslash and three digits for each byte.\<close>

definition ddd :: "nat \<Rightarrow> bytes" where
  "ddd n = [backslash, digit (n div 100), digit (n div 10), digit n]"

definition escapedByteSmall :: bytes where
  "escapedByteSmall = concat (map ddd [0..<32])"

definition escapedByteLarge :: bytes where
  "escapedByteLarge = concat (map ddd [127..<256])"

definition escapeByte :: "byte \<Rightarrow> bytes" where
  "escapeByte b =
     (if b < 32 then take (unat (b * 4 + 4) - unat (b * 4)) (drop (unat (b * 4)) escapedByteSmall)
      else let b = b - 127 in take 4 (drop (unat b * 4) escapedByteLarge))"

fun pack_bytes :: "bytes \<Rightarrow> bytes" where
  "pack_bytes [] = []"
| "pack_bytes (b # buf) =
     (if b = 34 \<or> b = backslash then [backslash, b]
      else if b < 32 \<or> b > 126 then escapeByte b
      else [b]) @ pack_bytes buf"

definition packTxtString :: "bytes \<Rightarrow> string" where
  "packTxtString buf = string_of (pack_bytes buf)"

definition isDigitSequence :: "bytes \<Rightarrow> bool" where
  "isDigitSequence s = list_all (\<lambda>c. \<not> (c < 48 \<or> c > 57)) s"

definition dddToByte :: "bytes \<Rightarrow> byte" where
  "dddToByte s = (s ! 0 - 48) * 100 + (s ! 1 - 48) * 10 + (s ! 2 - 48)"

definition unescape :: "byte \<Rightarrow> byte" where
  "unescape b = (if b = 116 then 9 else if b = 114 then 13 else if b = 110 then 10 else b)"

fun unpack_bytes :: "bytes \<Rightarrow> bytes" where
  "unpack_bytes [] = []"
| "unpack_bytes (c # bs) =
     (if c \<noteq> backslash then c # unpack_bytes bs
      else case bs of
          [] \<Rightarrow> []
        | e # rest \<Rightarrow>
            if 3 \<le> length bs \<and> isDigitSequence (take 3 bs) then dddToByte bs # unpack_bytes (drop 3 bs)
            else unescape e # unpack_bytes rest)"

definition unpackTxtString :: "string \<Rightarrow> bytes" where
  "unpackTxtString s = unpack_bytes (bytes_of s)"

subsection \<open>Padding\<close>

definition ErrInvalidPadding :: error where "ErrInvalidPadding = ErrMsg ''invalid padding''"

definition minUDPQuestionSize :: nat where "minUDPQuestionSize = 256"

definition minDNSPacketSize :: nat where "minDNSPacketSize = 12 + 5"

definition pad :: "bytes \<Rightarrow> bytes" where
  "pad packet =
     (let minQuestionSize = length packet + 1 + (64 - (length packet + 1) mod 64);
          minQuestionSize = (if minUDPQuestionSize > minQuestionSize then minUDPQuestionSize else minQuestionSize)
      in packet @ [0x80] @ replicate (minQuestionSize - (length packet + 1)) 0)"

fun unpad_loop :: "bytes \<Rightarrow> nat \<Rightarrow> error + bytes" where
  "unpad_loop packet 0 = Inl ErrInvalidPadding"
| "unpad_loop packet (Suc i) =
     (if packet ! i = 0x80 then
        if i < minDNSPacketSize then Inl ErrInvalidPadding else Inr (take i packet)
      else if packet ! i \<noteq> 0 then Inl ErrInvalidPadding
      else unpad_loop packet i)"

definition unpad :: "bytes \<Rightarrow> error + bytes" where
  "unpad packet = unpad_loop packet (length packet)"

subsection \<open>Certificates\<close>

definition certByteLength :: nat where "certByteLength = 124"

definition certMagic :: bytes where "certMagic = [0x44, 0x4e, 0x53, 0x43]"

definition UndefinedConstruction :: uint16 where "UndefinedConstruction = 0"

definition XSalsa20Poly1305 :: uint16 where "XSalsa20Poly1305 = 1"

definition XChacha20Poly1305 :: uint16 where "XChacha20Poly1305 = 2"

definition ErrCertTooShort :: error where "ErrCertTooShort = ErrMsg ''cert is too short''"

definition ErrCertMagic :: error where "ErrCertMagic = ErrMsg ''invalid cert magic''"

definition ErrESVersion :: error where "ErrESVersion = ErrMsg ''unsupported es-version''"

definition ErrInvalidDate :: error where "ErrInvalidDate = ErrMsg ''cert has invalid ts-start or ts-end''"

definition ErrInvalidCertSignature :: error where
  "ErrInvalidCertSignature = ErrMsg ''cert has invalid signature''"

record Certificate =
  Serial :: uint32
  ESVersion :: uint16
  Signature :: bytes
  ResolverPk :: bytes
  ResolverSk :: bytes
  ClientMagic :: bytes
  NotBefore :: uint32
  NotAfter :: uint32

text \<open>The zero value, which the client fills.\<close>

definition zero_Certificate :: Certificate where
  "zero_Certificate = \<lparr> Serial = 0, ESVersion = 0, Signature = replicate 64 0, ResolverPk = replicate 32 0,
     ResolverSk = replicate 32 0, ClientMagic = replicate 8 0, NotBefore = 0, NotAfter = 0 \<rparr>"

definition writeSigned :: "Certificate \<Rightarrow> bytes" where
  "writeSigned c = ResolverPk c @ ClientMagic c @ put_uint32 (Serial c) @ put_uint32 (NotBefore c) @ put_uint32 (NotAfter c)"

definition MarshalBinary :: "Certificate \<Rightarrow> bytes" where
  "MarshalBinary c = certMagic @ put_uint16 (ESVersion c) @ [0, 0] @ Signature c @ writeSigned c"

definition UnmarshalBinary :: "bytes \<Rightarrow> Certificate \<Rightarrow> (error + Certificate) go" where
  "UnmarshalBinary b c =
     (if length b < certByteLength then Some (Inl ErrCertTooShort)
      else if take 4 b \<noteq> certMagic then Some (Inl ErrCertMagic)
      else do {
        esVersion \<leftarrow> get_uint16 (drop 4 b);
        if esVersion \<noteq> XSalsa20Poly1305 \<and> esVersion \<noteq> XChacha20Poly1305 then Some (Inl ErrESVersion)
        else do {
          serial \<leftarrow> get_uint32 (drop 112 b);
          notBefore \<leftarrow> get_uint32 (drop 116 b);
          notAfter \<leftarrow> get_uint32 (drop 120 b);
          Some (Inr (c\<lparr>ESVersion := esVersion, Signature := take 64 (drop 8 b), ResolverPk := take 32 (drop 72 b),
            ClientMagic := take 8 (drop 104 b), Serial := serial, NotBefore := notBefore, NotAfter := notAfter\<rparr>)) } })"

definition verifyDate :: "Certificate \<Rightarrow> int \<Rightarrow> bool" where
  "verifyDate c now =
     (if NotBefore c \<ge> NotAfter c then False
      else \<not> (now > int (unat (NotAfter c)) \<or> now < int (unat (NotBefore c))))"

definition cert_Validate :: "Certificate \<Rightarrow> int \<Rightarrow> error option" where
  "cert_Validate c now =
     (if ESVersion c = UndefinedConstruction then Some ErrESVersion
      else if \<not> verifyDate c now then Some ErrInvalidDate
      else None)"

text \<open>Signing and verifying with Ed25519 are arguments.\<close>

definition VerifySignature :: "(bytes \<Rightarrow> bytes \<Rightarrow> bytes \<Rightarrow> bool) \<Rightarrow> Certificate \<Rightarrow> bytes \<Rightarrow> bool" where
  "VerifySignature ed_Verify c publicKey = ed_Verify publicKey (writeSigned c) (Signature c)"

definition cert_Sign :: "(bytes \<Rightarrow> bytes \<Rightarrow> bytes) \<Rightarrow> Certificate \<Rightarrow> bytes \<Rightarrow> Certificate" where
  "cert_Sign ed_Sign c privateKey = c\<lparr>Signature := take 64 (ed_Sign privateKey (writeSigned c))\<rparr>"

subsection \<open>The choice of a certificate\<close>

definition verifyCert :: "(bytes \<Rightarrow> bytes \<Rightarrow> bytes \<Rightarrow> bool) \<Rightarrow> int \<Rightarrow> Certificate \<Rightarrow> bytes \<Rightarrow> error option" where
  "verifyCert ed_Verify now cert serverPk =
     (if \<not> verifyDate cert now then Some ErrInvalidDate
      else if \<not> VerifySignature ed_Verify cert serverPk then Some ErrInvalidCertSignature
      else None)"

definition certHasHigherPriority :: "Certificate \<Rightarrow> Certificate \<Rightarrow> bool" where
  "certHasHigherPriority prev current =
     (if Serial prev > Serial current then False
      else if Serial prev < Serial current then True
      else \<not> ESVersion current \<le> ESVersion prev)"

text \<open>
  The answer section is the list of its records: the strings of a TXT record, or nothing for another
  record.
\<close>

fun parseAnswer ::
  "(bytes \<Rightarrow> bytes \<Rightarrow> bytes \<Rightarrow> bool) \<Rightarrow> int \<Rightarrow> bytes \<Rightarrow> string list option list \<Rightarrow> Certificate option \<Rightarrow> Certificate option go" where
  "parseAnswer ed_Verify now serverPk [] cert = Some cert"
| "parseAnswer ed_Verify now serverPk (None # answer) cert = parseAnswer ed_Verify now serverPk answer cert"
| "parseAnswer ed_Verify now serverPk (Some txt # answer) cert = do {
     r \<leftarrow> UnmarshalBinary (unpackTxtString (concat txt)) zero_Certificate;
     parseAnswer ed_Verify now serverPk answer
       (case r of
          Inl _ \<Rightarrow> cert
        | Inr current \<Rightarrow>
            if verifyCert ed_Verify now current serverPk \<noteq> None then cert
            else (case cert of
                None \<Rightarrow> Some current
              | Some prev \<Rightarrow> if certHasHigherPriority prev current then Some current else cert)) }"

definition getCertTXT :: "Certificate \<Rightarrow> string" where
  "getCertTXT c = packTxtString (MarshalBinary c)"

subsection \<open>Frames over TCP\<close>

text \<open>A stream is the bytes that can still be read.\<close>

definition ReadFull :: "nat \<Rightarrow> bytes \<Rightarrow> (error + bytes) \<times> bytes" where
  "ReadFull n stream =
     (if length stream < n then (Inl (ErrMsg (if stream = [] then ''EOF'' else ''unexpected EOF'')), [])
      else (Inr (take n stream), drop n stream))"

definition readPrefixed :: "bytes \<Rightarrow> ((error + bytes) \<times> bytes) go" where
  "readPrefixed conn =
     (case ReadFull 2 conn of
        (Inl err, conn) \<Rightarrow> Some (Inl (ErrWrap ''reading msg len'' err), conn)
      | (Inr l, conn) \<Rightarrow> do {
          packetLen \<leftarrow> get_uint16 l;
          Some (case ReadFull (unat packetLen) conn of
              (Inl err, conn) \<Rightarrow> (Inl (ErrWrap ''reading full message'' err), conn)
            | (Inr buf, conn) \<Rightarrow> (Inr buf, conn)) })"

definition ErrQueryTooLarge :: error where "ErrQueryTooLarge = ErrMsg ''dnscrypt query is too large''"

definition writePrefixed :: "bytes \<Rightarrow> bytes \<Rightarrow> error option \<times> bytes" where
  "writePrefixed b conn = (case LengthPrefix (int (length b)) of
      None \<Rightarrow> (Some ErrQueryTooLarge, conn)
    | Some len \<Rightarrow> (None, conn @ len @ b))"

subsection \<open>TXT strings round trip\<close>

lemma bytes_of_string_of [simp]: "bytes_of (string_of b) = b"
proof -
  have "unat x < 256" for x :: byte using unsigned_less [of x] by simp
  then show ?thesis by (simp add: string_of_def bytes_of_def o_def map_idI)
qed

lemma block_of_concat:
  "(\<And>i. length (f i) = k) \<Longrightarrow> a \<le> i \<Longrightarrow> i < n \<Longrightarrow> take k (drop ((i - a) * k) (concat (map f [a..<n]))) = f i"
proof (induction n)
  case (Suc n)
  have len: "length (concat (map f [a..<n])) = (n - a) * k"
    using Suc.prems(1) by (simp add: length_concat comp_def sum_list_triv)
  have split: "concat (map f [a..<Suc n]) = concat (map f [a..<n]) @ f n" using Suc.prems(2,3) by simp
  show ?case
  proof (cases "i = n")
    case True
    with split len Suc.prems(1) show ?thesis by simp
  next
    case False
    then have "i < n" using Suc.prems(3) by simp
    then have "(i - a) * k + k \<le> (n - a) * k"
      using Suc.prems(2) by (metis add.commute diff_less_mono mult_Suc mult_le_mono1 Suc_leI)
    with len have "take k (drop ((i - a) * k) (concat (map f [a..<n]) @ f n)) = take k (drop ((i - a) * k) (concat (map f [a..<n])))"
      by simp
    with Suc.IH [OF Suc.prems(1,2) \<open>i < n\<close>] split show ?thesis by simp
  qed
qed simp

lemma unat_byte_less: "unat (b :: byte) < 256"
  using unsigned_less [of b] by simp

lemma escapeByte_ddd:
  assumes "b < 32 \<or> b > 126"
  shows "escapeByte b = ddd (unat b)"
proof (cases "b < 32")
  case True
  then have b: "unat b < 32" by (simp add: word_less_nat_alt)
  have "unat (b * 4) = unat b * 4" using b by (simp add: unat_word_ariths)
  moreover have "unat (b * 4 + 4) = unat b * 4 + 4" using b by (simp add: unat_word_ariths)
  ultimately show ?thesis
    using True b block_of_concat [of ddd 4 0 "unat b" 32] by (simp add: escapeByte_def escapedByteSmall_def ddd_def)
next
  case False
  with assms have b: "127 \<le> unat b" by (simp add: word_less_nat_alt)
  then have "unat (b - 127) = unat b - 127" by (simp add: unat_sub word_le_nat_alt)
  then show ?thesis
    using False b unat_byte_less [of b] block_of_concat [of ddd 4 127 "unat b" 256]
    by (simp add: escapeByte_def escapedByteLarge_def ddd_def Let_def)
qed

lemma digit_range: "\<not> (digit n < 48 \<or> digit n > 57)"
proof -
  have "48 + n mod 10 < 256" using mod_less_divisor [of 10 n] by linarith
  then have "unat (digit n) = 48 + n mod 10"
    unfolding digit_def by (simp add: unsigned_of_nat take_bit_nat_eq_self del: of_nat_add)
  then show ?thesis by (simp add: word_less_nat_alt)
qed

lemma dddToByte_digits: "dddToByte (digit (n div 100) # digit (n div 10) # digit n # r) = word_of_nat (n mod 1000)"
proof -
  have sub: "digit m - 48 = word_of_nat (m mod 10)" for m by (simp add: digit_def)
  have "n mod 1000 = 10 * (n div 10 mod 100) + n mod 10" using mod_mult2_eq [of n 10 100] by simp
  moreover have "n div 10 mod 100 = 10 * (n div 100 mod 10) + n div 10 mod 10"
    using mod_mult2_eq [of "n div 10" 10 10] by (simp add: div_mult2_eq [symmetric])
  ultimately have n: "n mod 1000 = (n div 100 mod 10) * 100 + (n div 10 mod 10) * 10 + n mod 10" by simp
  have "dddToByte (digit (n div 100) # digit (n div 10) # digit n # r) =
      word_of_nat (n div 100 mod 10) * 100 + word_of_nat (n div 10 mod 10) * 10 + word_of_nat (n mod 10)"
    by (simp add: dddToByte_def sub)
  also have "\<dots> = word_of_nat (n mod 1000)" unfolding n of_nat_add of_nat_mult by simp
  finally show ?thesis .
qed

lemma unpack_ddd: "n < 256 \<Longrightarrow> unpack_bytes (ddd n @ r) = word_of_nat n # unpack_bytes r"
  using digit_range dddToByte_digits [of n r] by (simp add: ddd_def isDigitSequence_def)

lemma unpack_pack_bytes: "unpack_bytes (pack_bytes buf) = buf"
proof (induction buf)
  case (Cons b buf)
  consider (quote) "b = 34 \<or> b = backslash" | (escape) "b \<noteq> 34" "b \<noteq> backslash" "b < 32 \<or> b > 126"
    | (plain) "b \<noteq> backslash" "b \<noteq> 34" "\<not> (b < 32 \<or> b > 126)" by blast
  then show ?case
  proof cases
    case quote
    then have "\<not> isDigitSequence (take 3 (b # pack_bytes buf))" "unescape b = b"
      by (auto simp: isDigitSequence_def backslash_def unescape_def)
    with quote Cons show ?thesis by simp
  next
    case escape
    with Cons unpack_ddd [OF unat_byte_less, of b] escapeByte_ddd [of b] show ?thesis by simp
  next
    case plain
    with Cons show ?thesis by simp
  qed
qed simp

lemma unpackTxtString_pack [simp]: "unpackTxtString (packTxtString buf) = buf"
  by (simp add: unpackTxtString_def packTxtString_def unpack_pack_bytes)

subsection \<open>Padding round trip\<close>

lemma unpad_zeros:
  assumes "17 \<le> length packet" "k \<le> n"
  shows "unpad_loop (packet @ 0x80 # replicate n 0) (Suc (length packet) + k) = Inr packet"
  using assms(2)
proof (induction k)
  case 0
  then show ?case using assms(1) by (simp add: minDNSPacketSize_def)
next
  case (Suc k)
  have "(packet @ 0x80 # replicate n 0) ! (Suc (length packet) + k) = (0 :: byte)"
    using Suc.prems by (simp add: nth_append)
  with Suc show ?case by simp
qed

lemma length_pad: "length (pad packet) = max 256 (length packet + 1 + (64 - (length packet + 1) mod 64))"
  using mod_less_divisor [of 64 "length packet + 1"] by (simp add: pad_def minUDPQuestionSize_def Let_def)

text \<open>
  C38: padding.  Unpadding a padded packet of at least the minimum size gives the packet back; the
  padded size is a multiple of 64, at least 256, and adds 1 to 256 bytes.
\<close>

theorem unpad_pad:
  assumes "minDNSPacketSize \<le> length packet"
  shows "unpad (pad packet) = Inr packet \<and> 64 dvd length (pad packet) \<and> 256 \<le> length (pad packet) \<and>
    length packet + 1 \<le> length (pad packet) \<and> length (pad packet) \<le> length packet + 256"
proof -
  let ?n = "(if minUDPQuestionSize > length packet + 1 + (64 - (length packet + 1) mod 64) then minUDPQuestionSize
      else length packet + 1 + (64 - (length packet + 1) mod 64)) - (length packet + 1)"
  have p: "pad packet = packet @ 0x80 # replicate ?n 0" by (simp add: pad_def Let_def)
  have "unpad (pad packet) = Inr packet"
    using unpad_zeros [of packet ?n ?n] assms unfolding p unpad_def by (simp add: minDNSPacketSize_def)
  moreover have r: "(length packet + 1) mod 64 < 64" by simp
  have "m + (64 - m mod 64) = (m div 64 + 1) * 64" for m :: nat
  proof -
    obtain d r where "m = d * 64 + r" "r < 64" using div_mult_mod_eq [of m 64] mod_less_divisor [of 64 m] by (metis zero_less_numeral)
    then show ?thesis by simp
  qed
  then have "64 dvd length packet + 1 + (64 - (length packet + 1) mod 64)" by (metis dvd_triv_right)
  then have "64 dvd length (pad packet)" unfolding length_pad by (simp add: max_def)
  moreover have "256 \<le> length (pad packet)" "length packet + 1 \<le> length (pad packet)" "length (pad packet) \<le> length packet + 256"
    unfolding length_pad using r by auto
  ultimately show ?thesis by simp
qed

theorem unpad_pad_witness: "unpad (pad (replicate 20 7)) = Inr (replicate 20 7)"
  using unpad_pad [of "replicate 20 7"] by (simp add: minDNSPacketSize_def)

subsection \<open>Certificates\<close>

definition cert_wf :: "Certificate \<Rightarrow> bool" where
  "cert_wf c \<longleftrightarrow> length (Signature c) = 64 \<and> length (ResolverPk c) = 32 \<and> length (ClientMagic c) = 8 \<and>
     (ESVersion c = XSalsa20Poly1305 \<or> ESVersion c = XChacha20Poly1305)"

lemma length_MarshalBinary: "cert_wf c \<Longrightarrow> length (MarshalBinary c) = certByteLength"
  by (simp add: cert_wf_def MarshalBinary_def writeSigned_def certMagic_def certByteLength_def)

lemma Unmarshal_Marshal:
  assumes "cert_wf c"
  shows "UnmarshalBinary (MarshalBinary c) z = Some (Inr (c\<lparr>ResolverSk := ResolverSk z\<rparr>))"
proof -
  note len = assms [unfolded cert_wf_def] 
  let ?b = "MarshalBinary c"
  have "drop 4 ?b = put_uint16 (ESVersion c) @ [0, 0] @ Signature c @ writeSigned c"
    by (simp add: MarshalBinary_def certMagic_def)
  moreover have "take 64 (drop 8 ?b) = Signature c" "take 32 (drop 72 ?b) = ResolverPk c"
    "take 8 (drop 104 ?b) = ClientMagic c"
    "drop 112 ?b = put_uint32 (Serial c) @ put_uint32 (NotBefore c) @ put_uint32 (NotAfter c)"
    "drop 116 ?b = put_uint32 (NotBefore c) @ put_uint32 (NotAfter c)" "drop 120 ?b = put_uint32 (NotAfter c) @ []"
    using len by (simp_all add: MarshalBinary_def certMagic_def writeSigned_def)
  moreover have "take 4 ?b = certMagic" by (simp add: MarshalBinary_def certMagic_def)
  ultimately show ?thesis
    unfolding UnmarshalBinary_def using length_MarshalBinary [OF assms] len get_put_uint32 [of "NotAfter c" "[]"]
    by auto
qed

text \<open>The certificates of an answer that decode and verify, in order.\<close>

definition decoded_cert :: "string list option \<Rightarrow> Certificate option" where
  "decoded_cert txt = (case txt of None \<Rightarrow> None
     | Some t \<Rightarrow> (case UnmarshalBinary (unpackTxtString (concat t)) zero_Certificate of
          Some (Inr c) \<Rightarrow> Some c | _ \<Rightarrow> None))"

definition valid_certs :: "(bytes \<Rightarrow> bytes \<Rightarrow> bytes \<Rightarrow> bool) \<Rightarrow> int \<Rightarrow> bytes \<Rightarrow> string list option list \<Rightarrow> Certificate list" where
  "valid_certs ed_Verify now serverPk answer =
     filter (\<lambda>c. verifyCert ed_Verify now c serverPk = None) (List.map_filter decoded_cert answer)"

lemma UnmarshalBinary_total: "\<exists>r. UnmarshalBinary b z = Some r"
proof (cases "length b < certByteLength")
  case False
  then have "\<exists>v. get_uint16 (drop 4 b) = Some v" "\<exists>v. get_uint32 (drop 112 b) = Some v"
    "\<exists>v. get_uint32 (drop 116 b) = Some v" "\<exists>v. get_uint32 (drop 120 b) = Some v"
    using get_uint16_None_iff [of "drop 4 b"] get_uint32_None_iff [of "drop 112 b"] get_uint32_None_iff [of "drop 116 b"]
      get_uint32_None_iff [of "drop 120 b"] by (auto simp: certByteLength_def)
  then show ?thesis by (auto simp: UnmarshalBinary_def)
qed (simp add: UnmarshalBinary_def)

definition pick_cert :: "Certificate option \<Rightarrow> Certificate \<Rightarrow> Certificate option" where
  "pick_cert best c = (case best of None \<Rightarrow> Some c | Some prev \<Rightarrow> if certHasHigherPriority prev c then Some c else best)"

lemma parseAnswer_fold:
  "parseAnswer ed_Verify now serverPk answer cert = Some (foldl pick_cert cert (valid_certs ed_Verify now serverPk answer))"
proof (induction answer arbitrary: cert)
  case (Cons a answer)
  show ?case
  proof (cases a)
    case None
    with Cons show ?thesis by (simp add: valid_certs_def decoded_cert_def map_filter_simps)
  next
    case (Some ts)
    obtain r where r: "UnmarshalBinary (unpackTxtString (concat ts)) zero_Certificate = Some r"
      using UnmarshalBinary_total by blast
    show ?thesis
    proof (cases r)
      case (Inl e)
      with r Some Cons show ?thesis by (simp add: valid_certs_def decoded_cert_def map_filter_simps)
    next
      case (Inr c)
      with r Some Cons show ?thesis
        by (cases "verifyCert ed_Verify now c serverPk")
          (auto simp: valid_certs_def decoded_cert_def map_filter_simps pick_cert_def split: option.splits)
    qed
  qed
qed (simp add: valid_certs_def map_filter_simps)

text \<open>The order of priority: the serial number first, then the construction.\<close>

definition cert_rank :: "Certificate \<Rightarrow> nat" where
  "cert_rank c = unat (Serial c) * 2 ^ 16 + unat (ESVersion c)"

lemma lex_less_iff:
  fixes a b x y k :: nat
  assumes "x < k" "y < k"
  shows "a * k + x < b * k + y \<longleftrightarrow> a < b \<or> a = b \<and> x < y"
proof -
  have less: "a * k + x < b * k + y" if "a < b" "x < k" for a b x y :: nat
  proof -
    from that(1) have "Suc a * k \<le> b * k" by (intro mult_le_mono1) simp
    with that(2) show ?thesis by simp
  qed
  show ?thesis
    using less [of a b x y] less [of b a y x] assms by (cases a b rule: linorder_cases) auto
qed

lemma higher_priority_rank: "certHasHigherPriority prev c \<longleftrightarrow> cert_rank prev < cert_rank c"
proof -
  have b: "unat (ESVersion c) < 2 ^ 16" for c using unsigned_less [of "ESVersion c"] by simp
  from lex_less_iff [OF b b] have "cert_rank prev < cert_rank c \<longleftrightarrow> unat (Serial prev) < unat (Serial c) \<or>
      unat (Serial prev) = unat (Serial c) \<and> unat (ESVersion prev) < unat (ESVersion c)" by (simp add: cert_rank_def)
  then show ?thesis
    by (cases "unat (Serial prev)" "unat (Serial c)" rule: linorder_cases)
      (simp_all add: certHasHigherPriority_def word_less_nat_alt word_le_nat_alt not_le)
qed

lemma pick_cert_Some: "pick_cert (Some prev) c = Some (if cert_rank prev < cert_rank c then c else prev)"
  by (simp add: pick_cert_def higher_priority_rank)

lemma pick_fold:
  "foldl pick_cert (Some c) cs = Some c' \<Longrightarrow> \<exists>pre post. c # cs = pre @ c' # post \<and>
     (\<forall>x \<in> set pre. cert_rank x < cert_rank c') \<and> (\<forall>x \<in> set post. cert_rank x \<le> cert_rank c')"
proof (induction cs arbitrary: c)
  case (Cons a cs)
  show ?case
  proof (cases "cert_rank c < cert_rank a")
    case True
    then have "foldl pick_cert (Some a) cs = Some c'" using Cons.prems by (simp add: pick_cert_Some)
    from Cons.IH [OF this] obtain pre post where
      *: "a # cs = pre @ c' # post" "\<forall>x \<in> set pre. cert_rank x < cert_rank c'" "\<forall>x \<in> set post. cert_rank x \<le> cert_rank c'"
      by blast
    have "cert_rank a \<le> cert_rank c'" using * by (cases pre) auto
    with True * show ?thesis by (intro exI [of _ "c # pre"] exI [of _ post]) auto
  next
    case False
    then have "foldl pick_cert (Some c) cs = Some c'" using Cons.prems by (simp add: pick_cert_Some)
    from Cons.IH [OF this] obtain pre post where
      *: "c # cs = pre @ c' # post" "\<forall>x \<in> set pre. cert_rank x < cert_rank c'" "\<forall>x \<in> set post. cert_rank x \<le> cert_rank c'"
      by blast
    show ?thesis
    proof (cases pre)
      case Nil
      with False * show ?thesis by (intro exI [of _ "[]"] exI [of _ "a # cs"]) auto
    next
      case (Cons p pre')
      with * have "cert_rank c < cert_rank c'" by simp
      with False Cons * show ?thesis by (intro exI [of _ "c # a # pre'"] exI [of _ post]) auto
    qed
  qed
next
  case Nil
  then show ?case by (intro exI [of _ "[]"]) simp
qed

lemma foldl_pick_None: "foldl pick_cert (Some c) cs \<noteq> None"
  by (induction cs arbitrary: c) (simp_all add: pick_cert_Some)

text \<open>
  The choice of a certificate.  From any answer, however malformed, the client takes, without a
  panic, a certificate that decodes, is signed by the provider and is valid now, when there is one;
  it is the first among those with the highest serial number and then the highest construction.
\<close>

theorem parseAnswer_best:
  assumes "certs = valid_certs ed_Verify now serverPk answer"
  shows "\<exists>best. parseAnswer ed_Verify now serverPk answer None = Some best \<and> (best = None \<longleftrightarrow> certs = []) \<and>
    (\<forall>c. best = Some c \<longrightarrow> verifyDate c now \<and> VerifySignature ed_Verify c serverPk \<and>
       (\<exists>pre post. certs = pre @ c # post \<and>
          (\<forall>x \<in> set pre. certHasHigherPriority x c) \<and> (\<forall>x \<in> set post. \<not> certHasHigherPriority c x)))"
proof (cases certs)
  case Nil
  with assms show ?thesis by (simp add: parseAnswer_fold)
next
  case (Cons c0 cs)
  obtain best where b: "foldl pick_cert (Some c0) cs = Some best" using foldl_pick_None by blast
  have "parseAnswer ed_Verify now serverPk answer None = Some (foldl pick_cert None (c0 # cs))"
    using assms Cons by (simp add: parseAnswer_fold)
  also have "\<dots> = Some (Some best)" using b by (simp add: pick_cert_def [of None])
  finally have "parseAnswer ed_Verify now serverPk answer None = Some (Some best)" .
  moreover from pick_fold [OF b] Cons obtain pre post where
    p: "certs = pre @ best # post" "\<forall>x \<in> set pre. cert_rank x < cert_rank best" "\<forall>x \<in> set post. cert_rank x \<le> cert_rank best"
    by auto
  moreover have "verifyCert ed_Verify now best serverPk = None"
  proof -
    have "best \<in> set (valid_certs ed_Verify now serverPk answer)" using p(1) assms by (metis in_set_conv_decomp)
    then show ?thesis by (simp add: valid_certs_def)
  qed
  then have "verifyDate best now" "VerifySignature ed_Verify best serverPk" by (auto simp: verifyCert_def split: if_splits)
  moreover have "\<forall>x \<in> set post. \<not> cert_rank best < cert_rank x" using p(3) by (simp add: not_less)
  ultimately show ?thesis unfolding higher_priority_rank using Cons by blast
qed

definition sample_cert :: Certificate where
  "sample_cert = zero_Certificate\<lparr>ESVersion := 1, Serial := 3, NotBefore := 10, NotAfter := 20, ClientMagic := [0, 34, 92, 9, 128, 255, 127, 65]\<rparr>"

lemma sample_cert_wf: "cert_wf sample_cert"
  by (simp add: cert_wf_def sample_cert_def zero_Certificate_def XSalsa20Poly1305_def)

theorem parseAnswer_best_witness:
  "\<exists>best. parseAnswer (\<lambda>_ _ _. True) 15 [] [None, Some [''junk''], Some [getCertTXT sample_cert]] None = Some best \<and> best \<noteq> None"
proof -
  have "ResolverSk sample_cert = replicate 32 0" by (simp add: sample_cert_def zero_Certificate_def)
  then have "decoded_cert (Some [getCertTXT sample_cert]) = Some sample_cert"
    using Unmarshal_Marshal [OF sample_cert_wf, of zero_Certificate]
    by (simp add: decoded_cert_def getCertTXT_def zero_Certificate_def)
  moreover have "verifyCert (\<lambda>_ _ _. True) 15 sample_cert [] = None"
    by (simp add: verifyCert_def verifyDate_def VerifySignature_def sample_cert_def)
  ultimately have "valid_certs (\<lambda>_ _ _. True) 15 [] [None, Some [''junk''], Some [getCertTXT sample_cert]] \<noteq> []"
    by (auto simp: valid_certs_def map_filter_simps split: option.splits)
  with parseAnswer_best [OF refl, of "\<lambda>_ _ _. True" 15 "[]" "[None, Some [''junk''], Some [getCertTXT sample_cert]]"]
  show ?thesis by blast
qed

text \<open>
  C37: what the server publishes the client takes.  A certificate that the provider signed, written into a
  TXT record by the server, is read back by the client without a change in any field but the secret
  key, which is never sent, and is accepted at every moment of its validity; between
  the first and the last byte any value of the keys, magic and signature may occur.
\<close>

theorem published_certificate_accepted:
  assumes "cert_wf c" "\<And>m. length (ed_Sign sk m) = 64" "\<And>m. ed_Verify pk m (ed_Sign sk m)"
    and "NotBefore c < NotAfter c" "int (unat (NotBefore c)) \<le> now" "now \<le> int (unat (NotAfter c))"
  shows "parseAnswer ed_Verify now pk [Some [getCertTXT (cert_Sign ed_Sign c sk)]] None =
    Some (Some ((cert_Sign ed_Sign c sk)\<lparr>ResolverSk := replicate 32 0\<rparr>))"
proof -
  let ?c = "cert_Sign ed_Sign c sk"
  have wf: "cert_wf ?c" using assms(1,2) by (simp add: cert_wf_def cert_Sign_def)
  have "writeSigned (?c\<lparr>ResolverSk := z\<rparr>) = writeSigned c" for z by (simp add: writeSigned_def cert_Sign_def)
  then have "verifyCert ed_Verify now (?c\<lparr>ResolverSk := replicate 32 0\<rparr>) pk = None"
    using assms(2-6) by (simp add: verifyCert_def VerifySignature_def verifyDate_def cert_Sign_def not_less not_le)
  then show ?thesis
    using Unmarshal_Marshal [OF wf, of zero_Certificate]
    by (simp add: getCertTXT_def zero_Certificate_def)
qed

theorem published_certificate_accepted_witness:
  "parseAnswer (\<lambda>_ m s. s = take 64 (m @ replicate 64 0)) 15 [] [Some [getCertTXT (cert_Sign (\<lambda>_ m. take 64 (m @ replicate 64 0)) sample_cert [])]] None =
     Some (Some ((cert_Sign (\<lambda>_ m. take 64 (m @ replicate 64 0)) sample_cert [])\<lparr>ResolverSk := replicate 32 0\<rparr>))"
  by (rule published_certificate_accepted)
    (simp_all add: cert_wf_def sample_cert_def zero_Certificate_def XSalsa20Poly1305_def)

subsection \<open>Frames\<close>

text \<open>
  Frames over TCP.  A message that fits a frame is read back from any stream it was written to, and the
  rest of the stream stays in place; a larger message is refused and nothing is written, and
  reading never panics.
\<close>

theorem prefixed_roundtrip:
  "(length b \<le> 65535 \<longrightarrow> writePrefixed b [] = (None, put_uint16 (word_of_nat (length b)) @ b) \<and>
      readPrefixed (snd (writePrefixed b []) @ rest) = Some (Inr b, rest)) \<and>
   (length b > 65535 \<longrightarrow> writePrefixed b rest = (Some ErrQueryTooLarge, rest)) \<and>
   (\<exists>r rest'. readPrefixed rest = Some (r, rest'))"
proof -
  have "\<exists>w. get_uint16 (take 2 rest) = Some w" if "\<not> length rest < 2"
    using that get_uint16_None_iff [of "take 2 rest"] by auto
  then have "\<exists>r rest'. readPrefixed rest = Some (r, rest')"
    by (auto simp: readPrefixed_def ReadFull_def)
  moreover have "readPrefixed (put_uint16 (word_of_nat (length b)) @ b @ rest) = Some (Inr b, rest)" if "length b \<le> 65535"
  proof -
    have "unat (word_of_nat (length b) :: uint16) = length b" using that by (simp add: unsigned_of_nat take_bit_nat_eq_self)
    moreover have "get_uint16 (put_uint16 w) = Some w" for w using get_put_uint16 [of w "[]"] by simp
    ultimately show ?thesis by (simp add: readPrefixed_def ReadFull_def)
  qed
  ultimately show ?thesis by (auto simp: writePrefixed_def LengthPrefix_def)
qed

theorem prefixed_roundtrip_witness: "readPrefixed (snd (writePrefixed [1, 2, 3] []) @ [9]) = Some (Inr [1, 2, 3], [9])"
proof -
  have "length [1 :: byte, 2, 3] \<le> 65535" by simp
  with prefixed_roundtrip [of "[1, 2, 3]" "[9]"] show ?thesis by blast
qed

end
