(* ===== verification/Dnscrypt_Session.thy ===== *)
theory Dnscrypt_Session
  imports Dnscrypt_Codec Sample_Lib
begin

text \<open>
  Encrypted messages of DNSCrypt: the authenticated encryption
  (\<^verbatim>\<open>dnscrypt/internal/xsecretbox/\<close>), shared keys (\<^verbatim>\<open>dnscrypt/encryption.go\<close>), queries and
  responses (\<^verbatim>\<open>dnscrypt/encryptedquery.go\<close>, \<^verbatim>\<open>dnscrypt/encryptedresp.go\<close>) and their use by the
  client (\<^verbatim>\<open>dnscrypt/client.go\<close>) and the server (\<^verbatim>\<open>dnscrypt/server.go\<close>, \<^verbatim>\<open>dnscrypt/serverudp.go\<close>).
  The ciphers, the hash and the key agreement are arguments; \<^verbatim>\<open>cr_keystream\<close> gives the bytes of the
  key stream of a key and a nonce from a block on.
\<close>

subsection \<open>Primitives\<close>

record crypto =
  cr_keystream :: "bytes \<Rightarrow> bytes \<Rightarrow> nat \<Rightarrow> nat \<Rightarrow> bytes"
  cr_poly1305 :: "bytes \<Rightarrow> bytes \<Rightarrow> bytes"
  cr_X25519 :: "bytes \<Rightarrow> bytes \<Rightarrow> error + bytes"
  cr_HChaCha20 :: "bytes \<Rightarrow> bytes \<Rightarrow> error + bytes"
  cr_Precompute :: "bytes \<Rightarrow> bytes \<Rightarrow> bytes"
  cr_sbSeal :: "bytes \<Rightarrow> bytes \<Rightarrow> bytes \<Rightarrow> bytes"
  cr_sbOpen :: "bytes \<Rightarrow> bytes \<Rightarrow> bytes \<Rightarrow> bytes option"
  cr_public :: "bytes \<Rightarrow> bytes"

definition KeySize :: nat where "KeySize = 32"

definition NonceSize :: nat where "NonceSize = 24"

definition TagSize :: nat where "TagSize = 16"

definition BlockSize :: nat where "BlockSize = 64"

definition errWeakPublicKey :: error where "errWeakPublicKey = ErrMsg ''weak public key''"

definition errCipherTextTooShort :: error where "errCipherTextTooShort = ErrMsg ''ciphertext is too short''"

definition errCipherTextAuthenticationFail :: error where
  "errCipherTextAuthenticationFail = ErrMsg ''ciphertext authentication failed''"

definition xor_bytes :: "bytes \<Rightarrow> bytes \<Rightarrow> bytes" where
  "xor_bytes a b = map2 (XOR) a b"

definition XORKeyStream :: "crypto \<Rightarrow> bytes \<Rightarrow> bytes \<Rightarrow> nat \<Rightarrow> bytes \<Rightarrow> bytes" where
  "XORKeyStream C key nonce counter src = xor_bytes src (cr_keystream C key nonce counter (length src))"

subsection \<open>Authenticated encryption\<close>

definition firstBlock :: "crypto \<Rightarrow> bytes \<Rightarrow> bytes \<Rightarrow> bytes" where
  "firstBlock C key nonce = XORKeyStream C key nonce 0 (replicate BlockSize 0)"

text \<open>The first 32 bytes use the second half of the first block, the rest the blocks from 1 on.\<close>

definition xor_message :: "crypto \<Rightarrow> bytes \<Rightarrow> bytes \<Rightarrow> bytes \<Rightarrow> bytes" where
  "xor_message C key nonce message =
     (let firstMessageBlock = (if length message > BlockSize - KeySize then take (BlockSize - KeySize) message else message);
          rest = drop (length firstMessageBlock) message
      in map (\<lambda>i. firstBlock C key nonce ! (BlockSize - KeySize + i) XOR firstMessageBlock ! i) [0..<length firstMessageBlock] @
         XORKeyStream C key nonce 1 rest)"

definition Seal :: "crypto \<Rightarrow> bytes \<Rightarrow> bytes \<Rightarrow> bytes \<Rightarrow> bytes \<Rightarrow> bytes go" where
  "Seal C out nonce message key =
     (if length nonce \<noteq> NonceSize then None
      else if length key \<noteq> KeySize then None
      else let polyKey = take KeySize (firstBlock C key nonce);
               ciphertext = xor_message C key nonce message;
               tag = cr_poly1305 C polyKey ciphertext
           in Some (out @ tag @ ciphertext))"

definition Open :: "crypto \<Rightarrow> bytes \<Rightarrow> bytes \<Rightarrow> bytes \<Rightarrow> bytes \<Rightarrow> (error + bytes) go" where
  "Open C out nonce box key =
     (if length nonce \<noteq> NonceSize then None
      else if length key \<noteq> KeySize then None
      else if length box < TagSize then Some (Inl errCipherTextTooShort)
      else let polyKey = take KeySize (firstBlock C key nonce);
               ciphertext = drop TagSize box;
               tag = cr_poly1305 C polyKey ciphertext
           in if tag \<noteq> take TagSize box then Some (Inl errCipherTextAuthenticationFail)
              else Some (Inr (out @ xor_message C key nonce ciphertext)))"

subsection \<open>Shared keys\<close>

definition SharedKey :: "crypto \<Rightarrow> bytes \<Rightarrow> bytes \<Rightarrow> error + bytes" where
  "SharedKey C secretKey publicKey = (case cr_X25519 C secretKey publicKey of
      Inl err \<Rightarrow> Inl (ErrWrap ''computing x25519'' err)
    | Inr sk \<Rightarrow>
        if foldl (OR) 0 (take KeySize sk) = 0 then Inl errWeakPublicKey
        else (case cr_HChaCha20 C (take KeySize sk) (replicate 16 0) of
            Inl err \<Rightarrow> Inl (ErrWrap ''computing hchacha20'' err)
          | Inr hRes \<Rightarrow> Inr hRes))"

definition computeSharedKey :: "crypto \<Rightarrow> uint16 \<Rightarrow> bytes \<Rightarrow> bytes \<Rightarrow> error + bytes" where
  "computeSharedKey C cryptoConstruction secretKey publicKey =
     (if cryptoConstruction = XChacha20Poly1305 then SharedKey C secretKey publicKey
      else if cryptoConstruction = XSalsa20Poly1305 then Inr (cr_Precompute C publicKey secretKey)
      else Inl ErrESVersion)"

subsection \<open>Queries\<close>

definition clientMagicSize :: nat where "clientMagicSize = 8"

definition nonceSize :: nat where "nonceSize = 24"

definition resolverMagicSize :: nat where "resolverMagicSize = 8"

definition resolverMagic :: bytes where "resolverMagic = [0x72, 0x36, 0x66, 0x6e, 0x76, 0x57, 0x6a, 0x38]"

definition ErrInvalidQuery :: error where
  "ErrInvalidQuery = ErrMsg ''dnscrypt query is invalid and cannot be decrypted''"

definition ErrInvalidClientMagic :: error where
  "ErrInvalidClientMagic = ErrMsg ''dnscrypt query contains invalid client magic''"

definition ErrInvalidResponse :: error where
  "ErrInvalidResponse = ErrMsg ''dnscrypt response is invalid and cannot be decrypted''"

definition ErrInvalidResolverMagic :: error where
  "ErrInvalidResolverMagic = ErrMsg ''dnscrypt response contains invalid resolver magic''"

definition ErrUnexpectedNonce :: error where "ErrUnexpectedNonce = ErrMsg ''unexpected nonce''"

record encryptedQuery =
  eq_esVersion :: uint16
  eq_clientMagic :: bytes
  eq_clientPk :: bytes
  eq_nonce :: bytes

text \<open>The two ciphers behind one interface; a panic of the first is a panic of the caller.\<close>

definition seal_es :: "crypto \<Rightarrow> uint16 \<Rightarrow> bytes \<Rightarrow> bytes \<Rightarrow> bytes \<Rightarrow> bytes \<Rightarrow> (error + bytes) go" where
  "seal_es C es out nonce padded sharedKey =
     (if es = XChacha20Poly1305 then map_option Inr (Seal C out nonce padded sharedKey)
      else if es = XSalsa20Poly1305 then Some (Inr (out @ cr_sbSeal C padded nonce sharedKey))
      else Some (Inl ErrESVersion))"

definition open_es :: "crypto \<Rightarrow> uint16 \<Rightarrow> error \<Rightarrow> bytes \<Rightarrow> bytes \<Rightarrow> bytes \<Rightarrow> (error + bytes) go" where
  "open_es C es invalid nonce box sharedKey =
     (if es = XChacha20Poly1305 then do {
        r \<leftarrow> Open C [] nonce box sharedKey;
        Some (case r of Inl err \<Rightarrow> Inl (ErrWrap ''decrypting'' err) | Inr packet \<Rightarrow> Inr packet) }
      else if es = XSalsa20Poly1305 then
        Some (case cr_sbOpen C box nonce sharedKey of
            None \<Rightarrow> Inl (ErrWrap ''decrypting'' invalid)
          | Some packet \<Rightarrow> Inr packet)
      else Some (Inl ErrESVersion))"

text \<open>The time and the random bytes of a nonce are arguments.\<close>

definition eq_encrypt ::
  "crypto \<Rightarrow> uint64 \<Rightarrow> bytes \<Rightarrow> encryptedQuery \<Rightarrow> bytes \<Rightarrow> bytes \<Rightarrow> ((error + bytes \<times> bytes) \<times> encryptedQuery) go" where
  "eq_encrypt C now rnd q packet sharedKey = do {
     let q = q\<lparr>eq_nonce := put_uint64 now @ rnd @ drop 12 (eq_nonce q)\<rparr>;
     let query = eq_clientMagic q @ eq_clientPk q @ take (nonceSize div 2) (eq_nonce q);
     let clientNonce = eq_nonce q;
     r \<leftarrow> seal_es C (eq_esVersion q) query clientNonce (pad packet) sharedKey;
     Some (case r of Inl err \<Rightarrow> Inl err | Inr query \<Rightarrow> Inr (query, clientNonce), q) }"

definition eq_decrypt ::
  "crypto \<Rightarrow> encryptedQuery \<Rightarrow> bytes \<Rightarrow> bytes \<Rightarrow> ((error + bytes) \<times> encryptedQuery) go" where
  "eq_decrypt C q query serverSecretKey =
     (let headerLength = clientMagicSize + KeySize + nonceSize div 2 in
      if length query < headerLength + TagSize + minDNSPacketSize then Some (Inl ErrInvalidQuery, q)
      else if take clientMagicSize query \<noteq> eq_clientMagic q then Some (Inl ErrInvalidClientMagic, q)
      else let q = q\<lparr>eq_clientPk := take KeySize (drop clientMagicSize query)\<rparr> in
        (case computeSharedKey C (eq_esVersion q) serverSecretKey (eq_clientPk q) of
          Inl err \<Rightarrow> Some (Inl (ErrWrap ''computing shared key'' err), q)
        | Inr sharedKey \<Rightarrow> do {
            let q = q\<lparr>eq_nonce := go_copy (eq_nonce q) (take (nonceSize div 2) (drop (clientMagicSize + KeySize) query))\<rparr>;
            r \<leftarrow> open_es C (eq_esVersion q) ErrInvalidQuery (eq_nonce q) (drop headerLength query) sharedKey;
            Some (case r of
                Inl err \<Rightarrow> Inl err
              | Inr packet \<Rightarrow> (case unpad packet of
                    Inl err \<Rightarrow> Inl (ErrWrap ''remove packet padding'' err)
                  | Inr packet \<Rightarrow> Inr packet), q) }))"

subsection \<open>Responses\<close>

record encryptedResponse =
  es_esVersion :: uint16
  es_nonce :: bytes

definition er_encrypt :: "crypto \<Rightarrow> uint64 \<Rightarrow> bytes \<Rightarrow> encryptedResponse \<Rightarrow> bytes \<Rightarrow> bytes \<Rightarrow> (error + bytes) go" where
  "er_encrypt C now rnd r packet sharedKey = do {
     let r = r\<lparr>es_nonce := take 12 (es_nonce r) @ rnd @ put_uint64 now\<rparr>;
     seal_es C (es_esVersion r) (resolverMagic @ es_nonce r) (es_nonce r) (pad packet) sharedKey }"

definition er_decrypt :: "crypto \<Rightarrow> encryptedResponse \<Rightarrow> bytes \<Rightarrow> bytes \<Rightarrow> bytes \<Rightarrow> (error + bytes) go" where
  "er_decrypt C r response sharedKey clientNonce =
     (let headerLength = length resolverMagic + nonceSize in
      if length response < headerLength + TagSize + minDNSPacketSize then Some (Inl ErrInvalidResponse)
      else if take resolverMagicSize response \<noteq> resolverMagic then Some (Inl ErrInvalidResolverMagic)
      else let r = r\<lparr>es_nonce := take nonceSize (drop resolverMagicSize response)\<rparr> in
        if take (nonceSize div 2) (es_nonce r) \<noteq> take (nonceSize div 2) clientNonce then Some (Inl ErrUnexpectedNonce)
        else do {
          p \<leftarrow> open_es C (es_esVersion r) ErrInvalidResponse (es_nonce r) (drop headerLength response) sharedKey;
          Some (case p of
              Inl err \<Rightarrow> Inl err
            | Inr packet \<Rightarrow> (case unpad packet of
                  Inl err \<Rightarrow> Inl (ErrWrap ''removing packet padding'' err)
                | Inr packet \<Rightarrow> Inr packet)) })"

subsection \<open>The client\<close>

record ResolverInfo =
  ri_ResolverCert :: Certificate
  ri_SharedKey :: bytes
  ri_SecretKey :: bytes
  ri_PublicKey :: bytes

datatype dc_Proto = DcUDP | DcTCP

definition MaxMsgSize :: nat where "MaxMsgSize = 65535"

definition maxQuerySize :: "dc_Proto \<Rightarrow> nat \<Rightarrow> nat" where
  "maxQuerySize proto udpSize = (if proto = DcTCP then MaxMsgSize else udpSize)"

text \<open>The certificate has been fetched; the new key pair is an argument.\<close>

definition DialStampContext :: "crypto \<Rightarrow> bytes \<Rightarrow> error + Certificate \<Rightarrow> error + ResolverInfo" where
  "DialStampContext C secretKey fetched = (case fetched of
      Inl err \<Rightarrow> Inl (ErrWrap ''fetching cert'' err)
    | Inr cert \<Rightarrow> (case computeSharedKey C (ESVersion cert) secretKey (ResolverPk cert) of
          Inl err \<Rightarrow> Inl (ErrWrap ''computing shared key'' err)
        | Inr sharedKey \<Rightarrow> Inr \<lparr> ri_ResolverCert = cert, ri_SharedKey = sharedKey, ri_SecretKey = secretKey,
            ri_PublicKey = cr_public C secretKey \<rparr>))"

definition cl_encrypt ::
  "dnslib \<Rightarrow> crypto \<Rightarrow> uint64 \<Rightarrow> bytes \<Rightarrow> nat \<Rightarrow> Msg \<Rightarrow> ResolverInfo \<Rightarrow> (error + bytes \<times> bytes) go" where
  "cl_encrypt L C now rnd maxSize m info = (case lib_Pack L m of
      None \<Rightarrow> Some (Inl (ErrMsg ''packing dns message''))
    | Some query \<Rightarrow> do {
        (r, _) \<leftarrow> eq_encrypt C now rnd \<lparr> eq_esVersion = ESVersion (ri_ResolverCert info),
          eq_clientMagic = ClientMagic (ri_ResolverCert info), eq_clientPk = ri_PublicKey info,
          eq_nonce = replicate nonceSize 0 \<rparr> query (ri_SharedKey info);
        Some (case r of
            Inl err \<Rightarrow> Inl (ErrWrap ''encrypting message'' err)
          | Inr (msg, clientNonce) \<Rightarrow>
              if length msg > maxSize then Inl ErrQueryTooLarge else Inr (msg, clientNonce)) })"

definition cl_decrypt :: "dnslib \<Rightarrow> crypto \<Rightarrow> bytes \<Rightarrow> bytes \<Rightarrow> ResolverInfo \<Rightarrow> (error + Msg) go" where
  "cl_decrypt L C b clientNonce info = do {
     response \<leftarrow> er_decrypt C \<lparr> es_esVersion = ESVersion (ri_ResolverCert info), es_nonce = replicate nonceSize 0 \<rparr>
       b (ri_SharedKey info) clientNonce;
     Some (case response of
         Inl err \<Rightarrow> Inl (ErrWrap ''decrypting server response'' err)
       | Inr response \<Rightarrow> (case lib_Unpack L response of
             None \<Rightarrow> Inl (ErrMsg ''unpacking dns message'')
           | Some msg \<Rightarrow> Inr msg)) }"

subsection \<open>The server\<close>

definition sv_encrypt :: "dnslib \<Rightarrow> crypto \<Rightarrow> uint64 \<Rightarrow> bytes \<Rightarrow> Certificate \<Rightarrow> Msg \<Rightarrow> encryptedQuery \<Rightarrow> (error + bytes) go" where
  "sv_encrypt L C now rnd cert m q = (case lib_Pack L m of
      None \<Rightarrow> Some (Inl (ErrMsg ''packing dns message''))
    | Some packet \<Rightarrow> (case computeSharedKey C (eq_esVersion q) (ResolverSk cert) (eq_clientPk q) of
          Inl err \<Rightarrow> Some (Inl (ErrWrap ''computing shared key'' err))
        | Inr sharedKey \<Rightarrow> er_encrypt C now rnd \<lparr> es_esVersion = eq_esVersion q, es_nonce = eq_nonce q \<rparr> packet sharedKey))"

definition sv_decrypt :: "dnslib \<Rightarrow> crypto \<Rightarrow> Certificate \<Rightarrow> bytes \<Rightarrow> (error + Msg \<times> encryptedQuery) go" where
  "sv_decrypt L C cert b = do {
     (r, query) \<leftarrow> eq_decrypt C \<lparr> eq_esVersion = ESVersion cert, eq_clientMagic = ClientMagic cert,
       eq_clientPk = replicate KeySize 0, eq_nonce = replicate nonceSize 0 \<rparr> b (ResolverSk cert);
     Some (case r of
         Inl err \<Rightarrow> Inl (ErrWrap ''decrypting query'' err)
       | Inr decrypted \<Rightarrow> (case lib_Unpack L decrypted of
             None \<Rightarrow> Inl (ErrMsg ''unpacking dns message'')
           | Some msg \<Rightarrow> Inr (msg, query))) }"

definition dc_dnsSize :: "dnslib \<Rightarrow> dc_Proto \<Rightarrow> Msg \<Rightarrow> nat" where
  "dc_dnsSize L proto r =
     (let sz = (case lib_IsEdns0 L r of None \<Rightarrow> 0 | Some i \<Rightarrow> lib_UDPSize L (m_Extra r ! i)) in
      if proto \<noteq> DcUDP then MaxMsgSize else if sz < 512 then 512 else unat sz)"

definition normalize :: "dnslib \<Rightarrow> dc_Proto \<Rightarrow> Msg \<Rightarrow> Msg \<Rightarrow> Msg" where
  "normalize L proto req res =
     (let sz = dc_dnsSize L proto req - 64;
          res = lib_Truncate L sz res
      in if m_Truncated res \<and> proto = DcUDP then res\<lparr>m_Answer := []\<rparr> else res)"

definition handleHandshake :: "dnslib \<Rightarrow> string \<Rightarrow> string \<Rightarrow> bytes \<Rightarrow> (error + bytes) go" where
  "handleHandshake L provider certTxt b = (case lib_Unpack L b of
      None \<Rightarrow> Some (Inl (ErrMsg ''unpacking dns message''))
    | Some m \<Rightarrow>
        if length (m_Question m) \<noteq> 1 \<or> m_Response m then Some (Inl ErrInvalidQuery)
        else do {
          q \<leftarrow> go_index (m_Question m) 0;
          let providerName = lib_Fqdn L provider;
          let qName = to_lower (q_Name q);
          if q_Qtype q \<noteq> TypeTXT \<or> qName \<noteq> providerName then Some (Inl ErrInvalidQuery)
          else do {
            let reply = lib_SetReply L empty_Msg m;
            let rr = \<lparr> rr_Hdr = \<lparr> h_Name = q_Name q, h_Rrtype = TypeTXT, h_Class = ClassINET, h_Ttl = 60 \<rparr>,
              rr_Data = RD_TXT [certTxt] \<rparr>;
            Some (case lib_Pack L (reply\<lparr>m_Answer := m_Answer reply @ [rr], m_Authoritative := True, m_RecursionAvailable := True\<rparr>) of
                None \<Rightarrow> Inl (ErrMsg ''packing dns message'')
              | Some res \<Rightarrow> Inr res) } })"

lemma readPrefixed_total: "\<exists>r rest'. readPrefixed rest = Some (r, rest')"
proof (cases "length rest < 2")
  case False
  then have "\<exists>w. get_uint16 (take 2 rest) = Some w" using get_uint16_None_iff [of "take 2 rest"] by auto
  with False show ?thesis by (auto simp: readPrefixed_def ReadFull_def)
qed (simp add: readPrefixed_def ReadFull_def)

subsection \<open>Opening what was sealed\<close>

text \<open>
  What the code relies on: the lengths of key streams, tags and keys, that the library's secret box opens
  what it sealed, and that both sides of a key agreement get the same secret.
\<close>

definition crypto_law :: "crypto \<Rightarrow> bool" where
  "crypto_law C \<longleftrightarrow> (\<forall>k n c l. length (cr_keystream C k n c l) = l) \<and> (\<forall>k m. length (cr_poly1305 C k m) = TagSize) \<and>
     (\<forall>m n k. cr_sbOpen C (cr_sbSeal C m n k) n k = Some m \<and> length (cr_sbSeal C m n k) = TagSize + length m) \<and>
     (\<forall>a b. cr_X25519 C a (cr_public C b) = cr_X25519 C b (cr_public C a)) \<and>
     (\<forall>a b. cr_Precompute C (cr_public C b) a = cr_Precompute C (cr_public C a) b) \<and>
     (\<forall>k n h. cr_HChaCha20 C k n = Inr h \<longrightarrow> length h = KeySize) \<and> (\<forall>a b. length (cr_Precompute C a b) = KeySize)"

lemma length_xor_bytes [simp]: "length (xor_bytes a b) = min (length a) (length b)"
  by (simp add: xor_bytes_def)

lemma xor_bytes_twice:
  assumes "length a \<le> length b" shows "xor_bytes (xor_bytes a b) b = a"
  using assms by (intro nth_equalityI) (simp_all add: xor_bytes_def xor.assoc)

lemma XORKeyStream_Nil [simp]: "XORKeyStream C k n c [] = []"
  by (simp add: XORKeyStream_def xor_bytes_def)

lemma length_XORKeyStream [simp]: "crypto_law C \<Longrightarrow> length (XORKeyStream C k n c m) = length m"
  by (simp add: XORKeyStream_def crypto_law_def)

lemma XORKeyStream_twice:
  assumes "crypto_law C" shows "XORKeyStream C k n c (XORKeyStream C k n c m) = m"
  using assms by (simp add: XORKeyStream_def crypto_law_def xor_bytes_twice)

lemma length_firstBlock [simp]: "crypto_law C \<Longrightarrow> length (firstBlock C k n) = 64"
  by (simp add: firstBlock_def BlockSize_def)

lemma xor_message_alt:
  assumes "crypto_law C"
  shows "xor_message C k n m = xor_bytes (take 32 m) (drop 32 (firstBlock C k n)) @ XORKeyStream C k n 1 (drop 32 m)"
proof -
  have first: "(if length m > BlockSize - KeySize then take (BlockSize - KeySize) m else m) = take 32 m"
    by (simp add: BlockSize_def KeySize_def)
  have "map (\<lambda>i. firstBlock C k n ! (BlockSize - KeySize + i) XOR take 32 m ! i) [0..<length (take 32 m)] =
      xor_bytes (take 32 m) (drop 32 (firstBlock C k n))"
    using assms by (intro nth_equalityI) (simp_all add: xor_bytes_def BlockSize_def KeySize_def xor.commute)
  moreover have "drop (length (take 32 m)) m = drop 32 m" by (cases "length m \<le> 32") simp_all
  ultimately show ?thesis unfolding xor_message_def first Let_def by simp
qed

lemma xor_message_twice:
  assumes "crypto_law C"
  shows "xor_message C k n (xor_message C k n m) = m"
proof -
  let ?fb = "drop 32 (firstBlock C k n)" and ?x = "xor_bytes (take 32 m) (drop 32 (firstBlock C k n))"
  have len: "length ?x = min 32 (length m)" using assms by simp
  have "xor_message C k n (xor_message C k n m) =
      xor_bytes (take 32 (?x @ XORKeyStream C k n 1 (drop 32 m))) ?fb @ XORKeyStream C k n 1 (drop 32 (?x @ XORKeyStream C k n 1 (drop 32 m)))"
    by (simp add: xor_message_alt [OF assms])
  also have "take 32 (?x @ XORKeyStream C k n 1 (drop 32 m)) = ?x"
    using assms len by (cases "length m \<le> 32") simp_all
  also have "drop 32 (?x @ XORKeyStream C k n 1 (drop 32 m)) = XORKeyStream C k n 1 (drop 32 m)"
    using assms len by (cases "length m \<le> 32") (simp_all add: XORKeyStream_def xor_bytes_def)
  also have "xor_bytes ?x ?fb = take 32 m" using assms by (intro xor_bytes_twice) simp
  also have "XORKeyStream C k n 1 (XORKeyStream C k n 1 (drop 32 m)) = drop 32 m" by (rule XORKeyStream_twice [OF assms])
  finally show ?thesis by simp
qed

lemma length_xor_message [simp]: "crypto_law C \<Longrightarrow> length (xor_message C k n m) = length m"
  by (simp add: xor_message_alt)

lemma Open_Seal:
  assumes "crypto_law C" "length n = NonceSize" "length k = KeySize"
  shows "\<exists>box. Seal C out n m k = Some (out @ box) \<and> length box = TagSize + length m \<and> Open C [] n box k = Some (Inr m)"
proof -
  let ?c = "xor_message C k n m"
  let ?tag = "cr_poly1305 C (take KeySize (firstBlock C k n)) ?c"
  have tag: "length ?tag = TagSize" using assms(1) by (simp add: crypto_law_def)
  have "Open C [] n (?tag @ ?c) k = Some (Inr m)"
    using assms tag by (simp add: Open_def Let_def xor_message_twice)
  moreover have "Seal C out n m k = Some (out @ ?tag @ ?c)" using assms by (simp add: Seal_def Let_def)
  ultimately show ?thesis using assms(1) tag by (intro exI [of _ "?tag @ ?c"]) simp
qed

lemma open_seal_es:
  assumes "crypto_law C" "length n = NonceSize" "length k = KeySize" "es = XSalsa20Poly1305 \<or> es = XChacha20Poly1305"
  obtains box where "seal_es C es out n m k = Some (Inr (out @ box))" "length box = TagSize + length m"
    "open_es C es e n box k = Some (Inr m)"
proof (cases "es = XChacha20Poly1305")
  case True
  with Open_Seal [OF assms(1-3), of out m] that show ?thesis by (auto simp: seal_es_def open_es_def)
next
  case False
  with assms that [of "cr_sbSeal C m n k"] show ?thesis by (auto simp: seal_es_def open_es_def crypto_law_def)
qed

lemma open_es_total:
  assumes "length nonce = NonceSize" "length k = KeySize"
  shows "\<exists>r. open_es C es e nonce box k = Some r"
proof -
  have "\<exists>r. Open C [] nonce box k = Some r" using assms by (auto simp: Open_def Let_def)
  then show ?thesis by (auto simp: open_es_def)
qed

lemma computeSharedKey_agree:
  assumes "crypto_law C"
  shows "computeSharedKey C es a (cr_public C b) = computeSharedKey C es b (cr_public C a)"
proof -
  have "cr_X25519 C a (cr_public C b) = cr_X25519 C b (cr_public C a)" using assms unfolding crypto_law_def by blast
  moreover have "cr_Precompute C (cr_public C b) a = cr_Precompute C (cr_public C a) b" using assms unfolding crypto_law_def by blast
  ultimately show ?thesis by (simp add: computeSharedKey_def SharedKey_def)
qed

lemma length_computeSharedKey:
  assumes "crypto_law C" "computeSharedKey C es a b = Inr k"
  shows "length k = KeySize" "es = XSalsa20Poly1305 \<or> es = XChacha20Poly1305"
  using assms by (auto simp: computeSharedKey_def SharedKey_def crypto_law_def split: if_splits sum.splits)

subsection \<open>A session\<close>

lemma length_pad_ge: "minDNSPacketSize \<le> length packet \<Longrightarrow> minDNSPacketSize \<le> length (pad packet)"
  by (simp add: length_pad minDNSPacketSize_def)

lemma unpad_pad_eq: "minDNSPacketSize \<le> length packet \<Longrightarrow> unpad (pad packet) = Inr packet"
proof -
  assume "minDNSPacketSize \<le> length packet"
  moreover obtain n where "pad packet = packet @ 0x80 # replicate n 0" by (auto simp: pad_def Let_def)
  ultimately show ?thesis using unpad_zeros [of packet n n] by (simp add: unpad_def minDNSPacketSize_def)
qed

text \<open>A new query has the zero nonce, of which encrypting fills the first half.\<close>

definition new_query :: "uint16 \<Rightarrow> bytes \<Rightarrow> bytes \<Rightarrow> encryptedQuery" where
  "new_query es magic pk = \<lparr> eq_esVersion = es, eq_clientMagic = magic, eq_clientPk = pk, eq_nonce = replicate 24 0 \<rparr>"

lemma query_roundtrip:
  assumes "crypto_law C" "length magic = 8" "length (cr_public C csk) = KeySize" "length rnd = 4"
    and "computeSharedKey C es csk (cr_public C ssk) = Inr k" "minDNSPacketSize \<le> length packet" "length z = KeySize"
  obtains query n where
    "eq_encrypt C now rnd (new_query es magic (cr_public C csk)) packet k =
       Some (Inr (query, n), (new_query es magic (cr_public C csk))\<lparr>eq_nonce := n\<rparr>)"
    "n = put_uint64 now @ rnd @ replicate 12 0" "length query = 68 + length (pad packet)"
    "eq_decrypt C (new_query es magic z) query ssk = Some (Inr packet, (new_query es magic (cr_public C csk))\<lparr>eq_nonce := n\<rparr>)"
proof -
  let ?pk = "cr_public C csk"
  define n where "n = put_uint64 now @ rnd @ replicate 12 (0 :: byte)"
  have n: "length n = NonceSize" "take 12 n = put_uint64 now @ rnd" "drop 12 n = replicate 12 0"
    using assms(4) by (simp_all add: n_def NonceSize_def)
  note k = length_computeSharedKey [OF assms(1,5)]
  obtain box where box: "seal_es C es (magic @ ?pk @ take 12 n) n (pad packet) k = Some (Inr ((magic @ ?pk @ take 12 n) @ box))"
    "length box = TagSize + length (pad packet)" "open_es C es ErrInvalidQuery n box k = Some (Inr (pad packet))"
    by (rule open_seal_es [OF assms(1) n(1) k])
  let ?query = "(magic @ ?pk @ take 12 n) @ box"
  have "eq_encrypt C now rnd (new_query es magic ?pk) packet k =
       Some (Inr (?query, n), (new_query es magic ?pk)\<lparr>eq_nonce := n\<rparr>)"
    using box(1) unfolding eq_encrypt_def new_query_def by (simp add: n_def nonceSize_def Let_def)
  moreover have "length ?query = 68 + length (pad packet)"
    using assms(2,3) box(2) n(1) by (simp add: KeySize_def TagSize_def NonceSize_def)
  moreover have "eq_decrypt C (new_query es magic z) ?query ssk = Some (Inr packet, (new_query es magic ?pk)\<lparr>eq_nonce := n\<rparr>)"
  proof -
    have "computeSharedKey C es ssk ?pk = Inr k" using assms(5) computeSharedKey_agree [OF assms(1)] by simp
    moreover have "go_copy (replicate 24 0) (take 12 n) = n"
      using assms(4) by (simp add: go_copy_def n_def)
    moreover have "take 8 ?query = magic" "take 32 (drop 8 ?query) = ?pk" "take 12 (drop 40 ?query) = take 12 n"
      "drop 52 ?query = box"
      using assms(2,3) n(1) by (simp_all add: KeySize_def NonceSize_def)
    ultimately show ?thesis
      using box(2,3) assms(2,3) length_pad_ge [OF assms(6)] unpad_pad_eq [OF assms(6)] n(1)
      by (simp add: eq_decrypt_def new_query_def Let_def clientMagicSize_def KeySize_def nonceSize_def TagSize_def NonceSize_def)
  qed
  ultimately show ?thesis using that n_def by blast
qed

lemma response_roundtrip:
  assumes "crypto_law C" "length n = 24" "length rnd = 4" "length k = KeySize"
    and "es = XSalsa20Poly1305 \<or> es = XChacha20Poly1305"
  obtains resp where "er_encrypt C now rnd \<lparr> es_esVersion = es, es_nonce = n \<rparr> packet k = Some (Inr resp)"
    "\<forall>z n'. minDNSPacketSize \<le> length packet \<longrightarrow> er_decrypt C \<lparr> es_esVersion = es, es_nonce = z \<rparr> resp k n' =
      Some (if take 12 n' = take 12 n then Inr packet else Inl ErrUnexpectedNonce)"
proof -
  define n2 where "n2 = take 12 n @ rnd @ put_uint64 now"
  have n2: "length n2 = NonceSize" "take 12 n2 = take 12 n" using assms(2,3) by (simp_all add: n2_def NonceSize_def)
  obtain box where box: "seal_es C es (resolverMagic @ n2) n2 (pad packet) k = Some (Inr ((resolverMagic @ n2) @ box))"
    "length box = TagSize + length (pad packet)" "open_es C es ErrInvalidResponse n2 box k = Some (Inr (pad packet))"
    by (rule open_seal_es [OF assms(1) n2(1) assms(4,5)])
  let ?resp = "(resolverMagic @ n2) @ box"
  have enc: "er_encrypt C now rnd \<lparr> es_esVersion = es, es_nonce = n \<rparr> packet k = Some (Inr ?resp)"
    using box(1) by (simp add: er_encrypt_def n2_def)
  have parts: "take 8 ?resp = resolverMagic" "take 24 (drop 8 ?resp) = n2" "drop 32 ?resp = box" "length resolverMagic = 8"
    using n2(1) by (simp_all add: resolverMagic_def NonceSize_def)
  have dec: "er_decrypt C \<lparr> es_esVersion = es, es_nonce = z \<rparr> ?resp k n' =
      Some (if take 12 n' = take 12 n then Inr packet else Inl ErrUnexpectedNonce)"
    if "minDNSPacketSize \<le> length packet" for z n'
    using box(2,3) parts n2 length_pad_ge [OF that] unpad_pad_eq [OF that]
    by (simp add: er_decrypt_def Let_def resolverMagicSize_def nonceSize_def TagSize_def NonceSize_def)
  show ?thesis by (rule that [OF enc]) (intro allI impI dec)
qed

lemma session_query:
  assumes "crypto_law C" "length (ClientMagic c) = 8" "ResolverPk c = cr_public C (ResolverSk c)"
    and "length (cr_public C sk) = KeySize" "DialStampContext C sk (Inr (c\<lparr>ResolverSk := z\<rparr>)) = Inr info"
    and "lib_Pack L m = Some p" "minDNSPacketSize \<le> length p" "68 + length (pad p) \<le> maxSize" "length rnd = 4"
  obtains query n q where "cl_encrypt L C now rnd maxSize m info = Some (Inr (query, n))"
    "sv_decrypt L C c query = Some (case lib_Unpack L p of None \<Rightarrow> Inl (ErrMsg ''unpacking dns message'') | Some m' \<Rightarrow> Inr (m', q))"
    "take 8 query = ClientMagic c" "length query = 68 + length (pad p)"
    "\<forall>now' rnd' r rp. lib_Pack L r = Some rp \<longrightarrow> length rnd' = 4 \<longrightarrow> (\<exists>resp. sv_encrypt L C now' rnd' c r q = Some (Inr resp) \<and>
      (minDNSPacketSize \<le> length rp \<longrightarrow>
        cl_decrypt L C resp n info = Some (case lib_Unpack L rp of None \<Rightarrow> Inl (ErrMsg ''unpacking dns message'') | Some r' \<Rightarrow> Inr r') \<and>
        (\<forall>n'. take 12 n' \<noteq> take 12 n \<longrightarrow>
           cl_decrypt L C resp n' info = Some (Inl (ErrWrap ''decrypting server response'' ErrUnexpectedNonce)))))"
proof -
  let ?es = "ESVersion c" and ?pk = "cr_public C sk"
  obtain k where k: "computeSharedKey C ?es sk (ResolverPk c) = Inr k"
    "info = \<lparr> ri_ResolverCert = c\<lparr>ResolverSk := z\<rparr>, ri_SharedKey = k, ri_SecretKey = sk, ri_PublicKey = ?pk \<rparr>"
    using assms(5) by (auto simp: DialStampContext_def split: sum.splits)
  have k': "computeSharedKey C ?es sk (cr_public C (ResolverSk c)) = Inr k" using k(1) assms(3) by simp
  have ks: "computeSharedKey C ?es (ResolverSk c) ?pk = Inr k" using k' computeSharedKey_agree [OF assms(1)] by simp
  obtain query n where
    q: "eq_encrypt C now rnd (new_query ?es (ClientMagic c) ?pk) p k =
       Some (Inr (query, n), (new_query ?es (ClientMagic c) ?pk)\<lparr>eq_nonce := n\<rparr>)"
    "n = put_uint64 now @ rnd @ replicate 12 0" "length query = 68 + length (pad p)"
    "eq_decrypt C (new_query ?es (ClientMagic c) (replicate KeySize 0)) query (ResolverSk c) =
       Some (Inr p, (new_query ?es (ClientMagic c) ?pk)\<lparr>eq_nonce := n\<rparr>)"
    by (rule query_roundtrip [OF assms(1,2,4,9) k' assms(7), of "replicate KeySize 0"]) simp
  have n: "length n = 24" using q(2) assms(9) by simp
  let ?q = "(new_query ?es (ClientMagic c) ?pk)\<lparr>eq_nonce := n\<rparr>"
  have enc: "cl_encrypt L C now rnd maxSize m info = Some (Inr (query, n))"
    using q(1,3) assms(6,8) k(2) by (simp add: cl_encrypt_def new_query_def nonceSize_def)
  have dec: "sv_decrypt L C c query = Some (case lib_Unpack L p of None \<Rightarrow> Inl (ErrMsg ''unpacking dns message'') | Some m' \<Rightarrow> Inr (m', ?q))"
    using q(4) by (simp add: sv_decrypt_def new_query_def nonceSize_def split: option.split)
  have magic: "take 8 query = ClientMagic c"
    using q(4) by (simp add: eq_decrypt_def new_query_def Let_def clientMagicSize_def split: if_splits)
  have resp: "\<exists>resp. sv_encrypt L C now' rnd' c r ?q = Some (Inr resp) \<and>
      (minDNSPacketSize \<le> length rp \<longrightarrow>
        cl_decrypt L C resp n info = Some (case lib_Unpack L rp of None \<Rightarrow> Inl (ErrMsg ''unpacking dns message'') | Some r' \<Rightarrow> Inr r') \<and>
        (\<forall>n'. take 12 n' \<noteq> take 12 n \<longrightarrow>
           cl_decrypt L C resp n' info = Some (Inl (ErrWrap ''decrypting server response'' ErrUnexpectedNonce))))"
    if pk: "lib_Pack L r = Some rp" and rnd: "length rnd' = 4" for now' rnd' r rp
  proof -
    obtain resp where r: "er_encrypt C now' rnd' \<lparr> es_esVersion = ?es, es_nonce = n \<rparr> rp k = Some (Inr resp)"
      "\<forall>z n'. minDNSPacketSize \<le> length rp \<longrightarrow> er_decrypt C \<lparr> es_esVersion = ?es, es_nonce = z \<rparr> resp k n' =
        Some (if take 12 n' = take 12 n then Inr rp else Inl ErrUnexpectedNonce)"
      by (rule response_roundtrip [OF assms(1) n rnd length_computeSharedKey [OF assms(1) k(1)], of now' rp])
    have "sv_encrypt L C now' rnd' c r ?q = Some (Inr resp)" using r(1) ks pk by (simp add: sv_encrypt_def new_query_def)
    moreover have "cl_decrypt L C resp n info = Some (case lib_Unpack L rp of None \<Rightarrow> Inl (ErrMsg ''unpacking dns message'') | Some r' \<Rightarrow> Inr r')"
      if "minDNSPacketSize \<le> length rp"
      using r(2) that k(2) by (simp add: cl_decrypt_def)
    moreover have "cl_decrypt L C resp n' info = Some (Inl (ErrWrap ''decrypting server response'' ErrUnexpectedNonce))"
      if "minDNSPacketSize \<le> length rp" "take 12 n' \<noteq> take 12 n" for n'
      using r(2) that k(2) by (simp add: cl_decrypt_def)
    ultimately show ?thesis by blast
  qed
  show ?thesis using resp by (intro that [OF enc dec magic q(3)]) blast
qed

text \<open>
  C19: a DNSCrypt session.  For either construction and any message that packs into at least the minimum
  size and fits the client's limit, the query that the client encrypts decrypts at the server to
  the packed message, and the response that the server then encrypts decrypts at the client to what was
  packed there; the same response is refused for a query with any other nonce.  No step panics.
\<close>

theorem dnscrypt_session:
  assumes "crypto_law C" "length (ClientMagic c) = 8" "ResolverPk c = cr_public C (ResolverSk c)"
    and "length (cr_public C sk) = KeySize" "DialStampContext C sk (Inr (c\<lparr>ResolverSk := z\<rparr>)) = Inr info"
    and "lib_Pack L m = Some p" "minDNSPacketSize \<le> length p" "68 + length (pad p) \<le> maxSize" "length rnd = 4"
    and "lib_Pack L r = Some rp" "minDNSPacketSize \<le> length rp" "length rnd' = 4"
  shows "\<exists>query n q resp. cl_encrypt L C now rnd maxSize m info = Some (Inr (query, n)) \<and>
    sv_decrypt L C c query = Some (case lib_Unpack L p of None \<Rightarrow> Inl (ErrMsg ''unpacking dns message'') | Some m' \<Rightarrow> Inr (m', q)) \<and>
    sv_encrypt L C now' rnd' c r q = Some (Inr resp) \<and>
    cl_decrypt L C resp n info = Some (case lib_Unpack L rp of None \<Rightarrow> Inl (ErrMsg ''unpacking dns message'') | Some r' \<Rightarrow> Inr r') \<and>
    (\<forall>n'. take 12 n' \<noteq> take 12 n \<longrightarrow>
       cl_decrypt L C resp n' info = Some (Inl (ErrWrap ''decrypting server response'' ErrUnexpectedNonce)))"
proof -
  obtain query n q where
    q: "cl_encrypt L C now rnd maxSize m info = Some (Inr (query, n))"
      "sv_decrypt L C c query = Some (case lib_Unpack L p of None \<Rightarrow> Inl (ErrMsg ''unpacking dns message'') | Some m' \<Rightarrow> Inr (m', q))"
      "take 8 query = ClientMagic c" "length query = 68 + length (pad p)"
    and r: "\<forall>now' rnd' r rp. lib_Pack L r = Some rp \<longrightarrow> length rnd' = 4 \<longrightarrow> (\<exists>resp. sv_encrypt L C now' rnd' c r q = Some (Inr resp) \<and>
      (minDNSPacketSize \<le> length rp \<longrightarrow>
        cl_decrypt L C resp n info = Some (case lib_Unpack L rp of None \<Rightarrow> Inl (ErrMsg ''unpacking dns message'') | Some r' \<Rightarrow> Inr r') \<and>
        (\<forall>n'. take 12 n' \<noteq> take 12 n \<longrightarrow>
           cl_decrypt L C resp n' info = Some (Inl (ErrWrap ''decrypting server response'' ErrUnexpectedNonce)))))"
    by (rule session_query [OF assms(1-9)])
  from r assms(10-12) q show ?thesis by blast
qed

definition sample_crypto :: crypto where
  "sample_crypto = \<lparr> cr_keystream = (\<lambda>_ _ _ l. replicate l 7), cr_poly1305 = (\<lambda>_ _. replicate TagSize 1),
     cr_X25519 = (\<lambda>a b. Inr (xor_bytes a b)), cr_HChaCha20 = (\<lambda>k _. Inr (take KeySize (k @ replicate KeySize 0))),
     cr_Precompute = (\<lambda>_ _. replicate KeySize 2), cr_sbSeal = (\<lambda>m _ _. replicate TagSize 3 @ m),
     cr_sbOpen = (\<lambda>b _ _. Some (drop TagSize b)), cr_public = (\<lambda>sk. sk) \<rparr>"

lemma xor_bytes_commute: "xor_bytes a b = xor_bytes b a"
  by (intro nth_equalityI) (simp_all add: xor_bytes_def xor.commute)

lemma sample_crypto_law: "crypto_law sample_crypto"
  by (auto simp: crypto_law_def sample_crypto_def xor_bytes_commute)

theorem dnscrypt_session_witness:
  "\<exists>query n info. cl_encrypt ((sample_lib sample_resp)\<lparr>lib_Pack := \<lambda>_. Some (replicate 20 1)\<rparr>) sample_crypto 5 [1, 2, 3, 4] 512 sample_req
     info = Some (Inr (query, n)) \<and>
     DialStampContext sample_crypto (replicate 32 9) (Inr (sample_cert\<lparr>ResolverPk := replicate 32 4, ResolverSk := []\<rparr>)) = Inr info"
proof -
  let ?L = "(sample_lib sample_resp)\<lparr>lib_Pack := \<lambda>_. Some (replicate 20 1)\<rparr>"
  let ?c = "sample_cert\<lparr>ResolverPk := replicate 32 4, ResolverSk := replicate 32 4\<rparr>"
  obtain info where info: "DialStampContext sample_crypto (replicate 32 9) (Inr (?c\<lparr>ResolverSk := []\<rparr>)) = Inr info"
    by (simp add: DialStampContext_def computeSharedKey_def sample_crypto_def sample_cert_def XSalsa20Poly1305_def XChacha20Poly1305_def)
  have "length (pad (replicate 20 1)) = 256" by (simp add: length_pad)
  then have "\<exists>query n. cl_encrypt ?L sample_crypto 5 [1, 2, 3, 4] 512 sample_req info = Some (Inr (query, n))"
    using dnscrypt_session [OF sample_crypto_law, of ?c "replicate 32 9" "[]" info ?L sample_req "replicate 20 1" 512 "[1, 2, 3, 4]"
        sample_resp "replicate 20 1" "[1, 2, 3, 4]" 5 6] info
    by (auto simp: sample_crypto_def sample_cert_def minDNSPacketSize_def KeySize_def)
  with info show ?thesis by auto
qed

subsection \<open>The handshake\<close>

lemma to_lower_twice [simp]: "to_lower (to_lower s) = to_lower s"
  by (auto simp: to_lower_def char_lower_def of_char_of)

text \<open>
  The server compares the lower-cased name of a query with the provider name as it is configured, so a
  provider name with an upper-case letter is never served, whatever the query.
\<close>

lemma handshake_provider_case:
  assumes "to_lower (lib_Fqdn L provider) \<noteq> lib_Fqdn L provider"
  shows "\<exists>err. handleHandshake L provider certTxt b = Some (Inl err)"
proof -
  have "to_lower s \<noteq> lib_Fqdn L provider" for s using assms to_lower_twice [of s] by metis
  then show ?thesis
    by (auto simp: handleHandshake_def go_index_def length_1_conv split: option.split)
qed

end
