(* ===== verification/Upstream_Dnscrypt.thy ===== *)
theory Upstream_Dnscrypt
  imports Upstream_Plain Dnscrypt_Session
begin

text \<open>
  The DNSCrypt upstream (\<^verbatim>\<open>upstream/dnscrypt.go\<close>) and the exchanges of the DNSCrypt client
  (\<^verbatim>\<open>dnscrypt/client.go\<close>): fetching and keeping a certificate, the encrypted exchange over a new connection, and
  the observer that carries the state of the exchange through reading and decrypting.  What sockets, clocks, the random
  source and the context give is a field of the upstream.
\<close>

subsection \<open>Fetching a certificate\<close>

definition ErrFailedToFetchCert :: error where "ErrFailedToFetchCert = ErrMsg ''failed to fetch dnscrypt certificate''"

definition ErrInvalidDNSStamp :: error where "ErrInvalidDNSStamp = ErrMsg ''invalid stamp''"

record cert_socket =
  cs_dial :: "error option"
  cs_SetDeadline :: "error option"
  cs_WriteMsg :: "error option"
  cs_queryId :: uint16
  cs_reads :: "(error + Msg) list"

text \<open>The loop over the messages read; the deadline ends it.\<close>

fun read_cert_reply :: "dc_Proto \<Rightarrow> uint16 \<Rightarrow> (error + Msg) list \<Rightarrow> error + Msg" where
  "read_cert_reply proto i [] = Inl ErrTimeout"
| "read_cert_reply proto i (Inl err # rs) = Inl err"
| "read_cert_reply proto i (Inr r # rs) =
     (if m_Id r = i then Inr r else if proto = DcTCP then Inl ErrId else read_cert_reply proto i rs)"

definition txt_of :: "RR \<Rightarrow> string list option" where
  "txt_of rr = (case rr_Data rr of RD_TXT t \<Rightarrow> Some t | _ \<Rightarrow> None)"

definition fetchCert ::
  "(bytes \<Rightarrow> bytes \<Rightarrow> bytes \<Rightarrow> bool) \<Rightarrow> int \<Rightarrow> bytes \<Rightarrow> dc_Proto \<Rightarrow> cert_socket \<Rightarrow> (error + Certificate) go" where
  "fetchCert ed_Verify now serverPk proto s =
     (if cs_dial s \<noteq> None then Some (Inl (ErrWrap ''dialing certificate server'' (the (cs_dial s))))
      else if cs_SetDeadline s \<noteq> None then Some (Inl (the (cs_SetDeadline s)))
      else if cs_WriteMsg s \<noteq> None then Some (Inl (ErrWrap ''sending certificate query'' (the (cs_WriteMsg s))))
      else (case read_cert_reply proto (cs_queryId s) (cs_reads s) of
        Inl err \<Rightarrow> Some (Inl (ErrWrap ''sending dns query'' err))
      | Inr r \<Rightarrow>
          if m_Rcode r \<noteq> RcodeSuccess then Some (Inl ErrFailedToFetchCert)
          else do {
            cert \<leftarrow> parseAnswer ed_Verify now serverPk (map txt_of (m_Answer r)) None;
            Some (case cert of None \<Rightarrow> Inl (ErrMsg ''no valid txt records for provider'') | Some c \<Rightarrow> Inr c) }))"

subsection \<open>The encrypted exchange\<close>

record dnscrypt_socket =
  sk_ctxErr :: "error option"
  sk_dial :: "error option"
  sk_Write :: "error option"
  sk_datagram :: "error + bytes"
  sk_stream :: bytes
  sk_Close :: "error option"
  sk_before :: "group_call list"
  sk_now :: int
  sk_during :: "group_call list"
  sk_end :: int

record dnsCrypt =
  dk_lib :: dnslib
  dk_crypto :: crypto
  dk_env :: conn_env
  dk_ed_Verify :: "bytes \<Rightarrow> bytes \<Rightarrow> bytes \<Rightarrow> bool"
  dk_stamp :: "error + bool \<times> bytes"
  dk_certSocket :: cert_socket
  dk_secretKey :: bytes
  dk_verifyCert :: "Certificate \<Rightarrow> error option"
  dk_unix :: int
  dk_nonceTime :: uint64
  dk_rnd :: "dc_Proto \<Rightarrow> bytes"
  dk_udpSize :: nat
  dk_ctxErr :: "error option"
  dk_refreshErr :: "error option"
  dk_socket :: "dc_Proto \<Rightarrow> dnscrypt_socket"
  dk_resolverInfo :: "ResolverInfo option"

text \<open>\<^verbatim>\<open>dnsCryptReceipt.Decoded\<close>: the verdict on a decrypted message and the settlement of its ticket.\<close>

definition dk_verdict :: "Msg \<Rightarrow> error + Msg \<Rightarrow> error option go" where
  "dk_verdict req v = (case v of
      Inl err \<Rightarrow> Some (Some err)
    | Inr response \<Rightarrow>
        if \<not> m_Response response then Some (Some errDNSProtocol)
        else if m_Id response \<noteq> m_Id req then Some (Some ErrId)
        else validateResponse req response)"

definition Decoded ::
  "Msg \<Rightarrow> bool \<Rightarrow> uint64 \<Rightarrow> int \<Rightarrow> error + Msg \<Rightarrow> ExchangeState option \<Rightarrow> (error option \<times> ExchangeState option) go" where
  "Decoded req udp ticket now v so = do {
     err \<leftarrow> dk_verdict req v;
     so \<leftarrow> (case v of
         Inl _ \<Rightarrow> xs_reject ticket now so
       | Inr response \<Rightarrow>
           if err \<noteq> None \<or> udp \<and> m_Truncated response then xs_reject ticket now so
           else xs_accept ticket response so);
     Some (err, so) }"

definition readResponse :: "dc_Proto \<Rightarrow> nat \<Rightarrow> dnscrypt_socket \<Rightarrow> (error + bytes) go" where
  "readResponse proto udpSize sk =
     (if proto \<noteq> DcTCP then Some (map_sum id (take udpSize) (sk_datagram sk))
      else do { (r, _) \<leftarrow> readPrefixed (sk_stream sk); Some r })"

definition writeQuery :: "dc_Proto \<Rightarrow> dnscrypt_socket \<Rightarrow> bytes \<Rightarrow> error option" where
  "writeQuery proto sk query =
     (if proto = DcTCP then
        (case writePrefixed query [] of
          (Some err, _) \<Rightarrow> Some (ErrWrap ''writing to tcp connection'' err)
        | (None, _) \<Rightarrow> map_option (ErrWrap ''writing to tcp connection'') (sk_Write sk))
      else map_option (ErrWrap ''writing to connection'') (sk_Write sk))"

definition ExchangeConnContext ::
  "dnsCrypt \<Rightarrow> dc_Proto \<Rightarrow> Msg \<Rightarrow> ResolverInfo \<Rightarrow> ExchangeState option \<Rightarrow> (Msg option \<times> error option \<times> ExchangeState option) go" where
  "ExchangeConnContext p proto m info so =
     (let sk = dk_socket p proto in
      if sk_ctxErr sk \<noteq> None then Some (None, sk_ctxErr sk, so)
      else do {
        q \<leftarrow> cl_encrypt (dk_lib p) (dk_crypto p) (dk_nonceTime p) (dk_rnd p proto) (maxQuerySize proto (dk_udpSize p)) m info;
        (case q of
          Inl err \<Rightarrow> Some (None, Some (ErrWrap ''encrypting'' err), so)
        | Inr (query, clientNonce) \<Rightarrow> (case writeQuery proto sk query of
            Some err \<Rightarrow> Some (None, Some (ErrWrap ''writing query'' err), so)
          | None \<Rightarrow> do {
              b \<leftarrow> readResponse proto (dk_udpSize p) sk;
              (case b of
                Inl err \<Rightarrow> Some (None, Some (ErrWrap ''reading response'' err), so)
              | Inr b \<Rightarrow> do {
                  so \<leftarrow> group_calls (sk_before sk) so;
                  (ticket, so) \<leftarrow> reserveCandidate (sk_now sk) so;
                  v \<leftarrow> cl_decrypt (dk_lib p) (dk_crypto p) b clientNonce info;
                  so \<leftarrow> group_calls (sk_during sk) so;
                  (err, so) \<leftarrow> Decoded m (proto = DcUDP) ticket (sk_end sk) v so;
                  Some (case err of
                      Some e \<Rightarrow> (None, Some (ErrWrap ''decrypting response'' e), so)
                    | None \<Rightarrow> (case v of Inr resp \<Rightarrow> (Some resp, None, so) | Inl _ \<Rightarrow> (None, None, so))) }) })) })"

definition ExchangeContext ::
  "dnsCrypt \<Rightarrow> dc_Proto \<Rightarrow> Msg \<Rightarrow> ResolverInfo \<Rightarrow> ExchangeState option \<Rightarrow> (Msg option \<times> error option \<times> ExchangeState option) go" where
  "ExchangeContext p proto m info so = (case sk_dial (dk_socket p proto) of
      Some err \<Rightarrow> Some (None, Some (ErrWrap ''dialing'' err), so)
    | None \<Rightarrow> do {
        (resp, err, so) \<leftarrow> ExchangeConnContext p proto m info so;
        let (resp, err) = (case err of Some e \<Rightarrow> (None, Some (ErrWrap ''exchanging'' e)) | None \<Rightarrow> (resp, None));
        Some (resp, up_WithDeferred (dk_env p) err (sk_Close (dk_socket p proto)), so) })"

subsection \<open>The upstream\<close>

definition currentCertificate :: "dnsCrypt \<Rightarrow> ResolverInfo option" where
  "currentCertificate p = (case dk_resolverInfo p of
      None \<Rightarrow> None
    | Some info \<Rightarrow> if verifyDate (ri_ResolverCert info) (dk_unix p) then Some info else None)"

definition DialContext :: "dnsCrypt \<Rightarrow> (error + ResolverInfo) go" where
  "DialContext p = (case dk_stamp p of
      Inl err \<Rightarrow> Some (Inl (ErrWrap ''creating server stamp'' err))
    | Inr (isDNSCrypt, serverPk) \<Rightarrow>
        if \<not> isDNSCrypt then Some (Inl ErrInvalidDNSStamp)
        else do {
          fetched \<leftarrow> fetchCert (dk_ed_Verify p) (dk_unix p) serverPk DcUDP (dk_certSocket p);
          Some (DialStampContext (dk_crypto p) (dk_secretKey p) fetched) })"

definition certificate :: "dnsCrypt \<Rightarrow> ((error + ResolverInfo) \<times> dnsCrypt) go" where
  "certificate p =
     (if dk_ctxErr p \<noteq> None then Some (Inl (the (dk_ctxErr p)), p)
      else (case currentCertificate p of
        Some info \<Rightarrow> Some (Inr info, p)
      | None \<Rightarrow>
          if dk_refreshErr p \<noteq> None then Some (Inl (the (dk_refreshErr p)), p)
          else do {
            r \<leftarrow> DialContext p;
            Some (case r of
                Inl err \<Rightarrow> (Inl (ErrWrap ''fetching certificate info'' err), p)
              | Inr info \<Rightarrow> (case dk_verifyCert p (ri_ResolverCert info) of
                  Some err \<Rightarrow> (Inl (ErrWrap ''verifying certificate info'' err), p)
                | None \<Rightarrow> (Inr info, p\<lparr>dk_resolverInfo := Some info\<rparr>))) }))"

definition dnscrypt_body :: "dnsCrypt exchange_body" where
  "dnscrypt_body p req so = do {
     (c, p) \<leftarrow> certificate p;
     (case c of
       Inl err \<Rightarrow> Some (None, Some err, so, p)
     | Inr info \<Rightarrow> do {
         (resp, err, so) \<leftarrow> ExchangeContext p DcUDP req info so;
         if err = None \<and> (case resp of None \<Rightarrow> False | Some m \<Rightarrow> m_Truncated m) then do {
           _ \<leftarrow> go_index (m_Question req) 0;
           (resp, err, so) \<leftarrow> ExchangeContext p DcTCP req info so;
           Some (resp, err, so, p) }
         else Some (resp, err, so, p) }) }"

definition dnscrypt_Exchange :: "dnsCrypt exchange_body" where
  "dnscrypt_Exchange = run_exchange dnscrypt_body"

subsection \<open>Encryption and decryption never panic\<close>

lemma cl_encrypt_total:
  assumes "length rnd = 4" "length (ri_SharedKey info) = KeySize"
  shows "\<exists>r. cl_encrypt L C now rnd maxSize m info = Some r"
proof -
  have "\<exists>r. seal_es C es out (put_uint64 now @ rnd @ replicate 12 0) padded (ri_SharedKey info) = Some r" for es out padded
    using assms by (auto simp: seal_es_def Seal_def NonceSize_def Let_def)
  then obtain f where "seal_es C es out (put_uint64 now @ rnd @ replicate 12 0) padded (ri_SharedKey info) = Some (f es out padded)"
    for es out padded by metis
  then show ?thesis by (auto simp: cl_encrypt_def eq_encrypt_def nonceSize_def Let_def split: option.splits)
qed

lemma er_decrypt_total:
  assumes "length k = KeySize"
  shows "\<exists>r. er_decrypt C r0 b k n = Some r"
proof (cases "length b < length resolverMagic + nonceSize + TagSize + minDNSPacketSize")
  case False
  then have "length (take nonceSize (drop resolverMagicSize b)) = NonceSize"
    by (simp add: resolverMagic_def resolverMagicSize_def nonceSize_def NonceSize_def)
  then obtain f where "open_es C es e (take nonceSize (drop resolverMagicSize b)) box k = Some (f es e box)" for es e box
    using open_es_total [OF _ assms] by metis
  then show ?thesis by (auto simp: er_decrypt_def Let_def)
qed (simp add: er_decrypt_def)

lemma cl_decrypt_total:
  assumes "length (ri_SharedKey info) = KeySize"
  shows "\<exists>r. cl_decrypt L C b n info = Some r"
proof -
  obtain r where "er_decrypt C \<lparr> es_esVersion = ESVersion (ri_ResolverCert info), es_nonce = replicate nonceSize 0 \<rparr> b (ri_SharedKey info) n = Some r"
    using er_decrypt_total [OF assms] by metis
  then show ?thesis by (simp add: cl_decrypt_def)
qed

lemma readResponse_total: "\<exists>r. readResponse proto n sk = Some r"
  using readPrefixed_total [of "sk_stream sk"] by (auto simp: readResponse_def)

subsection \<open>The exchange decides\<close>

text \<open>
  What the upstream keeps and relies on: the laws of the cryptographic primitives, four random bytes per nonce,
  \<^verbatim>\<open>errors.WithDeferred\<close> as documented, and a kept certificate with a key of the right size that the provider signed.
\<close>

definition info_ok :: "dnsCrypt \<Rightarrow> ResolverInfo \<Rightarrow> bool" where
  "info_ok p info \<longleftrightarrow> length (ri_SharedKey info) = KeySize \<and>
     (\<exists>serverPk. dk_stamp p = Inr (True, serverPk) \<and> VerifySignature (dk_ed_Verify p) (ri_ResolverCert info) serverPk)"

definition dnscrypt_inv :: "dnsCrypt \<Rightarrow> bool" where
  "dnscrypt_inv p \<longleftrightarrow> crypto_law (dk_crypto p) \<and> (\<forall>proto. length (dk_rnd p proto) = 4) \<and>
     (\<forall>e. up_WithDeferred (dk_env p) e None = e) \<and> (\<forall>e d. up_WithDeferred (dk_env p) e (Some d) \<noteq> None) \<and>
     (\<forall>info. dk_resolverInfo p = Some info \<longrightarrow> info_ok p info)"

lemma dnscrypt_deferred_None:
  "dnscrypt_inv p \<Longrightarrow> up_WithDeferred (dk_env p) e d = None \<longleftrightarrow> e = None \<and> d = None"
  by (cases d) (simp_all add: dnscrypt_inv_def)

lemma reserveCandidate_publishes:
  assumes "xs_inv i c s"
  shows "\<exists>k s'. reserveCandidate now (Some s) = Some (k, Some s') \<and> publishes i c (\<lambda>_. False) s s'"
proof -
  obtain s' where s': "xs_step (OpReserve now) s = Some s'" "publishes i c (\<lambda>_. False) s s'"
    by (rule step_publishes [OF assms, of "OpReserve now"]) (auto elim: publishes_mono)
  then obtain k where "reserveCandidate now (Some s) = Some (k, Some s')" by (auto simp: bind_eq_Some_conv)
  with s'(2) show ?thesis by blast
qed

definition published_decoded :: "bool \<Rightarrow> uint16 \<Rightarrow> error + Msg \<Rightarrow> error option \<Rightarrow> Msg \<Rightarrow> bool" where
  "published_decoded udp i v err r \<longleftrightarrow> err = None \<and> (\<exists>m. v = Inr m \<and> r = m\<lparr>m_Id := i\<rparr> \<and> (udp \<longrightarrow> \<not> m_Truncated m))"

lemma Decoded_spec:
  assumes "m_Question req \<noteq> []" "xs_inv i c s"
  shows "\<exists>err s'. Decoded req udp k now v (Some s) = Some (err, Some s') \<and> Decoded req udp 0 now v None = Some (err, None) \<and>
    (err = None \<longrightarrow> (\<exists>m. v = Inr m \<and> m_Id m = m_Id req \<and> validateResponse req m = Some None)) \<and>
    publishes i c (published_decoded udp i v err) s s'"
proof -
  obtain s1 where 1: "xs_reject k now (Some s) = Some (Some s1)" "publishes i c (\<lambda>_. False) s s1"
    using reject_publishes [OF assms(2)] by blast
  have rej: "publishes i c P s s1" for P by (rule publishes_mono [OF 1(2)]) simp
  have none: "xs_reject 0 now None = Some None" "xs_accept 0 m None = Some None" for m by (simp_all add: xs_reject_def xs_accept_def)
  show ?thesis
  proof (cases v)
    case (Inl e)
    with 1(1) none rej show ?thesis by (simp add: Decoded_def dk_verdict_def)
  next
    case (Inr m)
    obtain q where q: "validateResponse req m = Some q" using validateResponse_total [OF assms(1)] by blast
    define err where "err = (if \<not> m_Response m then Some errDNSProtocol else if m_Id m \<noteq> m_Id req then Some ErrId else q)"
    have v: "dk_verdict req v = Some err" using Inr q by (simp add: dk_verdict_def err_def)
    obtain s2 where 2: "xs_accept k m (Some s) = Some (Some s2)" "publishes i c (\<lambda>r. k \<noteq> 0 \<and> r = m\<lparr>m_Id := i\<rparr>) s s2"
      using accept_publishes [OF assms(2)] by blast
    have good: "err = None \<longrightarrow> (\<exists>m. v = Inr m \<and> m_Id m = m_Id req \<and> validateResponse req m = Some None)"
      using Inr q by (auto simp: err_def)
    show ?thesis
    proof (cases "err \<noteq> None \<or> udp \<and> m_Truncated m")
      case True
      then have "Decoded req udp k now v (Some s) = Some (err, Some s1)" "Decoded req udp 0 now v None = Some (err, None)"
        using Inr v 1(1) none by (auto simp: Decoded_def)
      with good rej show ?thesis by blast
    next
      case False
      then have "Decoded req udp k now v (Some s) = Some (err, Some s2)" "Decoded req udp 0 now v None = Some (err, None)"
        using Inr v 2(1) none by (auto simp: Decoded_def)
      moreover have "publishes i c (published_decoded udp i v err) s s2"
        by (rule publishes_mono [OF 2(2)]) (use False Inr in \<open>auto simp: published_decoded_def\<close>)
      ultimately show ?thesis using good by blast
    qed
  qed
qed

text \<open>One attempt over UDP or TCP: over UDP a truncated response is not published.\<close>

definition published_attempt :: "bool \<Rightarrow> Msg option \<Rightarrow> Msg \<Rightarrow> bool" where
  "published_attempt udp resp r \<longleftrightarrow> resp = Some r \<and> (udp \<longrightarrow> \<not> m_Truncated r)"

lemma ExchangeConnContext_spec:
  assumes "dnscrypt_inv p" "info_ok p info" "m_Question req \<noteq> []" "xs_inv (m_Id req) c s"
  shows "\<exists>resp err s'. ExchangeConnContext p proto req info (Some s) = Some (resp, err, Some s') \<and>
    ExchangeConnContext p proto req info None = Some (resp, err, None) \<and> good_attempt req resp err \<and>
    publishes (m_Id req) c (published_attempt (proto = DcUDP) resp) s s'"
proof -
  let ?sk = "dk_socket p proto" and ?max = "maxQuerySize proto (dk_udpSize p)"
  have key: "length (ri_SharedKey info) = KeySize" "length (dk_rnd p proto) = 4"
    using assms(1,2) by (simp_all add: info_ok_def dnscrypt_inv_def)
  obtain q where q: "cl_encrypt (dk_lib p) (dk_crypto p) (dk_nonceTime p) (dk_rnd p proto) ?max req info = Some q"
    using cl_encrypt_total [OF key(2,1)] by blast
  obtain b where b: "readResponse proto (dk_udpSize p) ?sk = Some b" using readResponse_total by blast
  have fail: "?thesis" if "ExchangeConnContext p proto req info = (\<lambda>so. Some (None, Some e, so))" for e
    using that publishes_refl [OF assms(4)] by (simp add: good_attempt_def)
  consider e where "sk_ctxErr ?sk = Some e"
    | e where "sk_ctxErr ?sk = None" "q = Inl e"
    | query n e where "sk_ctxErr ?sk = None" "q = Inr (query, n)" "writeQuery proto ?sk query = Some e"
    | query n e where "sk_ctxErr ?sk = None" "q = Inr (query, n)" "writeQuery proto ?sk query = None" "b = Inl e"
    | query n wire where "sk_ctxErr ?sk = None" "q = Inr (query, n)" "writeQuery proto ?sk query = None" "b = Inr wire"
    by (metis option.exhaust sum.exhaust surj_pair)
  then show ?thesis
  proof cases
    case (5 query n wire)
    obtain v where v: "cl_decrypt (dk_lib p) (dk_crypto p) wire n info = Some v" using cl_decrypt_total [OF key(1)] by blast
    obtain s1 where 1: "group_calls (sk_before ?sk) (Some s) = Some (Some s1)" "publishes (m_Id req) c (\<lambda>_. False) s s1"
      using group_calls_publishes [OF assms(4)] by blast
    obtain k s2 where 2: "reserveCandidate (sk_now ?sk) (Some s1) = Some (k, Some s2)" "publishes (m_Id req) c (\<lambda>_. False) s1 s2"
      using reserveCandidate_publishes [OF publishes_inv [OF 1(2)]] by blast
    obtain s3 where 3: "group_calls (sk_during ?sk) (Some s2) = Some (Some s3)" "publishes (m_Id req) c (\<lambda>_. False) s2 s3"
      using group_calls_publishes [OF publishes_inv [OF 2(2)]] by blast
    have pub3: "publishes (m_Id req) c (\<lambda>_. False) s s3"
      using publishes_trans [OF publishes_trans [OF 1(2) 2(2)] 3(2)] by simp
    obtain err s4 where 4: "Decoded req (proto = DcUDP) k (sk_end ?sk) v (Some s3) = Some (err, Some s4)"
      "Decoded req (proto = DcUDP) 0 (sk_end ?sk) v None = Some (err, None)"
      "err = None \<longrightarrow> (\<exists>m. v = Inr m \<and> m_Id m = m_Id req \<and> validateResponse req m = Some None)"
      "publishes (m_Id req) c (published_decoded (proto = DcUDP) (m_Id req) v err) s3 s4"
      using Decoded_spec [OF assms(3) publishes_inv [OF pub3]] by blast
    have pub: "publishes (m_Id req) c (published_decoded (proto = DcUDP) (m_Id req) v err) s s4"
      using publishes_trans [OF pub3 4(4)] by simp
    have none: "reserveCandidate (sk_now ?sk) None = Some (0, None)" by (simp add: reserveCandidate_def)
    note run = 5 q b v 1(1) 2(1) 3(1) 4(1,2) none
    show ?thesis
    proof (cases err)
      case (Some e)
      have "publishes (m_Id req) c (published_attempt (proto = DcUDP) None) s s4"
        by (rule publishes_mono [OF pub]) (simp add: published_decoded_def Some)
      with run Some show ?thesis by (simp add: ExchangeConnContext_def good_attempt_def Let_def)
    next
      case None
      with 4(3) obtain m where m: "v = Inr m" "m_Id m = m_Id req" "validateResponse req m = Some None" by blast
      have "publishes (m_Id req) c (published_attempt (proto = DcUDP) (Some m)) s s4"
        by (rule publishes_mono [OF pub]) (auto simp: published_decoded_def published_attempt_def m)
      with run None m show ?thesis by (simp add: ExchangeConnContext_def good_attempt_def Let_def)
    qed
  qed (rule fail, simp add: ExchangeConnContext_def fun_eq_iff Let_def q b)+
qed

lemma ExchangeContext_spec:
  assumes "dnscrypt_inv p" "info_ok p info" "m_Question req \<noteq> []" "xs_inv (m_Id req) c s"
  shows "\<exists>resp err s'. ExchangeContext p proto req info (Some s) = Some (resp, err, Some s') \<and>
    ExchangeContext p proto req info None = Some (resp, err, None) \<and>
    (err = None \<longrightarrow> (\<exists>m. resp = Some m \<and> m_Id m = m_Id req \<and> validateResponse req m = Some None)) \<and>
    publishes (m_Id req) c (published_attempt (proto = DcUDP) resp) s s'"
proof (cases "sk_dial (dk_socket p proto)")
  case (Some e)
  with publishes_refl [OF assms(4)] show ?thesis by (simp add: ExchangeContext_def)
next
  case None
  obtain resp err s' where 1: "ExchangeConnContext p proto req info (Some s) = Some (resp, err, Some s')"
    "ExchangeConnContext p proto req info None = Some (resp, err, None)" "good_attempt req resp err"
    "publishes (m_Id req) c (published_attempt (proto = DcUDP) resp) s s'"
    using ExchangeConnContext_spec [OF assms] by blast
  let ?d = "sk_Close (dk_socket p proto)"
  show ?thesis
  proof (cases err)
    case (Some e)
    then have "resp = None" using 1(3) by (simp add: good_attempt_def)
    moreover obtain e' where "up_WithDeferred (dk_env p) (Some (ErrWrap ''exchanging'' e)) ?d = Some e'"
      using dnscrypt_deferred_None [OF assms(1), of "Some (ErrWrap ''exchanging'' e)" ?d] by blast
    ultimately show ?thesis using None Some 1 by (simp add: ExchangeContext_def)
  next
    case err: None
    then obtain m where m: "resp = Some m" "m_Id m = m_Id req" "validateResponse req m = Some None"
      using 1(3) by (auto simp: good_attempt_def)
    with None err 1 show ?thesis by (simp add: ExchangeContext_def)
  qed
qed

text \<open>The certificate that is used is one within its dates, signed by the provider.\<close>

lemma fetchCert_total: "\<exists>r. fetchCert V now pk proto s = Some r"
  by (auto simp: fetchCert_def parseAnswer_fold split: sum.splits)

lemma foldl_pick_mem: "foldl pick_cert a cs = Some c \<Longrightarrow> a = Some c \<or> c \<in> set cs"
proof (induction cs arbitrary: a)
  case (Cons x cs)
  have "pick_cert a x = Some x \<or> pick_cert a x = a" by (simp add: pick_cert_def split: option.splits)
  with Cons.IH [of "pick_cert a x"] Cons.prems show ?case by auto
qed simp

lemma fetchCert_valid:
  assumes "fetchCert V now pk proto s = Some (Inr cert)"
  shows "verifyDate cert now \<and> VerifySignature V cert pk"
proof -
  have "\<exists>r :: Msg. parseAnswer V now pk (map txt_of (m_Answer r)) None = Some (Some cert)"
    using assms by (auto simp: fetchCert_def bind_eq_Some_conv split: sum.splits if_splits option.splits)
  then obtain r :: Msg where "parseAnswer V now pk (map txt_of (m_Answer r)) None = Some (Some cert)" by blast
  then have "foldl pick_cert None (valid_certs V now pk (map txt_of (m_Answer r))) = Some cert" by (simp add: parseAnswer_fold)
  then have "cert \<in> set (valid_certs V now pk (map txt_of (m_Answer r)))" using foldl_pick_mem by fastforce
  then show ?thesis by (auto simp: valid_certs_def verifyCert_def split: if_splits)
qed

lemma DialContext_Inr:
  assumes "DialContext p = Some (Inr info)"
  shows "\<exists>pk cert. dk_stamp p = Inr (True, pk) \<and>
    fetchCert (dk_ed_Verify p) (dk_unix p) pk DcUDP (dk_certSocket p) = Some (Inr cert) \<and>
    DialStampContext (dk_crypto p) (dk_secretKey p) (Inr cert) = Inr info"
proof (cases "dk_stamp p")
  case (Inr x)
  obtain a pk where x: "x = (a, pk)" by (cases x)
  obtain f where f: "fetchCert (dk_ed_Verify p) (dk_unix p) pk DcUDP (dk_certSocket p) = Some f" using fetchCert_total by metis
  with assms Inr x have "a" "DialStampContext (dk_crypto p) (dk_secretKey p) f = Inr info"
    by (auto simp: DialContext_def split: if_splits)
  with Inr x f show ?thesis by (cases f) (simp_all add: DialStampContext_def)
qed (use assms in \<open>simp add: DialContext_def\<close>)

lemma certificate_spec:
  assumes "dnscrypt_inv p"
  obtains r x where "certificate p = Some (r, p\<lparr>dk_resolverInfo := x\<rparr>)" "dnscrypt_inv (p\<lparr>dk_resolverInfo := x\<rparr>)"
    "\<forall>info. r = Inr info \<longrightarrow> info_ok p info \<and> verifyDate (ri_ResolverCert info) (dk_unix p)"
proof (cases "dk_ctxErr p \<noteq> None \<or> currentCertificate p \<noteq> None \<or> dk_refreshErr p \<noteq> None")
  case True
  have "info_ok p info \<and> verifyDate (ri_ResolverCert info) (dk_unix p)" if "currentCertificate p = Some info" for info
    using that assms by (auto simp: currentCertificate_def dnscrypt_inv_def split: option.splits if_splits)
  then show ?thesis using True assms that [of _ "dk_resolverInfo p"]
    by (cases "dk_ctxErr p"; cases "currentCertificate p") (auto simp: certificate_def)
next
  case False
  have "\<exists>r. DialContext p = Some r"
  proof (cases "dk_stamp p")
    case (Inr x)
    obtain a pk where x: "x = (a, pk)" by (cases x)
    obtain f where "fetchCert (dk_ed_Verify p) (dk_unix p) pk DcUDP (dk_certSocket p) = Some f" using fetchCert_total by metis
    with Inr x show ?thesis by (simp add: DialContext_def)
  qed (simp add: DialContext_def)
  then obtain r where r: "DialContext p = Some r" by blast
  have ok: "info_ok p info \<and> verifyDate (ri_ResolverCert info) (dk_unix p)" if ri: "r = Inr info" for info
  proof -
    obtain pk cert where c: "dk_stamp p = Inr (True, pk)" "fetchCert (dk_ed_Verify p) (dk_unix p) pk DcUDP (dk_certSocket p) = Some (Inr cert)"
      and d: "DialStampContext (dk_crypto p) (dk_secretKey p) (Inr cert) = Inr info"
      using DialContext_Inr [OF r [unfolded ri]] by blast
    obtain k where k: "computeSharedKey (dk_crypto p) (ESVersion cert) (dk_secretKey p) (ResolverPk cert) = Inr k"
      "ri_ResolverCert info = cert" "ri_SharedKey info = k"
      using d by (auto simp: DialStampContext_def split: sum.splits)
    have "crypto_law (dk_crypto p)" using assms by (simp add: dnscrypt_inv_def)
    then have "length k = KeySize" using length_computeSharedKey(1) k(1) by blast
    with c k fetchCert_valid [OF c(2)] show ?thesis by (simp add: info_ok_def)
  qed
  show ?thesis
  proof (cases "\<exists>info. r = Inr info \<and> dk_verifyCert p (ri_ResolverCert info) = None")
    case True
    then obtain info where info: "r = Inr info" "dk_verifyCert p (ri_ResolverCert info) = None" by blast
    then have "certificate p = Some (Inr info, p\<lparr>dk_resolverInfo := Some info\<rparr>)" using False r by (simp add: certificate_def)
    moreover have "dnscrypt_inv (p\<lparr>dk_resolverInfo := Some info\<rparr>)"
      using assms ok [OF info(1)] by (simp add: dnscrypt_inv_def info_ok_def)
    ultimately show ?thesis using that [of "Inr info" "Some info"] ok [OF info(1)] by simp
  next
    case no: False
    then have "\<exists>e. certificate p = Some (Inl e, p\<lparr>dk_resolverInfo := dk_resolverInfo p\<rparr>)"
      using False r by (cases r) (auto simp: certificate_def)
    then show ?thesis using assms that [of _ "dk_resolverInfo p"] by auto
  qed
qed

lemma dnscrypt_body_gives:
  assumes "dnscrypt_inv p" "m_Question req \<noteq> []" "xs_inv (m_Id req) c s"
  shows "exchange_gives dnscrypt_inv req c s (dnscrypt_body p req)"
proof -
  obtain r x where 1: "certificate p = Some (r, p\<lparr>dk_resolverInfo := x\<rparr>)" "dnscrypt_inv (p\<lparr>dk_resolverInfo := x\<rparr>)"
    "\<forall>info. r = Inr info \<longrightarrow> info_ok p info \<and> verifyDate (ri_ResolverCert info) (dk_unix p)"
    using certificate_spec [OF assms(1)] .
  let ?p = "p\<lparr>dk_resolverInfo := x\<rparr>"
  show ?thesis
  proof (cases r)
    case (Inl e)
    show ?thesis
      by (rule gives_error [of _ s e s ?p]) (use 1 Inl publishes_refl [OF assms(3)] in \<open>simp_all add: dnscrypt_body_def\<close>)
  next
    case (Inr info)
    have ok: "info_ok ?p info" using 1(3) Inr by (simp add: info_ok_def)
    obtain resp err s1 where 2: "ExchangeContext ?p DcUDP req info (Some s) = Some (resp, err, Some s1)"
      "ExchangeContext ?p DcUDP req info None = Some (resp, err, None)"
      "err = None \<longrightarrow> (\<exists>m. resp = Some m \<and> m_Id m = m_Id req \<and> validateResponse req m = Some None)"
      "publishes (m_Id req) c (published_attempt True resp) s s1"
      using ExchangeContext_spec [OF 1(2) ok assms(2,3), of DcUDP] by auto
    show ?thesis
    proof (cases "err = None \<and> (case resp of None \<Rightarrow> False | Some m \<Rightarrow> m_Truncated m)")
      case False
      then have "dnscrypt_body p req (Some s) = Some (resp, err, Some s1, ?p)" "dnscrypt_body p req None = Some (resp, err, None, ?p)"
        using 1(1) Inr 2(1,2) by (simp_all add: dnscrypt_body_def del: de_Morgan_conj)
      moreover have "publishes (m_Id req) c (\<lambda>r. resp = Some r) s s1"
        by (rule publishes_mono [OF 2(4)]) (simp add: published_attempt_def)
      ultimately show ?thesis unfolding exchange_gives_def using 1(2) 2(3) by blast
    next
      case True
      have no: "publishes (m_Id req) c (\<lambda>_. False) s s1"
        by (rule publishes_mono [OF 2(4)]) (use True in \<open>auto simp: published_attempt_def\<close>)
      obtain resp2 err2 s2 where 3: "ExchangeContext ?p DcTCP req info (Some s1) = Some (resp2, err2, Some s2)"
        "ExchangeContext ?p DcTCP req info None = Some (resp2, err2, None)"
        "err2 = None \<longrightarrow> (\<exists>m. resp2 = Some m \<and> m_Id m = m_Id req \<and> validateResponse req m = Some None)"
        "publishes (m_Id req) c (published_attempt False resp2) s1 s2"
        using ExchangeContext_spec [OF 1(2) ok assms(2) publishes_inv [OF no], of DcTCP] by auto
      obtain q where "go_index (m_Question req) 0 = Some q" using assms(2) by (auto simp: go_index_def)
      then have "dnscrypt_body p req (Some s) = Some (resp2, err2, Some s2, ?p)" "dnscrypt_body p req None = Some (resp2, err2, None, ?p)"
        using 1(1) Inr 2(1,2) 3(1,2) True by (simp_all add: dnscrypt_body_def)
      moreover have "publishes (m_Id req) c (\<lambda>r. False \<or> published_attempt False resp2 r) s s2"
        by (rule publishes_trans [OF no 3(4)])
      then have "publishes (m_Id req) c (\<lambda>r. resp2 = Some r) s s2"
        by (rule publishes_mono) (simp add: published_attempt_def)
      ultimately show ?thesis unfolding exchange_gives_def using 1(2) 3(3) by blast
    qed
  qed
qed

interpretation dnscrypt: validating_upstream dnscrypt_body dnscrypt_inv
  by unfold_locales (use dnscrypt_body_gives in \<open>unfold exchange_gives_def validated_def, blast\<close>)


text \<open>An upstream that keeps a valid certificate and answers over UDP.\<close>

definition sample_info :: ResolverInfo where
  "sample_info = \<lparr> ri_ResolverCert = sample_cert, ri_SharedKey = replicate 32 2, ri_SecretKey = replicate 32 9, ri_PublicKey = replicate 32 9 \<rparr>"

definition sample_socket :: dnscrypt_socket where
  "sample_socket = \<lparr> sk_ctxErr = None, sk_dial = None, sk_Write = None,
     sk_datagram = Inr (resolverMagic @ (put_uint64 5 @ [1, 2, 3, 4]) @ replicate 12 9 @ replicate 16 3 @ replicate 20 1 @ [0x80]),
     sk_stream = [], sk_Close = None, sk_before = [], sk_now = 3, sk_during = [GroupExpire], sk_end = 4 \<rparr>"

definition sample_dnscrypt :: dnsCrypt where
  "sample_dnscrypt = \<lparr> dk_lib = (sample_lib sample_resp)\<lparr>lib_Pack := (\<lambda>_. Some (replicate 20 1)), lib_Unpack := (\<lambda>_. Some sample_resp)\<rparr>,
     dk_crypto = sample_crypto, dk_env = sample_conn_env, dk_ed_Verify = (\<lambda>_ _ _. True), dk_stamp = Inr (True, []),
     dk_certSocket = \<lparr> cs_dial = None, cs_SetDeadline = None, cs_WriteMsg = None, cs_queryId = 0, cs_reads = [] \<rparr>,
     dk_secretKey = replicate 32 9, dk_verifyCert = (\<lambda>_. None), dk_unix = 15, dk_nonceTime = 5, dk_rnd = (\<lambda>_. [1, 2, 3, 4]),
     dk_udpSize = 512, dk_ctxErr = None, dk_refreshErr = None, dk_socket = (\<lambda>_. sample_socket), dk_resolverInfo = Some sample_info \<rparr>"

lemma sample_dnscrypt_inv: "dnscrypt_inv sample_dnscrypt"
  using sample_crypto_law
  by (auto simp: dnscrypt_inv_def info_ok_def sample_dnscrypt_def sample_info_def sample_conn_env_def KeySize_def VerifySignature_def
      split: option.splits)

lemma sample_cl_encrypt:
  "\<exists>query. cl_encrypt (dk_lib sample_dnscrypt) (dk_crypto sample_dnscrypt) 5 [1, 2, 3, 4] 512 m sample_info =
     Some (Inr (query, put_uint64 5 @ [1, 2, 3, 4] @ replicate 12 0))"
  by (simp add: cl_encrypt_def eq_encrypt_def sample_dnscrypt_def sample_info_def seal_es_def sample_cert_def sample_crypto_def
      XSalsa20Poly1305_def XChacha20Poly1305_def length_pad nonceSize_def zero_Certificate_def TagSize_def KeySize_def Let_def)

lemma sample_cl_decrypt:
  "cl_decrypt (dk_lib sample_dnscrypt) (dk_crypto sample_dnscrypt)
     (resolverMagic @ (put_uint64 5 @ [1, 2, 3, 4]) @ replicate 12 9 @ replicate 16 3 @ replicate 20 1 @ [0x80])
     (put_uint64 5 @ [1, 2, 3, 4] @ replicate 12 0) sample_info = Some (Inr sample_resp)"
proof -
  have "unpad (replicate 20 1 @ [0x80]) = Inr (replicate 20 (1 :: byte))"
    using unpad_zeros [of "replicate 20 1" 0 0] by (simp add: unpad_def)
  then show ?thesis
    by (simp add: cl_decrypt_def er_decrypt_def open_es_def sample_dnscrypt_def sample_info_def sample_cert_def sample_crypto_def
        resolverMagic_def resolverMagicSize_def nonceSize_def TagSize_def minDNSPacketSize_def XSalsa20Poly1305_def
        XChacha20Poly1305_def zero_Certificate_def Let_def)
qed


end
