(* ===== verification/Request_Pipeline.thy ===== *)
theory Request_Pipeline
  imports Proxy_Resolve
begin

text \<open>
  The way of a request from a listener to its response: validation and
  processing (\<^verbatim>\<open>proxy/server.go\<close>, \<^verbatim>\<open>validateRequest\<close> of \<^verbatim>\<open>proxy/proxy.go\<close>), the
  rate limiter (\<^verbatim>\<open>ratelimit/\<close>), the default middleware with hosts files
  (\<^verbatim>\<open>internal/middleware/\<close>) and the retries of a listener
  (\<^verbatim>\<open>proxy/retry.go\<close>).  A handler is a function on the context and a state; what the
  listeners write is the list of contexts given to \<^verbatim>\<open>respond\<close>.
\<close>

subsection \<open>Handlers\<close>

type_synonym ('u, 's) handler = "'u DNSContext \<Rightarrow> 's \<Rightarrow> (error option \<times> 'u DNSContext \<times> 's) go"

text \<open>\<^verbatim>\<open>errors.Join\<close> of two errors that may be nil.\<close>

definition join2 :: "error option \<Rightarrow> error option \<Rightarrow> error option" where
  "join2 a b = errors_Join (List.map_filter (\<lambda>e. e) [a, b])"

definition is_drop :: "error option \<Rightarrow> bool" where
  "is_drop e = (case e of None \<Rightarrow> False | Some err \<Rightarrow> errors_Is ErrDrop err)"

subsection \<open>Validation\<close>

definition validateRequest ::
  "('u, 'c) proxy_env \<Rightarrow> 'u DNSContext \<Rightarrow> ('u, 'c) Proxy \<Rightarrow>
     (Msg option \<times> 'u DNSContext \<times> ('u, 'c) Proxy) go" where
  "validateRequest E d p =
     (if length (m_Question (Req d)) \<noteq> 1 then Some (Some (NewMsgFORMERR (pe_lib E) (Req d)), d, p)
      else do {
        q \<leftarrow> go_index (m_Question (Req d)) 0;
        if px_refuseAny p \<and> q_Qtype q = TypeANY then Some (Some (NewMsgNOTIMPLEMENTED (pe_lib E) (Req d)), d, p)
        else do {
          (found, rd) \<leftarrow> rd_check (pe_gl E) (px_recDetector p) (pe_now E) (Req d);
          let p = p\<lparr>px_recDetector := rd\<rparr>;
          if found then Some (Some (NewMsgNXDOMAIN (pe_lib E) (Req d)), d, p)
          else do {
            (forbidden, d) \<leftarrow> isForbiddenARPA (pe_extract E) (pe_privateNets E) d;
            Some (if forbidden then Some (NewMsgNXDOMAIN (pe_lib E) (Req d)) else None, d, p) } } })"

subsection \<open>Processing\<close>

text \<open>\<^verbatim>\<open>write\<close> stands for the writers of the protocols.\<close>

definition respond :: "('u DNSContext \<Rightarrow> error option) \<Rightarrow> 'u DNSContext \<Rightarrow> error option" where
  "respond write d = (case CtxProto d of
      ProtoOther _ \<Rightarrow> Some (ErrMsg ''SHOULD NOT HAPPEN - unknown protocol'')
    | _ \<Rightarrow> write d)"

definition processDNSRequest ::
  "('u, 'c) proxy_env \<Rightarrow> ('u, ('u, 'c) Proxy) handler \<Rightarrow> ('u, ('u, 'c) Proxy) handler option \<Rightarrow>
     ('u DNSContext \<Rightarrow> error option) \<Rightarrow> ('u, ('u, 'c) Proxy \<times> 'u DNSContext list) handler" where
  "processDNSRequest E requestHandler responseHandler write d s =
     (if m_Response (Req d) then Some (Some ErrDrop, d, s)
      else do {
        let (p, written) = s;
        let d = d\<lparr>IsPrivateClient := pe_privateNets E (ap_Addr (ClientAddr d))\<rparr>;
        (d, p) \<leftarrow> (case Res d of
            None \<Rightarrow> do { (res, d, p) \<leftarrow> validateRequest E d p; Some (d\<lparr>Res := res\<rparr>, p) }
          | Some _ \<Rightarrow> Some (d, p));
        (err, d, p) \<leftarrow> (if Res d = None then requestHandler d p else Some (None, d, p));
        if is_drop err then Some (Some ErrDrop, d, (p, written))
        else do {
          (prepareErr, d, p) \<leftarrow> (case responseHandler of None \<Rightarrow> Some (None, d, p) | Some h \<Rightarrow> h d p);
          if is_drop prepareErr then Some (Some ErrDrop, d, (p, written))
          else
            let err = (case responseHandler of None \<Rightarrow> err | Some _ \<Rightarrow> join2 err prepareErr)
            in Some (join2 err (respond write d), d, (p, written @ [d])) } })"

definition handleDNSRequest :: "('u, 's) handler \<Rightarrow> ('u, 's) handler" where
  "handleDNSRequest requestPipeline d s = do {
     (err, d, s) \<leftarrow> requestPipeline d s;
     Some (if is_drop err then None else err, d, s) }"

subsection \<open>Rate limiting\<close>

record rl_Config =
  cfg_AllowlistAddrs :: "Prefix list"
  cfg_Ratelimit :: nat
  cfg_SubnetLenIPv4 :: nat
  cfg_SubnetLenIPv6 :: nat

text \<open>\<^verbatim>\<open>Positive\<close> and \<^verbatim>\<open>NoGreaterThan\<close> report the name of the property and its value.\<close>

definition rl_Validate :: "rl_Config option \<Rightarrow> error option" where
  "rl_Validate co = (case co of
      None \<Rightarrow> Some ErrNoValue
    | Some c \<Rightarrow> errors_Join
        ((if cfg_Ratelimit c > 0 then [] else [ErrMsg ''Ratelimit: not positive'']) @
         (if cfg_SubnetLenIPv4 c \<le> 32 then [] else [ErrMsg ''SubnetLenIPv4: out of range'']) @
         (if cfg_SubnetLenIPv6 c \<le> 128 then [] else [ErrMsg ''SubnetLenIPv4: out of range''])))"

text \<open>The limiter library, the expiring cache of limiters and the text form of addresses are arguments.\<close>

record ('b, 'l) rate_env =
  rl_New :: "nat \<Rightarrow> 'l"
  rl_Try :: "'l \<Rightarrow> bool \<times> 'l"
  bk_Get :: "'b \<Rightarrow> string \<Rightarrow> 'l option"
  bk_Set :: "'b \<Rightarrow> string \<Rightarrow> 'l \<Rightarrow> 'b"
  bk_Mutate :: "'b \<Rightarrow> string \<Rightarrow> 'l \<Rightarrow> 'b"
  addr_String :: "Addr \<Rightarrow> string"
  rl_Contains :: "Prefix list \<Rightarrow> Addr \<Rightarrow> bool"

definition limiterForIP :: "('b, 'l) rate_env \<Rightarrow> rl_Config \<Rightarrow> 'b \<Rightarrow> string \<Rightarrow> 'l \<times> 'b" where
  "limiterForIP R c b ip = (case bk_Get R b ip of
      Some rl \<Rightarrow> (rl, b)
    | None \<Rightarrow> let rl = rl_New R (cfg_Ratelimit c) in (rl, bk_Set R b ip rl))"

text \<open>\<^verbatim>\<open>Masked\<close> gives the zero prefix when the length is out of range.\<close>

definition client_prefix :: "rl_Config \<Rightarrow> Addr \<Rightarrow> Prefix" where
  "client_prefix c addr =
     (let bits = (case addr of Addr4 _ \<Rightarrow> cfg_SubnetLenIPv4 c | _ \<Rightarrow> cfg_SubnetLenIPv6 c) in
      if (case addr of AddrZero \<Rightarrow> False | Addr4 _ \<Rightarrow> bits \<le> 32 | Addr6 _ \<Rightarrow> bits \<le> 128)
      then Masked \<lparr> pfx_Addr = addr, pfx_Bits = bits \<rparr>
      else \<lparr> pfx_Addr = AddrZero, pfx_Bits = 0 \<rparr>)"

text \<open>
  The cache holds a pointer to a limiter, so a try changes what is stored without
  setting the entry anew.  Zones are not modelled.
\<close>

definition isRatelimited :: "('b, 'l) rate_env \<Rightarrow> rl_Config \<Rightarrow> 'b \<Rightarrow> Addr \<Rightarrow> bool \<times> 'b" where
  "isRatelimited R c b addr =
     (let addr = Unmap addr in
      if rl_Contains R (cfg_AllowlistAddrs c) addr then (False, b)
      else let ipStr = addr_String R (pfx_Addr (client_prefix c addr));
               (rl, b) = limiterForIP R c b ipStr;
               (allow, rl) = rl_Try R rl
           in (\<not> allow, bk_Mutate R b ipStr rl))"

definition rl_Wrap :: "('b, 'l) rate_env \<Rightarrow> rl_Config \<Rightarrow> ('u, 's) handler \<Rightarrow> ('u, 'b \<times> 's) handler" where
  "rl_Wrap R c h d bs =
     (let (b, s) = bs;
          (limited, b) = (if CtxProto d = ProtoUDP then isRatelimited R c b (ap_Addr (ClientAddr d)) else (False, b))
      in if limited then Some (Some ErrDrop, d, (b, s))
         else do { (err, d, s) \<leftarrow> h d s; Some (err, d, (b, s)) })"

subsection \<open>The default middleware\<close>

definition defaultResponseTTL :: uint32 where "defaultResponseTTL = 10"

definition hdr :: "string \<Rightarrow> uint16 \<Rightarrow> RR_Header" where
  "hdr name rrType = \<lparr> h_Name = name, h_Rrtype = rrType, h_Class = ClassINET, h_Ttl = defaultResponseTTL \<rparr>"

definition NewCompressedResponse :: "dnslib \<Rightarrow> Msg \<Rightarrow> nat \<Rightarrow> Msg" where
  "NewCompressedResponse L req code = (reply L req code)\<lparr>m_Compress := True\<rparr>"

definition NewPTRAnswer :: "dnslib \<Rightarrow> string \<Rightarrow> string \<Rightarrow> RR" where
  "NewPTRAnswer L fqdn ptrFQDN = \<lparr> rr_Hdr = hdr fqdn TypePTR, rr_Data = RD_PTR (lib_Fqdn L ptrFQDN) \<rparr>"

definition newAnswerA :: "Msg \<Rightarrow> Addr \<Rightarrow> RR go" where
  "newAnswerA req ip = do { q \<leftarrow> go_index (m_Question req) 0;
     Some \<lparr> rr_Hdr = hdr (q_Name q) TypeA, rr_Data = RD_A (Some (AsSlice ip)) \<rparr> }"

definition newAnswerAAAA :: "Msg \<Rightarrow> Addr \<Rightarrow> RR go" where
  "newAnswerAAAA req ip = do { q \<leftarrow> go_index (m_Question req) 0;
     Some \<lparr> rr_Hdr = hdr (q_Name q) TypeAAAA, rr_Data = RD_AAAA (Some (AsSlice ip)) \<rparr> }"

definition Is4 :: "Addr \<Rightarrow> bool" where
  "Is4 a = (case a of Addr4 _ \<Rightarrow> True | _ \<Rightarrow> False)"

fun genAnswersWithIPv4s :: "Msg \<Rightarrow> Addr list \<Rightarrow> RR list \<Rightarrow> RR list go" where
  "genAnswersWithIPv4s req [] ans = Some ans"
| "genAnswersWithIPv4s req (ip # ips) ans =
     (if \<not> Is4 ip then Some []
      else do { a \<leftarrow> newAnswerA req ip; genAnswersWithIPv4s req ips (ans @ [a]) })"

fun genAnswersAAAA :: "Msg \<Rightarrow> Addr list \<Rightarrow> RR list go" where
  "genAnswersAAAA req [] = Some []"
| "genAnswersAAAA req (ip # ips) = do {
     rest \<leftarrow> genAnswersAAAA req ips;
     if Is6 ip then do { a \<leftarrow> newAnswerAAAA req ip; Some (a # rest) } else Some rest }"

definition NewIPResponse :: "dnslib \<Rightarrow> Msg \<Rightarrow> Addr list \<Rightarrow> Msg go" where
  "NewIPResponse L req ips = do {
     q \<leftarrow> go_index (m_Question req) 0;
     ans \<leftarrow> (if q_Qtype q = TypeA then genAnswersWithIPv4s req ips []
             else if q_Qtype q = TypeAAAA then genAnswersAAAA req ips else Some []);
     Some ((NewCompressedResponse L req RcodeSuccess)\<lparr>m_Answer := ans\<rparr>) }"

text \<open>The hosts storage and the reversed names are arguments.\<close>

record hosts =
  ByName :: "string \<Rightarrow> Addr list"
  ByAddr :: "Addr \<Rightarrow> string list"

definition TrimSuffix_dot :: "string \<Rightarrow> string" where
  "TrimSuffix_dot s = (if s \<noteq> '''' \<and> last s = CHR ''.'' then butlast s else s)"

definition resolveFromHosts :: "dnslib \<Rightarrow> hosts \<Rightarrow> (string \<Rightarrow> Addr option) \<Rightarrow> Msg \<Rightarrow> Msg option go" where
  "resolveFromHosts L H reversed req = do {
     q \<leftarrow> go_index (m_Question req) 0;
     let name = TrimSuffix_dot (q_Name q);
         found = (if q_Qtype q = TypeA then Some (filter (\<lambda>a. \<not> Is6 a) (ByName H name), [])
                  else if q_Qtype q = TypeAAAA then Some (filter (\<lambda>a. \<not> Is4 a) (ByName H name), [])
                  else if q_Qtype q = TypePTR then map_option (\<lambda>addr. ([], ByAddr H addr)) (reversed name)
                  else None)
     in case found of
         None \<Rightarrow> Some None
       | Some (addrs, ptrs) \<Rightarrow>
           if addrs \<noteq> [] then map_option Some (NewIPResponse L req addrs)
           else if ptrs \<noteq> [] then
             Some (Some ((NewCompressedResponse L req RcodeSuccess)
               \<lparr>m_Answer := map (\<lambda>ptr. NewPTRAnswer L (q_Name q) (lib_Fqdn L ptr)) ptrs\<rparr>))
           else Some None }"

definition haltAAAA :: "dnslib \<Rightarrow> bool \<Rightarrow> Msg \<Rightarrow> Msg option go" where
  "haltAAAA L haltIPv6 req =
     (if \<not> haltIPv6 then Some None
      else do {
        q \<leftarrow> go_index (m_Question req) 0;
        if q_Qtype q = TypeAAAA then map_option Some (NewMsgNODATA L req) else Some None })"

definition mw_Wrap ::
  "dnslib \<Rightarrow> hosts \<Rightarrow> (string \<Rightarrow> Addr option) \<Rightarrow> bool \<Rightarrow> ('u, 's) handler \<Rightarrow> ('u, 's) handler" where
  "mw_Wrap L H reversed haltIPv6 h d s = do {
     q \<leftarrow> go_index (m_Question (Req d)) 0;
     halt \<leftarrow> haltAAAA L haltIPv6 (Req d);
     let d = d\<lparr>Res := halt\<rparr>;
     if Res d \<noteq> None then Some (None, d, s)
     else do {
       res \<leftarrow> resolveFromHosts L H reversed (Req d);
       let d = d\<lparr>Res := res\<rparr>;
       if Res d \<noteq> None then Some (None, d, s) else h d s } }"

subsection \<open>The default handler\<close>

text \<open>
  \<^verbatim>\<open>DefaultHandler.ServeDNS\<close>: resolving a request that waits for no identical one; the
  refresh of an expired answer runs in the background.
\<close>

definition DefaultHandler_ServeDNS :: "('u, 'c) proxy_env \<Rightarrow> ('u, ('u, 'c) Proxy) handler" where
  "DefaultHandler_ServeDNS E d p =
     (let (works, d) = resolve_prepare E p d in do {
        (err, d, p, job) \<leftarrow> resolve_work E p works d;
        Some (err, d, p) })"

subsection \<open>Retries\<close>

text \<open>The outcomes of successive calls of \<^verbatim>\<open>bindFunc\<close> are a function of the attempt.\<close>

fun bind_retries :: "(nat \<Rightarrow> error option) \<Rightarrow> nat \<Rightarrow> nat \<Rightarrow> bool \<times> nat" where
  "bind_retries bindFunc attempt 0 = (False, attempt)"
| "bind_retries bindFunc attempt (Suc n) =
     (if bindFunc attempt = None then (True, Suc attempt) else bind_retries bindFunc (Suc attempt) n)"

text \<open>The error and the number of calls that were made.\<close>

definition bindWithRetry :: "nat \<Rightarrow> (nat \<Rightarrow> error option) \<Rightarrow> error option \<times> nat" where
  "bindWithRetry bindRetryCount bindFunc = (case bindFunc 0 of
      None \<Rightarrow> (None, 1)
    | Some err \<Rightarrow> (let (ok, n) = bind_retries bindFunc 1 bindRetryCount in (if ok then None else Some err, n)))"

subsection \<open>Validation and processing\<close>

text \<open>A reverse lookup of a private address.\<close>

definition forbidden_arpa :: "(string \<Rightarrow> error + Prefix) \<Rightarrow> (Addr \<Rightarrow> bool) \<Rightarrow> Question \<Rightarrow> bool" where
  "forbidden_arpa extract private q \<longleftrightarrow> (q_Qtype q = TypePTR \<or> q_Qtype q = TypeSOA \<or> q_Qtype q = TypeNS) \<and>
     (\<exists>pref. extract (q_Name q) = Inr pref \<and> private (pfx_Addr pref))"

text \<open>The response code of a request that is rejected, from the documentation of the checks.\<close>

definition reject_code :: "('u, 'c) proxy_env \<Rightarrow> 'u DNSContext \<Rightarrow> ('u, 'c) Proxy \<Rightarrow> nat option" where
  "reject_code E d p = (case m_Question (Req d) of
      [q] \<Rightarrow>
        if px_refuseAny p \<and> q_Qtype q = TypeANY then Some RcodeNotImplemented
        else if map_option fst (rd_check (pe_gl E) (px_recDetector p) (pe_now E) (Req d)) = Some True then Some RcodeNameError
        else if forbidden_arpa (pe_extract E) (pe_privateNets E) q \<and> \<not> pe_privateNets E (ap_Addr (ClientAddr d))
        then Some RcodeNameError
        else None
    | _ \<Rightarrow> Some RcodeFormatError)"

definition rejects :: "Msg \<Rightarrow> nat \<Rightarrow> Msg \<Rightarrow> bool" where
  "rejects req c m \<longleftrightarrow> m_Rcode m = c \<and> m_Id m = m_Id req \<and> m_Response m \<and> m_Question m = take 1 (m_Question req)"

lemma error_replies_reject:
  assumes "env_ok E"
  shows "rejects req RcodeFormatError (NewMsgFORMERR (pe_lib E) req)"
    "rejects req RcodeNameError (NewMsgNXDOMAIN (pe_lib E) req)"
    "rejects req RcodeNotImplemented (NewMsgNOTIMPLEMENTED (pe_lib E) req)"
proof -
  obtain o' where "NewMsgNOTIMPLEMENTED (pe_lib E) req = (reply (pe_lib E) req RcodeNotImplemented)
      \<lparr>m_Extra := m_Extra (reply (pe_lib E) req RcodeNotImplemented) @ [o']\<rparr>"
    using SetEdns0_other_fields [OF env_okD(2) [OF assms]] unfolding NewMsgNOTIMPLEMENTED_def by blast
  then show "rejects req RcodeNotImplemented (NewMsgNOTIMPLEMENTED (pe_lib E) req)"
    using reply_fields [OF env_okD(1) [OF assms], of req] by (simp add: rejects_def)
qed (use reply_fields [OF env_okD(1) [OF assms], of req] in
      \<open>simp_all add: rejects_def NewMsgFORMERR_def NewMsgNXDOMAIN_def\<close>)

lemma isForbiddenARPA_spec:
  assumes "m_Question (Req d) = [q]"
  obtains x where "isForbiddenARPA extract private d =
    Some (forbidden_arpa extract private q \<and> \<not> IsPrivateClient d, d\<lparr>RequestedPrivateRDNS := x\<rparr>)"
proof (cases "forbidden_arpa extract private q")
  case True
  then obtain pref where "extract (q_Name q) = Inr pref" "private (pfx_Addr pref)"
    "q_Qtype q \<in> {TypePTR, TypeSOA, TypeNS}" unfolding forbidden_arpa_def by blast
  then have "isForbiddenARPA extract private d = Some (\<not> IsPrivateClient d, d\<lparr>RequestedPrivateRDNS := Some pref\<rparr>)"
    using assms unfolding isForbiddenARPA_def by (simp del: insert_iff add: go_index_def)
  then show ?thesis using True by (intro that [of "Some pref"]) simp
next
  case False
  have "isForbiddenARPA extract private d = Some (False, d)"
  proof (cases "q_Qtype q \<in> {TypePTR, TypeSOA, TypeNS}")
    case True
    with False have "\<And>pref. extract (q_Name q) = Inr pref \<Longrightarrow> \<not> private (pfx_Addr pref)"
      unfolding forbidden_arpa_def by blast
    with True assms show ?thesis
      unfolding isForbiddenARPA_def by (simp del: insert_iff add: go_index_def split: sum.split)
  qed (use assms in \<open>simp add: isForbiddenARPA_def go_index_def\<close>)
  moreover have "d\<lparr>RequestedPrivateRDNS := RequestedPrivateRDNS d\<rparr> = d" by simp
  ultimately show ?thesis using False by (intro that [of "RequestedPrivateRDNS d"]) simp
qed

lemma validateRequest_spec:
  assumes "env_ok E" "rd_ok (pe_gl E) (px_recDetector p)" "IsPrivateClient d = pe_privateNets E (ap_Addr (ClientAddr d))"
  shows "\<exists>res x rd. validateRequest E d p = Some (res, d\<lparr>RequestedPrivateRDNS := x\<rparr>, p\<lparr>px_recDetector := rd\<rparr>) \<and>
    (case reject_code E d p of
       None \<Rightarrow> res = None \<and> length (m_Question (Req d)) = 1
     | Some c \<Rightarrow> \<exists>m. res = Some m \<and> rejects (Req d) c m) \<and> rd_ok (pe_gl E) rd"
proof -
  let ?L = "pe_lib E" and ?x = "RequestedPrivateRDNS d" and ?rd = "px_recDetector p"
  have id: "p\<lparr>px_recDetector := px_recDetector p\<rparr> = p" "d\<lparr>RequestedPrivateRDNS := RequestedPrivateRDNS d\<rparr> = d" by simp_all
  note rej = error_replies_reject [OF assms(1), of "Req d"]
  consider (bad) "length (m_Question (Req d)) \<noteq> 1" | (one) q where "m_Question (Req d) = [q]"
    by (cases "m_Question (Req d)"; cases "tl (m_Question (Req d))") auto
  then show ?thesis
  proof cases
    case bad
    then have "reject_code E d p = Some RcodeFormatError" by (auto simp: reject_code_def split: list.splits)
    with bad rej(1) assms(2) show ?thesis
      by (intro exI [of _ "Some (NewMsgFORMERR ?L (Req d))"] exI [of _ ?x] exI [of _ ?rd])
        (simp add: validateRequest_def)
  next
    case one
    show ?thesis
    proof (cases "px_refuseAny p \<and> q_Qtype q = TypeANY")
      case True
      with one rej(3) assms(2) show ?thesis
        by (intro exI [of _ "Some (NewMsgNOTIMPLEMENTED ?L (Req d))"] exI [of _ ?x] exI [of _ ?rd])
          (simp add: validateRequest_def go_index_def reject_code_def)
    next
      case no_any: False
      obtain found rd where rd: "rd_check (pe_gl E) (px_recDetector p) (pe_now E) (Req d) = Some (found, rd)" "rd_ok (pe_gl E) rd"
        by (rule rd_check_total [OF env_okD(8) [OF assms(1)] assms(2)])
      define forbidden where "forbidden \<longleftrightarrow> forbidden_arpa (pe_extract E) (pe_privateNets E) q \<and> \<not> IsPrivateClient d"
      obtain x where arpa: "isForbiddenARPA (pe_extract E) (pe_privateNets E) d =
          Some (forbidden, d\<lparr>RequestedPrivateRDNS := x\<rparr>)"
        unfolding forbidden_def by (rule isForbiddenARPA_spec [OF one])
      have "validateRequest E d p = Some (if found \<or> forbidden then Some (NewMsgNXDOMAIN ?L (Req d)) else None,
          (if found then d else d\<lparr>RequestedPrivateRDNS := x\<rparr>), p\<lparr>px_recDetector := rd\<rparr>)"
        using one no_any rd(1) arpa by (cases found) (simp_all del: de_Morgan_conj add: validateRequest_def go_index_def)
      moreover have "(if found then d else d\<lparr>RequestedPrivateRDNS := x\<rparr>) = d\<lparr>RequestedPrivateRDNS := if found then ?x else x\<rparr>"
        by simp
      ultimately have val: "validateRequest E d p = Some (if found \<or> forbidden then Some (NewMsgNXDOMAIN ?L (Req d)) else None,
          d\<lparr>RequestedPrivateRDNS := if found then ?x else x\<rparr>, p\<lparr>px_recDetector := rd\<rparr>)" by (simp only:)
      have code: "reject_code E d p = (if found \<or> forbidden then Some RcodeNameError else None)"
        using one no_any rd(1) assms(3) by (simp del: de_Morgan_conj add: reject_code_def forbidden_def)
      show ?thesis
        by (rule exI, rule exI, rule exI, rule conjI, rule val) (use code one rej(2) rd(2) in simp)
    qed
  qed
qed

subsection \<open>Handlers that answer\<close>

text \<open>What a handler of valid requests promises: it never panics, keeps its state valid and answers.\<close>

definition fresh_ctx :: "'u DNSContext \<Rightarrow> bool" where
  "fresh_ctx d \<longleftrightarrow> udpSize d = 0 \<and> \<not> hasEDNS0 d \<and> \<not> doBit d \<and> Custom d = None"

lemma fresh_ctx_updates [simp]:
  "fresh_ctx (d\<lparr>Res := r\<rparr>) = fresh_ctx d" "fresh_ctx (d\<lparr>IsPrivateClient := b\<rparr>) = fresh_ctx d"
  "fresh_ctx (d\<lparr>RequestedPrivateRDNS := x\<rparr>) = fresh_ctx d"
  by (simp_all add: fresh_ctx_def)

locale answering_handler =
  fixes h :: "('u, 's) handler" and valid :: "'s \<Rightarrow> bool"
  assumes h_answers: "valid s \<Longrightarrow> fresh_ctx d \<Longrightarrow> length (m_Question (Req d)) = 1 \<Longrightarrow>
    \<exists>err d' s' res. h d s = Some (err, d', s') \<and> valid s' \<and> Res d' = Some res \<and> answers (Req d) res"

lemma genAnswersWithIPv4s_total: "m_Question req = [q] \<Longrightarrow> \<exists>ans'. genAnswersWithIPv4s req ips ans = Some ans'"
  by (induction req ips ans rule: genAnswersWithIPv4s.induct) (auto simp: newAnswerA_def go_index_def)

lemma genAnswersAAAA_total: "m_Question req = [q] \<Longrightarrow> \<exists>ans. genAnswersAAAA req ips = Some ans"
  by (induction ips) (auto simp: newAnswerAAAA_def go_index_def)

lemma compressed_answers:
  assumes "lib_reply_law L" "length (m_Question req) = 1"
  shows "answers req ((NewCompressedResponse L req code)\<lparr>m_Answer := ans\<rparr>)"
  using assms by (simp add: answers_def NewCompressedResponse_def reply_fields)

lemma NewIPResponse_answers:
  assumes "lib_reply_law L" "m_Question req = [q]"
  shows "\<exists>m. NewIPResponse L req ips = Some m \<and> answers req m"
proof -
  obtain ans where "(if q_Qtype q = TypeA then genAnswersWithIPv4s req ips []
      else if q_Qtype q = TypeAAAA then genAnswersAAAA req ips else Some []) = Some ans"
    using genAnswersWithIPv4s_total [OF assms(2), of ips "[]"] genAnswersAAAA_total [OF assms(2), of ips] by (metis (full_types))
  then have "NewIPResponse L req ips = Some ((NewCompressedResponse L req RcodeSuccess)\<lparr>m_Answer := ans\<rparr>)"
    using assms(2) unfolding NewIPResponse_def by (simp add: go_index_def)
  then show ?thesis using compressed_answers [OF assms(1)] assms(2) by simp
qed

lemma resolveFromHosts_answers:
  assumes "lib_reply_law L" "length (m_Question req) = 1"
  shows "\<exists>r. resolveFromHosts L H reversed req = Some r \<and> (\<forall>m. r = Some m \<longrightarrow> answers req m)"
proof -
  obtain q where q: "m_Question req = [q]" using assms(2) by (auto simp: length_1_conv)
  note ip = NewIPResponse_answers [OF assms(1) q]
  obtain m1 where m1: "NewIPResponse L req (filter (\<lambda>a. \<not> Is6 a) (ByName H (TrimSuffix_dot (q_Name q)))) = Some m1" "answers req m1"
    using ip by blast
  obtain m2 where m2: "NewIPResponse L req (filter (\<lambda>a. \<not> Is4 a) (ByName H (TrimSuffix_dot (q_Name q)))) = Some m2" "answers req m2"
    using ip by blast
  show ?thesis
    using q m1 m2 compressed_answers [OF assms]
    by (cases "reversed (TrimSuffix_dot (q_Name q))") (auto simp: resolveFromHosts_def go_index_def Let_def)
qed

lemma haltAAAA_answers:
  assumes "lib_reply_law L" "lib_SetEdns0_law L" "length (m_Question req) = 1"
  shows "\<exists>r. haltAAAA L halt req = Some r \<and> (\<forall>m. r = Some m \<longrightarrow> answers req m)"
proof -
  obtain m where "NewMsgNODATA L req = Some m" "answers req m"
    using default_constructor.nodata [of L req] assms by (auto simp: constructor_valid_def)
  with assms(3) show ?thesis by (auto simp: haltAAAA_def go_index_def length_1_conv)
qed

context answering_handler
begin

lemma mw_Wrap_answers:
  assumes "lib_reply_law L" "lib_SetEdns0_law L" "valid s" "fresh_ctx d" "length (m_Question (Req d)) = 1"
  shows "\<exists>err d' s' res. mw_Wrap L H reversed halt h d s = Some (err, d', s') \<and> valid s' \<and>
    Res d' = Some res \<and> answers (Req d) res"
proof -
  obtain q where q: "go_index (m_Question (Req d)) 0 = Some q" using assms(5) by (auto simp: go_index_def length_1_conv)
  obtain r1 where r1: "haltAAAA L halt (Req d) = Some r1" "\<forall>m. r1 = Some m \<longrightarrow> answers (Req d) m"
    using haltAAAA_answers [OF assms(1,2,5)] by blast
  obtain r2 where r2: "resolveFromHosts L H reversed (Req d) = Some r2" "\<forall>m. r2 = Some m \<longrightarrow> answers (Req d) m"
    using resolveFromHosts_answers [OF assms(1,5)] by blast
  have "\<exists>err d' s' res. h (d\<lparr>Res := None\<rparr>) s = Some (err, d', s') \<and> valid s' \<and> Res d' = Some res \<and> answers (Req d) res"
    using h_answers [of s "d\<lparr>Res := None\<rparr>"] assms(3-5) by simp
  then show ?thesis
    using q r1 r2 assms(3) by (cases r1; cases r2) (simp_all add: mw_Wrap_def)
qed

end

lemma DefaultHandler_answers:
  assumes "env_ok E" "proxy_inv E p" "fresh_ctx d" "length (m_Question (Req d)) = 1"
  shows "\<exists>err d' p' res. DefaultHandler_ServeDNS E d p = Some (err, d', p') \<and> proxy_inv E p' \<and>
    Res d' = Some res \<and> answers (Req d) res"
proof -
  obtain works d1 where prep: "resolve_prepare E p d = (works, d1)" by fastforce
  note frame = resolve_prepare_frame [OF env_okD(2) [OF assms(1)] prep]
  have ctx: "ctx_ok d1" using assms(3,4) frame(2,3) by (simp add: ctx_ok_def fresh_ctx_def)
  have "works \<longrightarrow> cache_at p (cacheForContext d1) \<noteq> None"
    using cacheWorks_cache [of p d1] frame(3,4) assms(3) by (simp add: fresh_ctx_def)
  from resolve_work_total [OF assms(1,2) ctx this] obtain err d' p' job res where
    "resolve_work E p works d1 = Some (err, d', p', job)" "proxy_inv E p'" "Res d' = Some res" "answers (Req d1) res"
    by blast
  with prep frame(1,2) show ?thesis by (simp add: DefaultHandler_ServeDNS_def answers_def)
qed

definition resolving_state :: "('u, 'c) proxy_env \<Rightarrow> ('u, 'c) Proxy \<Rightarrow> bool" where
  "resolving_state E p \<longleftrightarrow> env_ok E \<and> proxy_inv E p"

interpretation default_handler: answering_handler "DefaultHandler_ServeDNS E" "resolving_state E" for E
  by unfold_locales (use DefaultHandler_answers in \<open>unfold resolving_state_def, blast\<close>)

interpretation hosts_handler: answering_handler
  "mw_Wrap (pe_lib E) H reversed halt (DefaultHandler_ServeDNS E)" "resolving_state E" for E H reversed halt
proof unfold_locales
  fix s and d :: "'a DNSContext"
  assume a: "resolving_state E s" "fresh_ctx d" "length (m_Question (Req d)) = 1"
  then have "lib_reply_law (pe_lib E)" "lib_SetEdns0_law (pe_lib E)"
    using env_okD(1,2) by (auto simp: resolving_state_def)
  from default_handler.mw_Wrap_answers [OF this a]
  show "\<exists>err d' s' res. mw_Wrap (pe_lib E) H reversed halt (DefaultHandler_ServeDNS E) d s = Some (err, d', s') \<and>
    resolving_state E s' \<and> Res d' = Some res \<and> answers (Req d) res" .
qed

subsection \<open>From the listener to the writer\<close>

lemma reject_code_private [simp]: "reject_code E (d\<lparr>IsPrivateClient := b\<rparr>) p = reject_code E d p"
  by (simp add: reject_code_def cong: list.case_cong if_cong)

lemma processDNSRequest_rejected:
  assumes "env_ok E" "rd_ok (pe_gl E) (px_recDetector p)" "\<not> m_Response (Req d)" "Res d = None" "reject_code E d p = Some c"
  shows "\<exists>d' rd m. processDNSRequest E h None write d (p, ws) =
      Some (join2 None (respond write d'), d', (p\<lparr>px_recDetector := rd\<rparr>, ws @ [d'])) \<and>
    CtxProto d' = CtxProto d \<and> Res d' = Some m \<and> rejects (Req d) c m \<and> rd_ok (pe_gl E) rd"
proof -
  let ?d = "d\<lparr>IsPrivateClient := pe_privateNets E (ap_Addr (ClientAddr d))\<rparr>"
  have "reject_code E ?d p = Some c" using assms(5) by simp
  with validateRequest_spec [OF assms(1,2), of ?d] obtain m x rd where
    v: "validateRequest E ?d p = Some (Some m, ?d\<lparr>RequestedPrivateRDNS := x\<rparr>, p\<lparr>px_recDetector := rd\<rparr>)"
      "rejects (Req d) c m" "rd_ok (pe_gl E) rd" by auto
  show ?thesis
    by (intro exI [of _ "?d\<lparr>RequestedPrivateRDNS := x, Res := Some m\<rparr>"] exI [of _ rd] exI [of _ m])
      (use v assms(3,4) in \<open>simp add: processDNSRequest_def is_drop_def\<close>)
qed

lemma processDNSRequest_accepted:
  assumes "env_ok E" "rd_ok (pe_gl E) (px_recDetector p)" "\<not> m_Response (Req d)" "Res d = None" "reject_code E d p = None"
  obtains d1 rd where "length (m_Question (Req d1)) = 1" "rd_ok (pe_gl E) rd" "Req d1 = Req d" "fresh_ctx d1 = fresh_ctx d"
    "\<forall>err d2 p2. h d1 (p\<lparr>px_recDetector := rd\<rparr>) = Some (err, d2, p2) \<longrightarrow>
      processDNSRequest E h None write d (p, ws) = Some (if is_drop err then (Some ErrDrop, d2, (p2, ws))
        else (join2 err (respond write d2), d2, (p2, ws @ [d2])))"
proof -
  let ?d = "d\<lparr>IsPrivateClient := pe_privateNets E (ap_Addr (ClientAddr d))\<rparr>"
  have "reject_code E ?d p = None" using assms(5) by simp
  with validateRequest_spec [OF assms(1,2), of ?d] obtain x rd where
    v: "validateRequest E ?d p = Some (None, ?d\<lparr>RequestedPrivateRDNS := x\<rparr>, p\<lparr>px_recDetector := rd\<rparr>)"
      "length (m_Question (Req d)) = 1" "rd_ok (pe_gl E) rd" by auto
  show ?thesis
    by (rule that [of "?d\<lparr>RequestedPrivateRDNS := x, Res := None\<rparr>" rd])
      (use v assms(3,4) in \<open>simp_all add: processDNSRequest_def is_drop_def\<close>)
qed

text \<open>
  C31: a request that is rejected, because it has no single question, asks for ANY, comes back from an
  upstream or asks for private addresses from outside, gets exactly one response, with the code of its
  check and the identifier and question of the request, whatever the handler is; of the proxy only the
  recursion detector may change.
\<close>

theorem rejected_without_handler:
  assumes "env_ok E" "proxy_inv E p" "\<not> m_Response (Req d)" "Res d = None" "reject_code E d p = Some c"
  shows "\<exists>d' rd m. processDNSRequest E h None write d (p, ws) =
      Some (join2 None (respond write d'), d', (p\<lparr>px_recDetector := rd\<rparr>, ws @ [d'])) \<and>
    Res d' = Some m \<and> m_Rcode m = c \<and> m_Id m = m_Id (Req d) \<and> m_Response m \<and> m_Question m = take 1 (m_Question (Req d))"
proof -
  have "rd_ok (pe_gl E) (px_recDetector p)" using assms(2) by (simp add: proxy_inv_def)
  from processDNSRequest_rejected [OF assms(1) this assms(3-5), of h "write" ws]
  obtain d' rd m where "processDNSRequest E h None write d (p, ws) =
      Some (join2 None (respond write d'), d', (p\<lparr>px_recDetector := rd\<rparr>, ws @ [d']))" "Res d' = Some m" "rejects (Req d) c m"
    by blast
  then show ?thesis unfolding rejects_def by blast
qed

lemma request_processed:
  assumes "env_ok E" "proxy_inv E p" "fresh_ctx d" "\<not> m_Response (Req d)" "Res d = None"
    and "answering_handler h (resolving_state E)"
  shows "\<exists>err d' p'. proxy_inv E p' \<and>
    (processDNSRequest E h None write d (p, ws) = Some (err, d', (p', ws @ [d'])) \<and>
      (\<exists>res. Res d' = Some res \<and> m_Id res = m_Id (Req d) \<and> m_Response res \<and> m_Question res = take 1 (m_Question (Req d))) \<or>
     processDNSRequest E h None write d (p, ws) = Some (Some ErrDrop, d', (p', ws)) \<and>
      (\<exists>d1 p1 e. Req d1 = Req d \<and> h d1 p1 = Some (e, d', p') \<and> is_drop e))"
proof (cases "reject_code E d p")
  case (Some c)
  have "rd_ok (pe_gl E) (px_recDetector p)" using assms(2) by (simp add: proxy_inv_def)
  from processDNSRequest_rejected [OF assms(1) this assms(4,5) Some, of h "write" ws]
  obtain d' rd m where 1: "processDNSRequest E h None write d (p, ws) =
      Some (join2 None (respond write d'), d', (p\<lparr>px_recDetector := rd\<rparr>, ws @ [d']))" "Res d' = Some m" "rejects (Req d) c m"
    "rd_ok (pe_gl E) rd" by blast
  have "proxy_inv E (p\<lparr>px_recDetector := rd\<rparr>)" using assms(2) 1(4) by (simp add: proxy_inv_def)
  with 1 show ?thesis unfolding rejects_def by blast
next
  case None
  have ok: "rd_ok (pe_gl E) (px_recDetector p)" using assms(2) by (simp add: proxy_inv_def)
  obtain d1 rd where 1: "length (m_Question (Req d1)) = 1" "rd_ok (pe_gl E) rd" "Req d1 = Req d" "fresh_ctx d1 = fresh_ctx d"
    "\<forall>err d2 p2. h d1 (p\<lparr>px_recDetector := rd\<rparr>) = Some (err, d2, p2) \<longrightarrow>
      processDNSRequest E h None write d (p, ws) = Some (if is_drop err then (Some ErrDrop, d2, (p2, ws))
        else (join2 err (respond write d2), d2, (p2, ws @ [d2])))"
    by (rule processDNSRequest_accepted [OF assms(1) ok assms(4,5) None, of h "write" ws])
  have "resolving_state E (p\<lparr>px_recDetector := rd\<rparr>)"
    using assms(1,2) 1(2) by (simp add: resolving_state_def proxy_inv_def)
  from answering_handler.h_answers [OF assms(6) this, of d1] 1(1,4) assms(3) obtain err d2 p2 res where
    2: "h d1 (p\<lparr>px_recDetector := rd\<rparr>) = Some (err, d2, p2)" "resolving_state E p2" "Res d2 = Some res"
      "answers (Req d) res" unfolding 1(3) by auto
  have inv: "proxy_inv E p2" using 2(2) by (simp add: resolving_state_def)
  have q: "take 1 (m_Question (Req d)) = m_Question (Req d)" using 1(1,3) by simp
  show ?thesis
  proof (cases "is_drop err")
    case True
    with 1(3) 1(5) [rule_format, OF 2(1)] 2(1) inv show ?thesis by (intro exI [of _ "Some ErrDrop"]) auto
  next
    case False
    with 1(5) [rule_format, OF 2(1)] 2(3,4) inv q show ?thesis unfolding answers_def by auto
  qed
qed

lemma pipeline_answers:
  assumes "env_ok E" "proxy_inv E p" "fresh_ctx d" "\<not> m_Response (Req d)" "Res d = None"
    and "CtxProto d = ProtoUDP \<longrightarrow> \<not> fst (isRatelimited R c b (ap_Addr (ClientAddr d)))"
    and "h = mw_Wrap (pe_lib E) H reversed halt (DefaultHandler_ServeDNS E)"
  shows "\<exists>err d' b' p' ws'. handleDNSRequest (rl_Wrap R c (processDNSRequest E h None write)) d (b, (p, ws)) =
      Some (err, d', (b', (p', ws'))) \<and> proxy_inv E p' \<and>
    (ws' = ws @ [d'] \<and> (\<exists>res. Res d' = Some res \<and> m_Id res = m_Id (Req d) \<and> m_Response res \<and>
        m_Question res = take 1 (m_Question (Req d))) \<or>
     ws' = ws \<and> err = None \<and> (\<exists>d1 p1 e. Req d1 = Req d \<and> h d1 p1 = Some (e, d', p') \<and> is_drop e))"
proof -
  have h: "answering_handler h (resolving_state E)"
    unfolding assms(7) by (rule hosts_handler.answering_handler_axioms)
  obtain b' where b': "(if CtxProto d = ProtoUDP then isRatelimited R c b (ap_Addr (ClientAddr d)) else (False, b)) = (False, b')"
    using assms(6) by (cases "CtxProto d = ProtoUDP"; cases "isRatelimited R c b (ap_Addr (ClientAddr d))") auto
  have run: "handleDNSRequest (rl_Wrap R c (processDNSRequest E h None write)) d (b, (p, ws)) =
      Some (if is_drop err then None else err, d', (b', (p', ws')))"
    if "processDNSRequest E h None write d (p, ws) = Some (err, d', (p', ws'))" for err d' p' ws'
    using that b' by (simp add: handleDNSRequest_def rl_Wrap_def)
  have drop: "is_drop (Some ErrDrop)" by (simp add: is_drop_def)
  from request_processed [OF assms(1-5) h, of "write" ws] obtain err d' p' where inv: "proxy_inv E p'" and
    "processDNSRequest E h None write d (p, ws) = Some (err, d', (p', ws @ [d'])) \<and>
      (\<exists>res. Res d' = Some res \<and> m_Id res = m_Id (Req d) \<and> m_Response res \<and> m_Question res = take 1 (m_Question (Req d))) \<or>
     processDNSRequest E h None write d (p, ws) = Some (Some ErrDrop, d', (p', ws)) \<and>
      (\<exists>d1 p1 e. Req d1 = Req d \<and> h d1 p1 = Some (e, d', p') \<and> is_drop e)" by blast
  then show ?thesis
  proof (elim disjE conjE)
    assume "processDNSRequest E h None write d (p, ws) = Some (err, d', (p', ws @ [d']))"
      and "\<exists>res. Res d' = Some res \<and> m_Id res = m_Id (Req d) \<and> m_Response res \<and> m_Question res = take 1 (m_Question (Req d))"
    with run inv show ?thesis by blast
  next
    assume "processDNSRequest E h None write d (p, ws) = Some (Some ErrDrop, d', (p', ws))"
      and e: "\<exists>d1 p1 e. Req d1 = Req d \<and> h d1 p1 = Some (e, d', p') \<and> is_drop e"
    from run [OF this(1)] have "handleDNSRequest (rl_Wrap R c (processDNSRequest E h None write)) d (b, (p, ws)) =
      Some (None, d', (b', (p', ws)))" unfolding if_P [OF drop] .
    with e inv show ?thesis by blast
  qed
qed


subsection \<open>Buckets of the rate limiter\<close>

text \<open>
  What the code relies on: the cache of limiters is a map, a limiter that is stored can be changed
  through its pointer, and the text of an address determines it.
\<close>

definition rate_law :: "('b, 'l) rate_env \<Rightarrow> bool" where
  "rate_law R \<longleftrightarrow>
     (\<forall>b k v k'. bk_Get R (bk_Set R b k v) k' = (if k' = k then Some v else bk_Get R b k')) \<and>
     (\<forall>b k v k'. bk_Get R b k \<noteq> None \<longrightarrow>
        bk_Get R (bk_Mutate R b k v) k' = (if k' = k then Some v else bk_Get R b k')) \<and>
     inj_on (addr_String R) {a. addr_wf a}"

definition bucket_of :: "('b, 'l) rate_env \<Rightarrow> rl_Config \<Rightarrow> Addr \<Rightarrow> string" where
  "bucket_of R c addr = addr_String R (pfx_Addr (client_prefix c (Unmap addr)))"

definition limiter_of :: "('b, 'l) rate_env \<Rightarrow> rl_Config \<Rightarrow> 'b \<Rightarrow> string \<Rightarrow> 'l" where
  "limiter_of R c b k = (case bk_Get R b k of Some l \<Rightarrow> l | None \<Rightarrow> rl_New R (cfg_Ratelimit c))"

lemma isRatelimited_spec:
  assumes "rate_law R" "\<not> rl_Contains R (cfg_AllowlistAddrs c) (Unmap addr)"
  shows "\<exists>b'. isRatelimited R c b addr = (\<not> fst (rl_Try R (limiter_of R c b (bucket_of R c addr))), b') \<and>
    bk_Get R b' = (bk_Get R b)(bucket_of R c addr \<mapsto> snd (rl_Try R (limiter_of R c b (bucket_of R c addr))))"
proof -
  let ?k = "bucket_of R c addr"
  obtain rl b1 where l: "limiterForIP R c b ?k = (rl, b1)" by fastforce
  then have rl: "rl = limiter_of R c b ?k" "bk_Get R b1 = (bk_Get R b)(?k \<mapsto> rl)"
    using assms(1) by (auto simp: limiterForIP_def limiter_of_def rate_law_def Let_def split: option.splits)
  obtain ok rl' where t: "rl_Try R rl = (ok, rl')" by fastforce
  have "isRatelimited R c b addr = (\<not> ok, bk_Mutate R b1 ?k rl')"
    using assms(2) l t by (simp add: isRatelimited_def bucket_of_def Let_def)
  moreover have "bk_Get R b1 ?k \<noteq> None" using rl(2) by simp
  then have "bk_Get R (bk_Mutate R b1 ?k rl') = (bk_Get R b)(?k \<mapsto> rl')"
    using assms(1) rl(2) by (auto simp: rate_law_def)
  ultimately show ?thesis using rl(1) t by auto
qed

lemma addr_wf_client_prefix [simp]: "addr_wf a \<Longrightarrow> addr_wf (pfx_Addr (client_prefix c a))"
  by (auto simp: client_prefix_def Masked_def addr_wf_def Let_def split: Addr.splits)

lemma addr_wf_Unmap [simp]: "addr_wf a \<Longrightarrow> addr_wf (Unmap a)"
  by (auto simp: Unmap_def addr_wf_def split: Addr.splits)

lemma client_prefix_family:
  assumes "pfx_Addr (client_prefix c a) = pfx_Addr (client_prefix c a')"
  shows "client_prefix c a = client_prefix c a'"
  using assms by (auto simp: client_prefix_def Masked_def Let_def split: Addr.splits if_splits)

text \<open>
  C34: the rate limiter.  A query over UDP from a client that is not on the allowlist is dropped exactly
  when the limiter of its bucket refuses it, and otherwise handled as without a limiter; no bucket but
  the client's changes, and two clients share a bucket exactly when their addresses, without the mapping
  of IPv4 into IPv6, have the same prefix of the configured length.
\<close>

theorem ratelimit_per_prefix:
  assumes "rate_law R" "CtxProto d = ProtoUDP" "\<not> rl_Contains R (cfg_AllowlistAddrs c) (Unmap (ap_Addr (ClientAddr d)))"
    and "k = bucket_of R c (ap_Addr (ClientAddr d))" "rl_Try R (limiter_of R c b k) = (allow, l)"
    and "addr_wf (ap_Addr (ClientAddr d))" "addr_wf a"
  shows "(\<exists>b'. rl_Wrap R c h d (b, s) = (if allow then map_option (\<lambda>(err, d, s). (err, d, (b', s))) (h d s)
      else Some (Some ErrDrop, d, (b', s))) \<and> bk_Get R b' = (bk_Get R b)(k \<mapsto> l)) \<and>
    (bucket_of R c a = k \<longleftrightarrow> client_prefix c (Unmap a) = client_prefix c (Unmap (ap_Addr (ClientAddr d))))"
proof -
  from isRatelimited_spec [OF assms(1,3), of b] obtain b' where
    b': "isRatelimited R c b (ap_Addr (ClientAddr d)) = (\<not> allow, b')" "bk_Get R b' = (bk_Get R b)(k \<mapsto> l)"
    unfolding assms(4) [symmetric] assms(5) by auto
  have "rl_Wrap R c h d (b, s) = (if allow then map_option (\<lambda>(err, d, s). (err, d, (b', s))) (h d s)
      else Some (Some ErrDrop, d, (b', s)))"
    using b'(1) assms(2) by (cases "h d s") (auto simp: rl_Wrap_def)
  moreover have "inj_on (addr_String R) {a. addr_wf a}" using assms(1) by (simp add: rate_law_def)
  then have "bucket_of R c a = k \<longleftrightarrow> client_prefix c (Unmap a) = client_prefix c (Unmap (ap_Addr (ClientAddr d)))"
    using assms(4,6,7) client_prefix_family by (fastforce simp: bucket_of_def inj_on_def)
  ultimately show ?thesis using b'(2) by blast
qed

definition sample_addr_string :: "Addr \<Rightarrow> string" where
  "sample_addr_string a = (case a of AddrZero \<Rightarrow> [] | Addr4 b \<Rightarrow> ''4'' @ string_of b | Addr6 b \<Rightarrow> ''6'' @ string_of b)"

definition sample_rate :: "(string \<Rightarrow> nat option, nat) rate_env" where
  "sample_rate = \<lparr> rl_New = (\<lambda>n. n), rl_Try = (\<lambda>l. (0 < l, l - 1)), bk_Get = (\<lambda>b. b), bk_Set = (\<lambda>b k v. b(k \<mapsto> v)),
     bk_Mutate = (\<lambda>b k v. b(k \<mapsto> v)), addr_String = sample_addr_string, rl_Contains = (\<lambda>_ _. False) \<rparr>"

definition sample_rl_config :: rl_Config where
  "sample_rl_config = \<lparr> cfg_AllowlistAddrs = [], cfg_Ratelimit = 20, cfg_SubnetLenIPv4 = 24, cfg_SubnetLenIPv6 = 56 \<rparr>"

lemma string_of_inject [simp]: "string_of a = string_of b \<longleftrightarrow> a = b"
proof -
  have "unat x < 256" for x :: byte using unsigned_less [of x] by simp
  then have "bytes_of (string_of b) = b" for b by (simp add: string_of_def bytes_of_def o_def map_idI)
  then show ?thesis by metis
qed

lemma sample_rate_law: "rate_law sample_rate"
  by (auto simp: rate_law_def sample_rate_def sample_addr_string_def inj_on_def split: Addr.splits)

theorem ratelimit_per_prefix_witness:
  "\<exists>b'. rl_Wrap sample_rate sample_rl_config (\<lambda>d s. Some (None, d, s)) sample_ctx (\<lambda>_. Some 0, ()) =
     Some (Some ErrDrop, sample_ctx, (b', ()))"
  using ratelimit_per_prefix [OF sample_rate_law, of sample_ctx sample_rl_config _ "\<lambda>_. Some 0" False 0 AddrZero
      "\<lambda>d s. Some (None, d, s)" "()"]
  by (auto simp: sample_rate_def sample_ctx_def newDNSContext_def limiter_of_def addr_wf_def)


theorem rejected_without_handler_witness:
  "\<exists>d' rd m. processDNSRequest sample_proxy_env (\<lambda>_ _. None) None (\<lambda>_. None)
       (sample_ctx\<lparr>Req := sample_req\<lparr>m_Question := []\<rparr>\<rparr>) (sample_proxy, []) =
     Some (join2 None (respond (\<lambda>_. None) d'), d', (sample_proxy\<lparr>px_recDetector := rd\<rparr>, [d'])) \<and>
     Res d' = Some m \<and> m_Rcode m = RcodeFormatError"
  using rejected_without_handler [OF sample_env_ok sample_proxy_inv, of "sample_ctx\<lparr>Req := sample_req\<lparr>m_Question := []\<rparr>\<rparr>"
      RcodeFormatError "\<lambda>_ _. None" "\<lambda>_. None" "[]"]
  by (auto simp: sample_ctx_def newDNSContext_def sample_req_def empty_Msg_def reject_code_def)

subsection \<open>Hosts files\<close>

lemma genAnswersWithIPv4s_all:
  assumes "m_Question req = [q]" "\<forall>ip \<in> set ips. Is4 ip"
  shows "genAnswersWithIPv4s req ips ans =
    Some (ans @ map (\<lambda>ip. \<lparr> rr_Hdr = hdr (q_Name q) TypeA, rr_Data = RD_A (Some (AsSlice ip)) \<rparr>) ips)"
  using assms by (induction req ips ans rule: genAnswersWithIPv4s.induct) (auto simp: newAnswerA_def go_index_def)

lemma genAnswersAAAA_all:
  assumes "m_Question req = [q]"
  shows "genAnswersAAAA req ips =
    Some (map (\<lambda>ip. \<lparr> rr_Hdr = hdr (q_Name q) TypeAAAA, rr_Data = RD_AAAA (Some (AsSlice ip)) \<rparr>) (filter Is6 ips))"
  using assms by (induction ips) (auto simp: newAnswerAAAA_def go_index_def)

lemma resolveFromHosts_ips:
  assumes "m_Question req = [q]" "\<forall>a \<in> set (ByName H (TrimSuffix_dot (q_Name q))). Is4 a \<or> Is6 a"
    and "q_Qtype q = TypeA \<and> family = Is4 \<and> rd = RD_A \<or> q_Qtype q = TypeAAAA \<and> family = Is6 \<and> rd = RD_AAAA"
    and "ips = filter family (ByName H (TrimSuffix_dot (q_Name q)))"
  shows "resolveFromHosts L H reversed req = Some (if ips = [] then None
    else Some ((NewCompressedResponse L req RcodeSuccess)\<lparr>m_Answer :=
      map (\<lambda>ip. \<lparr> rr_Hdr = hdr (q_Name q) (q_Qtype q), rr_Data = rd (Some (AsSlice ip)) \<rparr>) ips\<rparr>))"
proof -
  let ?all = "ByName H (TrimSuffix_dot (q_Name q))"
  have fam: "filter (\<lambda>a. \<not> Is6 a) ?all = filter Is4 ?all" "filter (\<lambda>a. \<not> Is4 a) ?all = filter Is6 ?all"
    using assms(2) by (auto intro!: filter_cong simp: Is4_def Is6_def split: Addr.splits)
  show ?thesis
    using assms(3)
  proof (elim disjE conjE)
    assume "q_Qtype q = TypeA" "family = Is4" "rd = RD_A"
    with assms(1,4) genAnswersWithIPv4s_all [OF assms(1), of ips "[]"] show ?thesis
      by (simp add: resolveFromHosts_def NewIPResponse_def go_index_def fam)
  next
    assume "q_Qtype q = TypeAAAA" "family = Is6" "rd = RD_AAAA"
    with assms(1,4) genAnswersAAAA_all [OF assms(1), of ips] show ?thesis
      by (simp add: resolveFromHosts_def NewIPResponse_def go_index_def fam)
  qed
qed

text \<open>
  Hosts files.  A query for the IPv4 or the IPv6 addresses of a name that a hosts file has is
  answered with exactly the addresses of that family, in their order, each with the name of the query and
  the default lifetime, and without the next handler; the next handler gets every other address query,
  with no response set.
\<close>

theorem hosts_answers_exact:
  assumes "lib_reply_law L" "m_Question (Req d) = [q]"
    and "q_Qtype q = TypeA \<and> family = Is4 \<and> rd = RD_A \<or> q_Qtype q = TypeAAAA \<and> \<not> haltIPv6 \<and> family = Is6 \<and> rd = RD_AAAA"
    and "\<forall>a \<in> set (ByName H (TrimSuffix_dot (q_Name q))). Is4 a \<or> Is6 a"
    and "ips = filter family (ByName H (TrimSuffix_dot (q_Name q)))"
  shows "if ips = [] then mw_Wrap L H reversed haltIPv6 h d s = h (d\<lparr>Res := None\<rparr>) s
    else \<exists>m. mw_Wrap L H reversed haltIPv6 h d s = Some (None, d\<lparr>Res := Some m\<rparr>, s) \<and> answers (Req d) m \<and>
      m_Rcode m = RcodeSuccess \<and>
      m_Answer m = map (\<lambda>ip. \<lparr> rr_Hdr = \<lparr> h_Name = q_Name q, h_Rrtype = q_Qtype q, h_Class = ClassINET, h_Ttl = 10 \<rparr>,
        rr_Data = rd (Some (AsSlice ip)) \<rparr>) ips"
proof -
  have halt: "haltAAAA L haltIPv6 (Req d) = Some None"
    using assms(2,3) by (auto simp: haltAAAA_def go_index_def)
  have fam: "q_Qtype q = TypeA \<and> family = Is4 \<and> rd = RD_A \<or> q_Qtype q = TypeAAAA \<and> family = Is6 \<and> rd = RD_AAAA"
    using assms(3) by blast
  note hosts = resolveFromHosts_ips [OF assms(2,4) fam assms(5), of L reversed]
  define m where "m = (NewCompressedResponse L (Req d) RcodeSuccess)\<lparr>m_Answer :=
      map (\<lambda>ip. \<lparr> rr_Hdr = hdr (q_Name q) (q_Qtype q), rr_Data = rd (Some (AsSlice ip)) \<rparr>) ips\<rparr>"
  have "answers (Req d) m" unfolding m_def using assms(1,2) by (intro compressed_answers) simp_all
  moreover have "m_Rcode m = RcodeSuccess"
    using reply_fields(3) [OF assms(1)] by (simp add: m_def NewCompressedResponse_def)
  moreover have "mw_Wrap L H reversed haltIPv6 h d s =
      (if ips = [] then h (d\<lparr>Res := None\<rparr>) s else Some (None, d\<lparr>Res := Some m\<rparr>, s))"
    using halt hosts assms(2) unfolding m_def [symmetric] by (simp add: mw_Wrap_def go_index_def)
  moreover have "m_Answer m = map (\<lambda>ip. \<lparr> rr_Hdr = \<lparr> h_Name = q_Name q, h_Rrtype = q_Qtype q, h_Class = ClassINET, h_Ttl = 10 \<rparr>,
        rr_Data = rd (Some (AsSlice ip)) \<rparr>) ips" by (simp add: m_def hdr_def defaultResponseTTL_def)
  ultimately show ?thesis by (cases "ips = []") auto
qed

theorem hosts_answers_exact_witness:
  "\<exists>m. mw_Wrap (sample_lib sample_resp) \<lparr> ByName = (\<lambda>_. [Addr4 [127, 0, 0, 1]]), ByAddr = (\<lambda>_. []) \<rparr> (\<lambda>_. None) False
      (\<lambda>_ _. None) (sample_ctx\<lparr>Req := sample_req\<lparr>m_Question := [\<lparr> q_Name = ''h.'', q_Qtype = TypeA, q_Qclass = 1 \<rparr>]\<rparr>\<rparr>) () =
      Some (None, sample_ctx\<lparr>Req := sample_req\<lparr>m_Question := [\<lparr> q_Name = ''h.'', q_Qtype = TypeA, q_Qclass = 1 \<rparr>]\<rparr>, Res := Some m\<rparr>, ()) \<and>
      map rr_Data (m_Answer m) = [RD_A (Some [127, 0, 0, 1])]"
proof -
  have "lib_reply_law (sample_lib sample_resp)" using sample_cache_libs by (simp add: cache_libs_def)
  from hosts_answers_exact [OF this, of "sample_ctx\<lparr>Req := sample_req\<lparr>m_Question := [\<lparr> q_Name = ''h.'', q_Qtype = TypeA, q_Qclass = 1 \<rparr>]\<rparr>\<rparr>"
      "\<lparr> q_Name = ''h.'', q_Qtype = TypeA, q_Qclass = 1 \<rparr>" Is4 RD_A False
      "\<lparr> ByName = (\<lambda>_. [Addr4 [127, 0, 0, 1]]), ByAddr = (\<lambda>_. []) \<rparr>" "[Addr4 [127, 0, 0, 1]]" "\<lambda>_. None" "\<lambda>_ _. None" "()"]
  show ?thesis by (auto simp: Is4_def AsSlice_def)
qed

subsection \<open>Retries\<close>

lemma bind_retries_spec:
  "bind_retries f k n = (case find (\<lambda>i. f i = None) [k..<k + n] of
     Some i \<Rightarrow> (True, Suc i) | None \<Rightarrow> (False, k + n))"
proof (induction n arbitrary: k)
  case (Suc n)
  have "[k..<k + Suc n] = k # [Suc k..<Suc k + n]" using upt_conv_Cons [of k "k + Suc n"] by simp
  with Suc [of "Suc k"] show ?case by (simp del: upt_Suc split: option.split)
qed simp

text \<open>
  C40: binding with retries.  Listening succeeds exactly when one of the first attempt and the
  configured number of retries does; it stops at the first success, and when every attempt fails it
  has made all of them and reports the error of the first.
\<close>

theorem bindWithRetry_spec:
  "bindWithRetry n f = (case find (\<lambda>i. f i = None) [0..<Suc n] of
     Some i \<Rightarrow> (None, Suc i) | None \<Rightarrow> (f 0, Suc n))"
proof -
  have "[0..<Suc n] = 0 # [1..<1 + n]" using upt_conv_Cons [of 0 "Suc n"] by simp
  then show ?thesis
    using bind_retries_spec [of f 1 n] by (auto simp del: upt_Suc simp add: bindWithRetry_def split: option.splits)
qed

end
