(* ===== verification/Server_Stream.thy ===== *)
theory Server_Stream
  imports Request_Pipeline Dnscrypt_Codec
begin

text \<open>
  The listeners of stream and packet protocols: DNS over TCP and TLS (\<^verbatim>\<open>proxy/servertcp.go\<close>) and over UDP
  (\<^verbatim>\<open>proxy/serverudp.go\<close>).  They read requests from a connection, hand each to \<^verbatim>\<open>handleDNSRequest\<close> and
  write what it passes to \<^verbatim>\<open>respond\<close>.  What they rely on is the locale \<^verbatim>\<open>request_pipe\<close>, interpreted on the
  pipeline of \<^verbatim>\<open>Request_Pipeline\<close>.  A panic of a handler ends the goroutine of its connection
  with a log message; the model ends with it.  Deadlines are the point where the input ends.
\<close>

subsection \<open>The pipeline as the listeners see it\<close>

text \<open>
  \<^verbatim>\<open>handleDNSRequest\<close> with the writer of a connection: the error, the contexts passed to \<^verbatim>\<open>respond\<close> and the
  new state of the proxy and the rate limiter.
\<close>

type_synonym ('u, 's) pipe =
  "('u DNSContext \<Rightarrow> error option) \<Rightarrow> 'u DNSContext \<Rightarrow> 's \<Rightarrow> (error option \<times> 'u DNSContext list \<times> 's) go"

definition proxy_pipe ::
  "('u, 'c) proxy_env \<Rightarrow> ('b, 'l) rate_env \<Rightarrow> rl_Config \<Rightarrow> ('u, ('u, 'c) Proxy) handler \<Rightarrow> ('u, 'b \<times> ('u, 'c) Proxy) pipe" where
  "proxy_pipe E R c h write d s = do {
     (err, d, (b, (p, ws))) \<leftarrow> handleDNSRequest (rl_Wrap R c (processDNSRequest E h None write)) d (fst s, (snd s, []));
     Some (err, ws, (b, p)) }"

text \<open>A connection \<^verbatim>\<open>k\<close> with the function that writes a context to it.\<close>

definition serve ::
  "('u, 's) pipe \<Rightarrow> ('u DNSContext \<Rightarrow> 'k \<Rightarrow> error option \<times> 'k) \<Rightarrow> 'u DNSContext \<Rightarrow> 's \<Rightarrow> 'k \<Rightarrow> ('s \<times> 'k) go" where
  "serve pipe writer d s k = do {
     (err, ws, s) \<leftarrow> pipe (\<lambda>d. fst (writer d k)) d s;
     Some (s, fold (\<lambda>d k. snd (writer d k)) ws k) }"

text \<open>The state of the listeners: that of the pipeline and the counter of requests.\<close>

definition serve_new ::
  "('u, 's) pipe \<Rightarrow> ('u DNSContext \<Rightarrow> 'k \<Rightarrow> error option \<times> 'k) \<Rightarrow> Proto \<Rightarrow> Msg \<Rightarrow> AddrPort \<Rightarrow> 's \<times> uint64 \<Rightarrow> 'k \<Rightarrow>
     (('s \<times> uint64) \<times> 'k) go" where
  "serve_new pipe writer proto req addr s k =
     (let (d, counter) = newDNSContext (snd s) proto req addr in do {
        (s', k) \<leftarrow> serve pipe writer d (fst s) k;
        Some ((s', counter), k) })"

subsection \<open>Connections\<close>

text \<open>
  What was written so far, whether the connection is closed, the number of bytes the peer still takes before
  writing fails, and the error of closing.
\<close>

record tcp_conn =
  tc_out :: bytes
  tc_closed :: bool
  tc_fail :: "(nat \<times> error) option"
  tc_closeErr :: "error option"

definition conn_write :: "bytes \<Rightarrow> tcp_conn \<Rightarrow> error option \<times> tcp_conn" where
  "conn_write b k =
     (if tc_closed k then (Some net_ErrClosed, k)
      else (case tc_fail k of
          None \<Rightarrow> (None, k\<lparr>tc_out := tc_out k @ b\<rparr>)
        | Some (n, e) \<Rightarrow>
            if length b \<le> n then (None, k\<lparr>tc_out := tc_out k @ b, tc_fail := Some (n - length b, e)\<rparr>)
            else (Some e, k\<lparr>tc_out := tc_out k @ take n b, tc_fail := Some (0, e)\<rparr>)))"

definition errTooLarge :: error where "errTooLarge = ErrMsg ''dns message is too large''"

definition tcp_readPrefixed :: "bytes \<Rightarrow> ((error + bytes) \<times> bytes) go" where
  "tcp_readPrefixed conn =
     (case ReadFull 2 conn of
        (Inl err, conn) \<Rightarrow> Some (Inl (ErrWrap ''reading len'' err), conn)
      | (Inr l, conn) \<Rightarrow> do {
          packetLen \<leftarrow> get_uint16 l;
          if packetLen > MaxMsgSize then Some (Inl errTooLarge, conn)
          else Some (case ReadFull (unat packetLen) conn of
              (Inl err, conn) \<Rightarrow> (Inl (ErrWrap ''reading msg'' err), conn)
            | (Inr b, conn) \<Rightarrow> (Inr b, conn)) })"

definition errFrameLength :: error where "errFrameLength = ErrMsg ''DNS frame length is outside 0..65535''"

definition tcp_writePrefixed :: "bytes \<Rightarrow> tcp_conn \<Rightarrow> error option \<times> tcp_conn" where
  "tcp_writePrefixed b k = (case LengthPrefix (int (length b)) of
      None \<Rightarrow> (Some errFrameLength, k)
    | Some l \<Rightarrow> conn_write (l @ b) k)"

definition respondTCP :: "dnslib \<Rightarrow> 'u DNSContext \<Rightarrow> tcp_conn \<Rightarrow> error option \<times> tcp_conn" where
  "respondTCP L d k = (case Res d of
      None \<Rightarrow> (tc_closeErr k, k\<lparr>tc_closed := True\<rparr>)
    | Some resp \<Rightarrow> (case lib_Pack L resp of
          None \<Rightarrow> (Some (ErrWrap ''packing message'' (ErrMsg ''pack'')), k)
        | Some b \<Rightarrow> (let (err, k) = tcp_writePrefixed b k in (map_option (ErrWrap ''writing message'') err, k))))"

subsection \<open>TCP and TLS\<close>

definition readDNSReq :: "dnslib \<Rightarrow> bytes \<Rightarrow> (Msg option \<times> bytes) go" where
  "readDNSReq L conn = do {
     (packet, conn) \<leftarrow> tcp_readPrefixed conn;
     Some (case packet of
         Inl err \<Rightarrow> (None, conn)
       | Inr b \<Rightarrow> (lib_Unpack L b, conn)) }"

lemma tcp_readPrefixed_shorter: "tcp_readPrefixed conn = Some (Inr b, rest) \<Longrightarrow> length rest < length conn"
  by (auto simp: tcp_readPrefixed_def ReadFull_def bind_eq_Some_conv split: if_splits)

lemma readDNSReq_shorter: "readDNSReq L conn = Some (Some req, rest) \<Longrightarrow> length rest < length conn"
proof -
  assume "readDNSReq L conn = Some (Some req, rest)"
  then obtain b where "tcp_readPrefixed conn = Some (Inr b, rest)"
    by (cases "tcp_readPrefixed conn") (auto simp: readDNSReq_def split: sum.split_asm)
  then show ?thesis by (rule tcp_readPrefixed_shorter)
qed

text \<open>
  The loop of a connection; \<^verbatim>\<open>started i\<close> is what \<^verbatim>\<open>isStarted\<close> says before the request with number \<^verbatim>\<open>i\<close>.
  Once the connection is closed nothing is read from it.  The deferred function closes it.
\<close>

function tcp_loop ::
  "dnslib \<Rightarrow> ('u, 's) pipe \<Rightarrow> Proto \<Rightarrow> AddrPort \<Rightarrow> (nat \<Rightarrow> bool) \<Rightarrow> nat \<Rightarrow> bytes \<Rightarrow> 's \<times> uint64 \<Rightarrow> tcp_conn \<Rightarrow>
     (('s \<times> uint64) \<times> tcp_conn) go" where
  "tcp_loop L pipe proto addr started i conn s k =
     (if \<not> started i then Some (s, k)
      else (case readDNSReq L (if tc_closed k then [] else conn) of
          None \<Rightarrow> None
        | Some (None, _) \<Rightarrow> Some (s, k)
        | Some (Some req, rest) \<Rightarrow> do {
            (s, k) \<leftarrow> serve_new pipe (respondTCP L) proto req addr s k;
            tcp_loop L pipe proto addr started (Suc i) rest s k }))"
  by pat_completeness auto
termination
  by (relation "measure (\<lambda>(_, _, _, _, _, _, conn, _, _). length conn)")
    (auto dest: readDNSReq_shorter split: if_splits)

declare tcp_loop.simps [simp del]

definition handleTCPConnection ::
  "dnslib \<Rightarrow> ('u, 's) pipe \<Rightarrow> Proto \<Rightarrow> AddrPort \<Rightarrow> (nat \<Rightarrow> bool) \<Rightarrow> bytes \<Rightarrow> 's \<times> uint64 \<Rightarrow> tcp_conn \<Rightarrow>
     (('s \<times> uint64) \<times> tcp_conn) go" where
  "handleTCPConnection L pipe proto addr started conn s k = do {
     (s, k) \<leftarrow> tcp_loop L pipe proto addr started 0 conn s k;
     Some (s, k\<lparr>tc_closed := True\<rparr>) }"

subsection \<open>UDP\<close>

text \<open>
  Unpacking leaves in the message what was read before the error, so its result is a message with an error.
  \<^verbatim>\<open>uc_Write\<close> stands for the system call: the number of bytes it took and its error.
\<close>

record udp_conn =
  uc_sent :: "bytes list"
  uc_Write :: "bytes \<Rightarrow> nat \<times> error option"

definition respondUDP :: "dnslib \<Rightarrow> 'u DNSContext \<Rightarrow> udp_conn \<Rightarrow> error option \<times> udp_conn" where
  "respondUDP L d k = (case Res d of
      None \<Rightarrow> (None, k)
    | Some resp \<Rightarrow> (case lib_Pack L resp of
          None \<Rightarrow> (Some (ErrWrap ''packing message'' (ErrMsg ''pack'')), k)
        | Some b \<Rightarrow>
            let (n, err) = uc_Write k b; k = k\<lparr>uc_sent := uc_sent k @ [b]\<rparr> in
            (case err of
              Some e \<Rightarrow> (Some (ErrWrap ''writing message'' e), k)
            | None \<Rightarrow> (if n = length b then None else Some (ErrMsg ''bytes written''), k))))"

definition zero_header :: "Msg \<Rightarrow> bool" where
  "zero_header m \<longleftrightarrow> m_Id m = 0 \<and> \<not> m_Response m \<and> m_Opcode m = 0 \<and> \<not> m_Authoritative m \<and> \<not> m_Truncated m \<and>
     \<not> m_RecursionDesired m \<and> \<not> m_RecursionAvailable m \<and> \<not> m_AuthenticatedData m \<and> \<not> m_CheckingDisabled m \<and> m_Rcode m = 0"

definition udpHandlePacket ::
  "dnslib \<Rightarrow> (bytes \<Rightarrow> Msg \<times> error option) \<Rightarrow> ('u, 's) pipe \<Rightarrow> bytes \<Rightarrow> AddrPort \<Rightarrow> 's \<times> uint64 \<Rightarrow> udp_conn \<Rightarrow>
     (('s \<times> uint64) \<times> udp_conn) go" where
  "udpHandlePacket L unpack pipe packet raddr s k =
     (let (req, err) = unpack packet; (d, counter) = newDNSContext (snd s) ProtoUDP req raddr in
      if err \<noteq> None \<and> zero_header req then Some ((fst s, counter), k)
      else let d = (if err \<noteq> None then d\<lparr>Res := Some (NewMsgFORMERR L req)\<rparr> else d) in do {
        (s', k) \<leftarrow> serve pipe (respondUDP L) d (fst s) k;
        Some ((s', counter), k) })"

subsection \<open>What the listeners rely on\<close>

definition replies :: "Msg \<Rightarrow> Msg \<Rightarrow> bool" where
  "replies req res \<longleftrightarrow> m_Id res = m_Id req \<and> m_Response res \<and> m_Question res = take 1 (m_Question req)"

locale request_pipe =
  fixes pipe :: "('u, 's) pipe" and valid :: "'s \<Rightarrow> bool" and drops :: "Msg \<Rightarrow> bool"
  assumes pipe_answers: "valid s \<Longrightarrow> fresh_ctx d \<Longrightarrow> CtxProto d \<noteq> ProtoUDP \<Longrightarrow> Res d = None \<Longrightarrow>
    \<exists>err ws s'. pipe write d s = Some (err, ws, s') \<and> valid s' \<and>
      (ws = [] \<and> err = None \<and> (m_Response (Req d) \<or> drops (Req d)) \<or>
       (\<exists>d' res. ws = [d'] \<and> Res d' = Some res \<and> replies (Req d) res))"
begin

lemma serve_new_answers:
  assumes "valid (fst s)" "proto \<noteq> ProtoUDP"
  obtains (dropped) s' where "serve_new pipe writer proto req addr s k = Some (s', k)" "valid (fst s')" "m_Response req \<or> drops req"
    | (answered) s' d' res where "serve_new pipe writer proto req addr s k = Some (s', snd (writer d' k))" "valid (fst s')"
      "Res d' = Some res" "replies req res"
proof -
  obtain d :: "'u DNSContext" and counter where d: "newDNSContext (snd s) proto req addr = (d, counter)" by fastforce
  then have f: "fresh_ctx d" "CtxProto d \<noteq> ProtoUDP" "Res d = None" "Req d = req"
    using assms(2) by (auto simp: newDNSContext_def fresh_ctx_def)
  from pipe_answers [OF assms(1) f(1-3), of "\<lambda>d. fst (writer d k)"] obtain err ws s' where
    p: "pipe (\<lambda>d. fst (writer d k)) d (fst s) = Some (err, ws, s')" "valid s'"
      "ws = [] \<and> err = None \<and> (m_Response req \<or> drops req) \<or> (\<exists>d' res. ws = [d'] \<and> Res d' = Some res \<and> replies req res)"
    unfolding f(4) by blast
  have "serve_new pipe writer proto req addr s k = Some ((s', counter), fold (\<lambda>d k. snd (writer d k)) ws k)"
    by (simp add: serve_new_def serve_def d p(1))
  with p(2,3) show thesis by (auto intro: dropped answered)
qed

end

lemma proxy_pipe_answers:
  assumes "env_ok E" "proxy_inv E (snd s)" "fresh_ctx d" "CtxProto d \<noteq> ProtoUDP" "Res d = None"
    and h: "h = mw_Wrap (pe_lib E) H reversed halt (DefaultHandler_ServeDNS E)"
  shows "\<exists>err ws s'. proxy_pipe E R c h write d s = Some (err, ws, s') \<and> proxy_inv E (snd s') \<and>
    (ws = [] \<and> err = None \<and> (m_Response (Req d) \<or> (\<exists>d1 p1 e x. Req d1 = Req d \<and> h d1 p1 = Some (e, x) \<and> is_drop e)) \<or>
     (\<exists>d' res. ws = [d'] \<and> Res d' = Some res \<and> replies (Req d) res))"
proof (cases "m_Response (Req d)")
  case True
  with assms(2,4) show ?thesis
    by (simp add: proxy_pipe_def handleDNSRequest_def rl_Wrap_def processDNSRequest_def is_drop_def)
next
  case False
  have "CtxProto d = ProtoUDP \<longrightarrow> \<not> fst (isRatelimited R c (fst s) (ap_Addr (ClientAddr d)))" using assms(4) by simp
  from pipeline_answers [OF assms(1-3) False assms(5) this h, of "write" "[]"] obtain err d' b' p' ws' where
    r: "handleDNSRequest (rl_Wrap R c (processDNSRequest E h None write)) d (fst s, (snd s, [])) = Some (err, d', (b', (p', ws')))"
      "proxy_inv E p'" and w: "ws' = [] @ [d'] \<and> (\<exists>res. Res d' = Some res \<and> m_Id res = m_Id (Req d) \<and> m_Response res \<and>
        m_Question res = take 1 (m_Question (Req d))) \<or>
     ws' = [] \<and> err = None \<and> (\<exists>d1 p1 e. Req d1 = Req d \<and> h d1 p1 = Some (e, d', p') \<and> is_drop e)"
    by blast
  have "proxy_pipe E R c h write d s = Some (err, ws', (b', p'))" by (simp add: proxy_pipe_def r(1))
  moreover have "proxy_inv E (snd (b', p'))" using r(2) by simp
  ultimately show ?thesis using w unfolding replies_def append_Nil by blast
qed

interpretation proxied: request_pipe
  "proxy_pipe E R c (mw_Wrap (pe_lib E) H reversed halt (DefaultHandler_ServeDNS E))"
  "\<lambda>s. resolving_state E (snd s)"
  "\<lambda>m. \<exists>d p e x. Req d = m \<and> mw_Wrap (pe_lib E) H reversed halt (DefaultHandler_ServeDNS E) d p = Some (e, x) \<and> is_drop e"
  for E :: "('u, 'c) proxy_env" and R :: "('b, 'l) rate_env" and c H reversed halt
proof unfold_locales
  fix s :: "'b \<times> ('u, 'c) Proxy" and d :: "'u DNSContext" and "write"
  let ?h = "mw_Wrap (pe_lib E) H reversed halt (DefaultHandler_ServeDNS E)"
  assume a: "resolving_state E (snd s)" "fresh_ctx d" "CtxProto d \<noteq> ProtoUDP" "Res d = None"
  then have "env_ok E" "proxy_inv E (snd s)" by (simp_all add: resolving_state_def)
  from proxy_pipe_answers [OF this a(2-4) refl, of R c H reversed halt "write"] \<open>env_ok E\<close>
  show "\<exists>err ws s'. proxy_pipe E R c ?h write d s = Some (err, ws, s') \<and> resolving_state E (snd s') \<and>
      (ws = [] \<and> err = None \<and> (m_Response (Req d) \<or> (\<exists>da p e x. Req da = Req d \<and> ?h da p = Some (e, x) \<and> is_drop e)) \<or>
       (\<exists>d' res. ws = [d'] \<and> Res d' = Some res \<and> replies (Req d) res))"
    unfolding resolving_state_def by auto
qed

subsection \<open>A connection answers its requests in order\<close>

definition framed :: "bytes \<Rightarrow> bytes" where
  "framed b = put_uint16 (word_of_nat (length b)) @ b"

text \<open>What is written for a response: a frame if it can be packed and fits one.\<close>

definition frame_of :: "dnslib \<Rightarrow> Msg \<Rightarrow> bytes" where
  "frame_of L res = (case lib_Pack L res of None \<Rightarrow> [] | Some b \<Rightarrow> if length b \<le> 65535 then framed b else [])"

lemma respondTCP_frame:
  assumes "\<not> tc_closed k" "tc_fail k = None" "Res d = Some res"
  shows "snd (respondTCP L d k) = k\<lparr>tc_out := tc_out k @ frame_of L res\<rparr>"
  using assms by (auto simp: respondTCP_def frame_of_def framed_def tcp_writePrefixed_def LengthPrefix_def conn_write_def
      split: option.splits)

lemma tcp_readPrefixed_framed:
  assumes "length b \<le> 65535"
  shows "tcp_readPrefixed (framed b @ rest) = Some (Inr b, rest)"
proof -
  have "unat (word_of_nat (length b) :: uint16) = length b" using assms by (simp add: unsigned_of_nat take_bit_nat_eq_self)
  moreover have "\<not> MaxMsgSize < w" for w :: uint16
  proof -
    have "unat w < 65536" using unsigned_less [of w] by simp
    then show ?thesis by (simp add: MaxMsgSize_def not_less word_le_nat_alt)
  qed
  moreover have "get_uint16 (put_uint16 w) = Some w" for w using get_put_uint16 [of w "[]"] by simp
  ultimately show ?thesis by (simp add: tcp_readPrefixed_def ReadFull_def framed_def)
qed

lemma readDNSReq_framed: "length b \<le> 65535 \<Longrightarrow> lib_Unpack L b = Some m \<Longrightarrow> readDNSReq L (framed b @ rest) = Some (Some m, rest)"
  by (simp add: readDNSReq_def tcp_readPrefixed_framed)

abbreviation out_frame :: "dnslib \<Rightarrow> Msg option \<Rightarrow> bytes" where
  "out_frame L ro \<equiv> (case ro of None \<Rightarrow> [] | Some r \<Rightarrow> frame_of L r)"

context request_pipe
begin

lemma tcp_loop_answers:
  assumes "valid (fst s)" "proto \<noteq> ProtoUDP" "\<not> tc_closed k" "tc_fail k = None" "\<forall>i. started i"
    and "list_all2 (\<lambda>b m. length b \<le> 65535 \<and> lib_Unpack L b = Some m) bs ms" "readDNSReq L tail = Some (None, x)"
  shows "\<exists>s' rs. tcp_loop L pipe proto addr started i (concat (map framed bs) @ tail) s k =
      Some (s', k\<lparr>tc_out := tc_out k @ concat (map (out_frame L) rs)\<rparr>) \<and> valid (fst s') \<and>
    list_all2 (\<lambda>m ro. case ro of None \<Rightarrow> m_Response m \<or> drops m | Some r \<Rightarrow> replies m r) ms rs"
  using assms(6,1,3,4)
proof (induction bs ms arbitrary: s k i rule: list_all2_induct)
  case Nil
  then show ?case using assms(5,7) by (subst tcp_loop.simps) simp
next
  case (Cons b bs m ms)
  let ?rest = "concat (map framed bs) @ tail"
  have step: "tcp_loop L pipe proto addr started i (concat (map framed (b # bs)) @ tail) s k = do {
      (s, k) \<leftarrow> serve_new pipe (respondTCP L) proto m addr s k;
      tcp_loop L pipe proto addr started (Suc i) ?rest s k }"
    using assms(5) Cons.prems(2) Cons.hyps(1) by (subst tcp_loop.simps) (simp add: readDNSReq_framed)
  from Cons.prems(1) assms(2) show ?case
  proof (cases rule: serve_new_answers [where req = m and addr = addr and writer = "respondTCP L" and k = k])
    case (dropped s')
    from Cons.IH [OF dropped(2) Cons.prems(2,3), of "Suc i"] obtain s2 rs where
      "tcp_loop L pipe proto addr started (Suc i) ?rest s' k =
        Some (s2, k\<lparr>tc_out := tc_out k @ concat (map (out_frame L) rs)\<rparr>)" "valid (fst s2)"
      "list_all2 (\<lambda>m ro. case ro of None \<Rightarrow> m_Response m \<or> drops m | Some r \<Rightarrow> replies m r) ms rs" by blast
    with step dropped(1,3) show ?thesis by (intro exI [of _ s2] exI [of _ "None # rs"]) simp
  next
    case (answered s' d' res)
    let ?k = "k\<lparr>tc_out := tc_out k @ frame_of L res\<rparr>"
    have k: "snd (respondTCP L d' k) = ?k" by (rule respondTCP_frame [OF Cons.prems(2,3) answered(3)])
    from Cons.IH [OF answered(2), of ?k "Suc i"] Cons.prems(2,3) obtain s2 rs where
      "tcp_loop L pipe proto addr started (Suc i) ?rest s' ?k =
        Some (s2, ?k\<lparr>tc_out := tc_out ?k @ concat (map (out_frame L) rs)\<rparr>)" "valid (fst s2)"
      "list_all2 (\<lambda>m ro. case ro of None \<Rightarrow> m_Response m \<or> drops m | Some r \<Rightarrow> replies m r) ms rs" by auto
    with step answered(1,4) k show ?thesis by (intro exI [of _ s2] exI [of _ "Some res # rs"]) simp
  qed
qed

end

lemma put_get_uint16:
  assumes "get_uint16 [a, b] = Some w"
  shows "put_uint16 w = [a, b]"
proof -
  have "\<not> bit b (8 + n)" for n using bit_imp_le_length [of b "8 + n"] by auto
  with assms show ?thesis by (auto simp: put_uint16_def bit_simps intro!: bit_word_eqI)
qed

lemma tcp_readPrefixed_Inr:
  assumes "tcp_readPrefixed conn = Some (Inr b, rest)"
  shows "conn = framed b @ rest \<and> length b \<le> 65535"
proof -
  obtain x y cs where c: "conn = x # y # cs"
    using assms by (cases conn; cases "tl conn") (auto simp: tcp_readPrefixed_def ReadFull_def)
  obtain w where w: "get_uint16 [x, y] = Some w" by simp
  have w': "unat w < 65536" using unsigned_less [of w] by simp
  from assms c w have "unat w \<le> length cs" "b = take (unat w) cs" "rest = drop (unat w) cs"
    by (auto simp: tcp_readPrefixed_def ReadFull_def bind_eq_Some_conv split: if_splits)
  moreover from this have "(word_of_nat (length b) :: uint16) = w" by simp
  ultimately show ?thesis using c w' put_get_uint16 [OF w] by (simp add: framed_def)
qed

lemma readDNSReq_total: "\<exists>r rest. readDNSReq L conn = Some (r, rest)"
proof -
  have "\<exists>w. get_uint16 (take 2 conn) = Some w" if "\<not> length conn < 2"
    using that get_uint16_None_iff [of "take 2 conn"] by auto
  then show ?thesis by (auto simp: readDNSReq_def tcp_readPrefixed_def ReadFull_def split: sum.splits)
qed

lemma stream_frames:
  "\<exists>bs ms tail x. conn = concat (map framed bs) @ tail \<and>
     list_all2 (\<lambda>b m. length b \<le> 65535 \<and> lib_Unpack L b = Some m) bs ms \<and> readDNSReq L tail = Some (None, x)"
proof (induction conn rule: length_induct)
  case (1 conn)
  obtain r rest where r: "readDNSReq L conn = Some (r, rest)" using readDNSReq_total by blast
  show ?case
  proof (cases r)
    case None
    with r show ?thesis by (intro exI [of _ "[]"] exI [of _ conn] exI [of _ rest]) simp
  next
    case (Some m)
    with r obtain b where b: "tcp_readPrefixed conn = Some (Inr b, rest)" "lib_Unpack L b = Some m"
      by (cases "tcp_readPrefixed conn") (auto simp: readDNSReq_def split: sum.split_asm)
    have "length rest < length conn" using readDNSReq_shorter [of L conn m rest] r Some by simp
    with 1 obtain bs ms tail x where "rest = concat (map framed bs) @ tail"
      "list_all2 (\<lambda>b m. length b \<le> 65535 \<and> lib_Unpack L b = Some m) bs ms" "readDNSReq L tail = Some (None, x)" by blast
    with tcp_readPrefixed_Inr [OF b(1)] b(2) show ?thesis
      by (intro exI [of _ "b # bs"] exI [of _ "m # ms"] exI [of _ tail] exI [of _ x]) simp
  qed
qed

text \<open>
  C4.  A connection of the TCP or TLS listener.  Whatever bytes the client sends, they are a sequence of frames that
  hold messages, followed by something that is not such a frame.  The listener reads exactly these messages, never panics, leaves
  the proxy in a valid state and closes the connection.  What it wrote is one frame per message, in the order of the messages, with
  the identifier and the question of its request; nothing is written only for messages that are themselves responses, that the
  handler asks to drop, or whose response cannot be packed into a frame.
\<close>

theorem tcp_connection_answers:
  assumes "env_ok E" "proxy_inv E p" "proto \<noteq> ProtoUDP" "\<forall>i. started i" "\<not> tc_closed k" "tc_fail k = None"
    and "h = mw_Wrap (pe_lib E) H reversed halt (DefaultHandler_ServeDNS E)"
  shows "\<exists>bs ms tail x b' p' n' rs. conn = concat (map framed bs) @ tail \<and>
    list_all2 (\<lambda>b m. length b \<le> 65535 \<and> lib_Unpack (pe_lib E) b = Some m) bs ms \<and> readDNSReq (pe_lib E) tail = Some (None, x) \<and>
    handleTCPConnection (pe_lib E) (proxy_pipe E R c h) proto addr started conn ((b, p), n) k =
      Some (((b', p'), n'), k\<lparr>tc_out := tc_out k @ concat (map (out_frame (pe_lib E)) rs), tc_closed := True\<rparr>) \<and> proxy_inv E p' \<and>
    list_all2 (\<lambda>m ro. case ro of
        None \<Rightarrow> m_Response m \<or> (\<exists>d p e y. Req d = m \<and> h d p = Some (e, y) \<and> is_drop e)
      | Some r \<Rightarrow> m_Id r = m_Id m \<and> m_Response r \<and> m_Question r = take 1 (m_Question m)) ms rs"
proof -
  obtain bs ms tail x where f: "conn = concat (map framed bs) @ tail"
    "list_all2 (\<lambda>b m. length b \<le> 65535 \<and> lib_Unpack (pe_lib E) b = Some m) bs ms" "readDNSReq (pe_lib E) tail = Some (None, x)"
    using stream_frames by blast
  have "resolving_state E (snd (fst ((b, p), n)))" using assms(1,2) by (simp add: resolving_state_def)
  from proxied.tcp_loop_answers [OF this assms(3,5,6,4) f(2,3), of R c H reversed halt addr 0] obtain s' rs where
    l: "tcp_loop (pe_lib E) (proxy_pipe E R c h) proto addr started 0 conn ((b, p), n) k =
        Some (s', k\<lparr>tc_out := tc_out k @ concat (map (out_frame (pe_lib E)) rs)\<rparr>)" "resolving_state E (snd (fst s'))"
      "list_all2 (\<lambda>m ro. case ro of
        None \<Rightarrow> m_Response m \<or> (\<exists>d p e y. Req d = m \<and> h d p = Some (e, y) \<and> is_drop e)
      | Some r \<Rightarrow> m_Id r = m_Id m \<and> m_Response r \<and> m_Question r = take 1 (m_Question m)) ms rs"
    unfolding f(1) assms(7) replies_def by blast
  have "handleTCPConnection (pe_lib E) (proxy_pipe E R c h) proto addr started conn ((b, p), n) k =
      Some (((fst (fst s'), snd (fst s')), snd s'), k\<lparr>tc_out := tc_out k @ concat (map (out_frame (pe_lib E)) rs), tc_closed := True\<rparr>)"
    by (simp add: handleTCPConnection_def l(1))
  moreover have "proxy_inv E (snd (fst s'))" using l(2) by (simp add: resolving_state_def)
  ultimately show ?thesis using f l(3) by blast
qed

text \<open>A library that also packs and unpacks one query, of twenty bytes.\<close>

definition wire_lib :: dnslib where
  "wire_lib = (sample_lib sample_resp)
     \<lparr>lib_Pack := (\<lambda>m. if m = sample_resp then Some [7] else if m = sample_req then Some (replicate 20 1) else None),
      lib_Unpack := (\<lambda>b. if b = [7] then Some sample_resp else if b = replicate 20 1 then Some sample_req else None)\<rparr>"

definition server_env :: "(nat, bytes \<Rightarrow> bytes option) proxy_env" where
  "server_env = sample_proxy_env\<lparr>pe_lib := wire_lib\<rparr>"

lemma wire_cache_libs: "cache_libs wire_lib map_glcache"
proof -
  have "lib_reply_law wire_lib" using sample_reply_law [of sample_resp] by (simp add: lib_reply_law_def wire_lib_def)
  moreover have "lib_wire_law wire_lib"
    unfolding lib_wire_law_def
  proof (intro allI impI)
    fix m b m'
    assume "lib_Pack wire_lib m = Some b" and u: "lib_Unpack wire_lib b = Some m'"
    then have "m = sample_resp \<and> b = [7] \<or> m = sample_req \<and> b = replicate 20 1"
      by (simp add: wire_lib_def del: replicate.simps split: if_splits)
    moreover have "replicate 20 (1 :: byte) \<noteq> [7]" by code_simp
    ultimately show "m_Question m' = m_Question m" using u by (auto simp: wire_lib_def)
  qed
  ultimately show ?thesis by (simp add: cache_libs_def map_glcache_law)
qed

lemma server_env_ok: "env_ok server_env"
proof -
  have "wrapped_env server_env ups = wrapped_env sample_proxy_env ups" for ups
    by (simp add: wrapped_env_def server_env_def)
  moreover have "lib_edns_law wire_lib" using sample_edns_law [of sample_resp] by (simp add: lib_edns_law_def wire_lib_def)
  moreover have "lib_SetEdns0_law wire_lib"
    using sample_SetEdns0_law [of sample_resp] by (simp add: lib_SetEdns0_law_def wire_lib_def)
  moreover have "lib_Truncate_law wire_lib" by (simp add: lib_Truncate_law_def wire_lib_def sample_lib_def Let_def)
  moreover have "pe_lib server_env = wire_lib" "pe_gl server_env = map_glcache" by (simp_all add: server_env_def sample_proxy_env_def)
  moreover have "pe_dns64 server_env = pe_dns64 sample_proxy_env" "pe_ex server_env = pe_ex sample_proxy_env"
    "pe_observe server_env = pe_observe sample_proxy_env" by (simp_all add: server_env_def)
  ultimately show ?thesis using sample_env_ok wire_cache_libs unfolding env_ok_def by simp
qed

lemma server_proxy_inv: "proxy_inv server_env sample_proxy"
proof -
  have "cache_inv wire_lib map_glcache (newCache map_glcache conf)" for conf
    by (rule newCache_inv [OF wire_cache_libs])
  then show ?thesis
    using sample_proxy_inv by (simp add: proxy_inv_def cache_ok_def sample_proxy_def server_env_def sample_proxy_env_def)
qed

abbreviation (input) "no_hosts \<equiv> \<lparr> ByName = (\<lambda>_. []), ByAddr = (\<lambda>_. []) \<rparr>"

abbreviation (input) "server_handler \<equiv> mw_Wrap (pe_lib server_env) no_hosts (\<lambda>_. None) False (DefaultHandler_ServeDNS server_env)"

abbreviation (input) "server_pipe \<equiv> proxy_pipe server_env sample_rate sample_rl_config server_handler"

definition sample_client :: AddrPort where
  "sample_client = \<lparr> ap_Addr = Addr4 [192, 0, 2, 9], ap_Port = 53 \<rparr>"

definition sample_tcp_conn :: tcp_conn where
  "sample_tcp_conn = \<lparr> tc_out = [], tc_closed = False, tc_fail = None, tc_closeErr = None \<rparr>"

theorem tcp_connection_answers_witness:
  "\<exists>b' p' n' k'. handleTCPConnection (pe_lib server_env) server_pipe ProtoTCP sample_client (\<lambda>_. True)
      ([0, 20] @ replicate 20 1 @ [0, 1]) (((\<lambda>_. None), sample_proxy), 0) sample_tcp_conn =
      Some (((b', p'), n'), k') \<and> proxy_inv server_env p' \<and> tc_closed k'"
  using tcp_connection_answers [OF server_env_ok server_proxy_inv _ _ _ _ refl, of ProtoTCP "\<lambda>_. True" sample_tcp_conn
      "[0, 20] @ replicate 20 1 @ [0, 1]" sample_rate sample_rl_config no_hosts "\<lambda>_. None" False sample_client "\<lambda>_. None" 0]
  by (force simp: sample_tcp_conn_def)

subsection \<open>Malformed packets\<close>

text \<open>
  C32.  A packet whose header was read but that cannot be unpacked never reaches the handler: unless it claims to be a response,
  the client gets exactly one packet, the answer FORMERR with its identifier, and of the proxy nothing changes.  A
  packet with an empty header or with the response bit is dropped.
\<close>

theorem malformed_packet_formerr:
  assumes "lib_reply_law L" "pe_lib E = L" "unpack packet = (req, Some e)"
    and "\<not> fst (isRatelimited R c b (ap_Addr raddr))"
  shows "\<exists>b'. udpHandlePacket L unpack (proxy_pipe E R c h) packet raddr ((b, p), n) k =
      Some ((if zero_header req then (b, p) else (b', p), n + 1),
        if zero_header req \<or> m_Response req then k
        else case lib_Pack L (NewMsgFORMERR L req) of None \<Rightarrow> k | Some bs \<Rightarrow> k\<lparr>uc_sent := uc_sent k @ [bs]\<rparr>) \<and>
    m_Id (NewMsgFORMERR L req) = m_Id req \<and> m_Rcode (NewMsgFORMERR L req) = RcodeFormatError \<and> m_Response (NewMsgFORMERR L req)"
proof -
  obtain b' where b': "isRatelimited R c b (ap_Addr raddr) = (False, b')"
    using assms(4) by (cases "isRatelimited R c b (ap_Addr raddr)") auto
  have "m_Id (NewMsgFORMERR L req) = m_Id req \<and> m_Rcode (NewMsgFORMERR L req) = RcodeFormatError \<and> m_Response (NewMsgFORMERR L req)"
    using assms(1) by (simp add: NewMsgFORMERR_def reply_def lib_reply_law_def)
  moreover have "snd (respondUDP L d k) = (case lib_Pack L m of None \<Rightarrow> k | Some bs \<Rightarrow> k\<lparr>uc_sent := uc_sent k @ [bs]\<rparr>)"
    if "Res d = Some m" for d :: "'a DNSContext" and m
    using that by (auto simp: respondUDP_def Let_def split: option.splits prod.splits)
  ultimately show ?thesis
    using b' by (auto simp: udpHandlePacket_def assms(3) newDNSContext_def serve_def proxy_pipe_def handleDNSRequest_def rl_Wrap_def
        processDNSRequest_def is_drop_def Let_def intro!: exI [of _ b'])
qed

theorem malformed_packet_formerr_witness:
  "\<exists>b'. udpHandlePacket (sample_lib (NewMsgFORMERR (sample_lib empty_Msg) sample_req)) (\<lambda>_. (sample_req, Some (ErrMsg ''overflow'')))
      (proxy_pipe (sample_proxy_env\<lparr>pe_lib := sample_lib (NewMsgFORMERR (sample_lib empty_Msg) sample_req)\<rparr>) sample_rate sample_rl_config
        (DefaultHandler_ServeDNS sample_proxy_env)) [1, 2, 3] sample_client
      (((\<lambda>_. None), sample_proxy), 0) \<lparr> uc_sent = [], uc_Write = (\<lambda>b. (length b, None)) \<rparr> =
     Some (((b', sample_proxy), 1), \<lparr> uc_sent = [[7]], uc_Write = (\<lambda>b. (length b, None)) \<rparr>)"
proof -
  let ?m = "NewMsgFORMERR (sample_lib empty_Msg) sample_req"
  let ?L = "sample_lib ?m" and ?k = "\<lparr> uc_sent = [], uc_Write = (\<lambda>b. (length b, None)) \<rparr>"
  have m: "NewMsgFORMERR ?L sample_req = ?m" by (simp add: NewMsgFORMERR_def reply_def sample_lib_def)
  have "\<not> fst (isRatelimited sample_rate sample_rl_config (\<lambda>_. None) (ap_Addr sample_client))"
    by (simp add: isRatelimited_def sample_rate_def sample_rl_config_def limiterForIP_def Let_def)
  moreover have "\<not> zero_header sample_req" "\<not> m_Response sample_req" "lib_Pack ?L ?m = Some [7]"
    by (simp_all add: zero_header_def sample_req_def empty_Msg_def sample_lib_def)
  ultimately show ?thesis
    using malformed_packet_formerr [OF sample_reply_law, of "sample_proxy_env\<lparr>pe_lib := ?L\<rparr>" ?m "\<lambda>_. (sample_req, Some (ErrMsg ''overflow''))"
        "[1, 2, 3]" sample_req "ErrMsg ''overflow''" sample_rate sample_rl_config "\<lambda>_. None"
        "sample_client" "DefaultHandler_ServeDNS sample_proxy_env" sample_proxy 0 ?k] m
    by auto
qed

end
