(* ===== verification/Server_Doq.thy ===== *)
theory Server_Doq
  imports Server_Stream
begin

text \<open>
  The DNS-over-QUIC listener (\<^verbatim>\<open>proxy/serverquic.go\<close>): reading a query from a stream, telling the version of the
  protocol, the checks of RFC 9250, and the response.  A stream is the sequence of results of its \<^verbatim>\<open>Read\<close> calls; of the
  QUIC library the model has the facts the code asks for (whether 0-RTT was used and the handshake is complete) and
  the codes connections are closed with.
\<close>

subsection \<open>Reading\<close>

definition DoQCodeInternalError :: nat where "DoQCodeInternalError = 1"

definition DoQCodeProtocolError :: nat where "DoQCodeProtocolError = 2"

definition EOF :: error where "EOF = ErrMsg ''EOF''"

definition ErrShortBuffer :: error where "ErrShortBuffer = ErrMsg ''short buffer''"

definition errIdle :: error where "errIdle = ErrMsg ''deadline exceeded''"

text \<open>
  \<^verbatim>\<open>readAll\<close> into a buffer of the given size.  A result with more bytes than the buffer has room for is cut by
  \<^verbatim>\<open>Read\<close>; when no result is left the deadline of the stream passes.
\<close>

fun readAll :: "nat \<Rightarrow> (bytes \<times> error option) list \<Rightarrow> bytes \<Rightarrow> bytes \<times> error option" where
  "readAll size_buf rs acc =
     (if length acc = size_buf then (acc, Some ErrShortBuffer)
      else (case rs of
          [] \<Rightarrow> (acc, Some errIdle)
        | (b, err) # rs \<Rightarrow>
            if length b > size_buf - length acc then (acc @ take (size_buf - length acc) b, Some ErrShortBuffer)
            else (case err of
                None \<Rightarrow> readAll size_buf rs (acc @ b)
              | Some e \<Rightarrow> (acc @ b, if e = EOF then None else Some e))))"

declare readAll.simps [simp del]

subsection \<open>Checks\<close>

record quic_conn =
  qc_Used0RTT :: bool
  qc_HandshakeComplete :: bool
  qc_closed :: "nat list"
  qc_out :: bytes
  qc_Write :: "bytes \<Rightarrow> nat \<times> error option"

definition closeQUICConn :: "nat \<Rightarrow> quic_conn \<Rightarrow> quic_conn" where
  "closeQUICConn code k = k\<lparr>qc_closed := qc_closed k @ [code]\<rparr>"

definition isReplayableOpcode :: "nat \<Rightarrow> bool" where
  "isReplayableOpcode opcode \<longleftrightarrow> opcode = 0 \<or> opcode = 4"

definition isNonReplayableEarlyData :: "quic_conn \<Rightarrow> Msg \<Rightarrow> bool" where
  "isNonReplayableEarlyData k req =
     (if isReplayableOpcode (m_Opcode req) then False
      else if \<not> qc_Used0RTT k then False
      else if qc_HandshakeComplete k then False else True)"

definition option_code :: "EDNS0 \<Rightarrow> uint16" where
  "option_code o' = (case o' of Subnet _ \<Rightarrow> 8 | OtherOption code _ \<Rightarrow> code)"

definition EDNS0TCPKEEPALIVE :: uint16 where "EDNS0TCPKEEPALIVE = 11"

definition validQUICMsg :: "dnslib \<Rightarrow> quic_conn \<Rightarrow> Msg \<Rightarrow> bool" where
  "validQUICMsg L k req =
     (if (case lib_IsEdns0 L req of
            None \<Rightarrow> False
          | Some i \<Rightarrow> list_ex (\<lambda>o'. option_code o' = EDNS0TCPKEEPALIVE) (rd_options (m_Extra req ! i))) then False
      else if isNonReplayableEarlyData k req then False else True)"

subsection \<open>Requests and responses\<close>

datatype DoQVersion = DoQv1Draft | DoQv1 | OtherVersion nat

definition respondQUIC :: "dnslib \<Rightarrow> DoQVersion \<Rightarrow> 'u DNSContext \<Rightarrow> quic_conn \<Rightarrow> error option \<times> quic_conn" where
  "respondQUIC L version d k = (case Res d of
      None \<Rightarrow> (Some (ErrMsg ''no response to write''), closeQUICConn DoQCodeInternalError k)
    | Some resp \<Rightarrow> (case lib_Pack L resp of
          None \<Rightarrow> (Some (ErrWrap ''packing'' (ErrMsg ''pack'')), k)
        | Some b \<Rightarrow>
            let buf = (case version of
                DoQv1 \<Rightarrow> (case LengthPrefix (int (length b)) of None \<Rightarrow> Inl errFrameLength | Some l \<Rightarrow> Inr (l @ b))
              | DoQv1Draft \<Rightarrow> Inr b
              | OtherVersion _ \<Rightarrow> Inl (ErrMsg ''invalid protocol version'')) in
            (case buf of
              Inl e \<Rightarrow> (Some e, k)
            | Inr buf \<Rightarrow>
                let (n, err) = qc_Write k buf; k = k\<lparr>qc_out := qc_out k @ take n buf\<rparr> in
                (case err of
                  Some e \<Rightarrow> (Some (ErrWrap ''conn.Write()'' e), k)
                | None \<Rightarrow> (if n = length buf then None else Some (ErrMsg ''conn.Write() returned''), k)))))"

definition quic_minDNSPacketSize :: nat where "quic_minDNSPacketSize = 12 + 5"

text \<open>The buffer of the pool: two bytes for the length of a packet and the largest message.\<close>

definition bufSize :: nat where "bufSize = 2 + 65535"

text \<open>How the bytes of a query are read: a prefix that is exactly the length of the rest tells the version.\<close>

definition decodeQUIC :: "dnslib \<Rightarrow> bytes \<Rightarrow> (Msg option \<times> DoQVersion) go" where
  "decodeQUIC L buf = do {
     packetLen \<leftarrow> get_uint16 (take 2 buf);
     Some (if unat packetLen + 2 = length buf then (lib_Unpack L (drop 2 buf), DoQv1)
           else (lib_Unpack L buf, DoQv1Draft)) }"

definition handleQUICStream ::
  "dnslib \<Rightarrow> ('u, 's) pipe \<Rightarrow> AddrPort \<Rightarrow> (bytes \<times> error option) list \<Rightarrow> 's \<times> uint64 \<Rightarrow> quic_conn \<Rightarrow>
     (('s \<times> uint64) \<times> quic_conn) go" where
  "handleQUICStream L pipe raddr stream s k =
     (let (buf, err) = readAll bufSize stream [] in
      if (case err of None \<Rightarrow> False | Some e \<Rightarrow> e \<noteq> EOF) \<or> length buf < quic_minDNSPacketSize then Some (s, k)
      else do {
        (req, version) \<leftarrow> decodeQUIC L buf;
        (case req of
          None \<Rightarrow> Some (s, closeQUICConn DoQCodeProtocolError k)
        | Some req \<Rightarrow>
            if \<not> validQUICMsg L k req then Some (s, closeQUICConn DoQCodeProtocolError k)
            else serve_new pipe (respondQUIC L version) ProtoQUIC req raddr s k) })"

subsection \<open>Reading a stream in pieces\<close>

lemma readAll_pieces:
  assumes "length (acc @ concat cs) < n" "length (acc @ concat cs @ c) \<le> n"
  shows "readAll n (map (\<lambda>b. (b, None)) cs @ [(c, Some EOF)]) acc = (acc @ concat cs @ c, None)"
  using assms
proof (induction cs arbitrary: acc)
  case Nil
  then show ?case by (subst readAll.simps) auto
next
  case (Cons b cs)
  from Cons.IH [of "acc @ b"] Cons.prems show ?case by (subst readAll.simps) auto
qed

lemma decodeQUIC_framed: "length b \<le> 65535 \<Longrightarrow> decodeQUIC L (framed b) = Some (lib_Unpack L b, DoQv1)"
proof -
  assume "length b \<le> 65535"
  then have "unat (word_of_nat (length b) :: uint16) = length b" by (simp add: unsigned_of_nat take_bit_nat_eq_self)
  moreover have "get_uint16 (put_uint16 w) = Some w" for w using get_put_uint16 [of w "[]"] by simp
  ultimately show ?thesis by (simp add: decodeQUIC_def framed_def)
qed

text \<open>What a client sends and what it gets, in the format of its version.\<close>

definition encoded :: "bool \<Rightarrow> bytes \<Rightarrow> bytes" where
  "encoded v1 b = (if v1 then framed b else b)"

definition encoded_response :: "dnslib \<Rightarrow> bool \<Rightarrow> Msg \<Rightarrow> bytes" where
  "encoded_response L v1 res = (if v1 then frame_of L res else case lib_Pack L res of None \<Rightarrow> [] | Some b \<Rightarrow> b)"

definition forbidden_quic :: "dnslib \<Rightarrow> quic_conn \<Rightarrow> Msg \<Rightarrow> bool" where
  "forbidden_quic L k m \<longleftrightarrow>
     (\<exists>i. lib_IsEdns0 L m = Some i \<and> (\<exists>o' \<in> set (rd_options (m_Extra m ! i)). option_code o' = 11)) \<or>
     qc_Used0RTT k \<and> \<not> qc_HandshakeComplete k \<and> m_Opcode m \<notin> {0, 4}"

lemma validQUICMsg_iff: "validQUICMsg L k m \<longleftrightarrow> \<not> forbidden_quic L k m"
  by (auto simp: validQUICMsg_def forbidden_quic_def isNonReplayableEarlyData_def isReplayableOpcode_def EDNS0TCPKEEPALIVE_def
      list_ex_iff split: option.splits)

lemma respondQUIC_encoded:
  assumes "Res d = Some res" "qc_Write k = (\<lambda>buf. (length buf, None))"
  shows "snd (respondQUIC L (if v1 then DoQv1 else DoQv1Draft) d k) = k\<lparr>qc_out := qc_out k @ encoded_response L v1 res\<rparr>"
  using assms by (auto simp: respondQUIC_def encoded_response_def frame_of_def framed_def LengthPrefix_def split: option.splits)

lemma decodeQUIC_encoded:
  assumes "length b \<le> 65535" "v1 \<or> 2 \<le> length b \<and> (\<forall>w. get_uint16 (take 2 b) = Some w \<longrightarrow> unat w + 2 \<noteq> length b)"
  shows "decodeQUIC L (encoded v1 b) = Some (lib_Unpack L b, if v1 then DoQv1 else DoQv1Draft)"
proof (cases v1)
  case False
  with assms(2) obtain w where "get_uint16 (take 2 b) = Some w" "unat w + 2 \<noteq> length b"
    using get_uint16_None_iff [of "take 2 b"] by auto
  with False show ?thesis by (simp add: decodeQUIC_def encoded_def)
qed (simp add: encoded_def decodeQUIC_framed [OF assms(1)])

context request_pipe
begin

lemma quic_stream_answers:
  assumes "valid (fst s)" "qc_Write k = (\<lambda>buf. (length buf, None))" "lib_Unpack L b = Some m" "length b \<le> 65535"
    and "v1 \<or> 2 \<le> length b \<and> (\<forall>w. get_uint16 (take 2 b) = Some w \<longrightarrow> unat w + 2 \<noteq> length b)"
    and "17 \<le> length (encoded v1 b)" "encoded v1 b = concat cs @ c" "length (concat cs) < bufSize"
  shows "\<exists>s' k'. handleQUICStream L pipe raddr (map (\<lambda>b. (b, None)) cs @ [(c, Some EOF)]) s k = Some (s', k') \<and> valid (fst s') \<and>
    (if forbidden_quic L k m then s' = s \<and> k' = k\<lparr>qc_closed := qc_closed k @ [2]\<rparr>
     else k' = k \<and> (m_Response m \<or> drops m) \<or> (\<exists>res. replies m res \<and> k' = k\<lparr>qc_out := qc_out k @ encoded_response L v1 res\<rparr>))"
proof -
  let ?v = "if v1 then DoQv1 else DoQv1Draft"
  have "length (encoded v1 b) \<le> bufSize" using assms(4) by (simp add: encoded_def framed_def bufSize_def)
  with assms(7,8) have "readAll bufSize (map (\<lambda>b. (b, None)) cs @ [(c, Some EOF)]) [] = (encoded v1 b, None)"
    by (subst readAll_pieces) auto
  then have run: "handleQUICStream L pipe raddr (map (\<lambda>b. (b, None)) cs @ [(c, Some EOF)]) s k =
      (if forbidden_quic L k m then Some (s, closeQUICConn DoQCodeProtocolError k)
       else serve_new pipe (respondQUIC L ?v) ProtoQUIC m raddr s k)"
    using assms(6) decodeQUIC_encoded [OF assms(4,5), of L] assms(3)
    by (simp add: handleQUICStream_def quic_minDNSPacketSize_def validQUICMsg_iff)
  show ?thesis
  proof (cases "forbidden_quic L k m")
    case True
    with run assms(1) show ?thesis by (simp add: closeQUICConn_def DoQCodeProtocolError_def)
  next
    case False
    have "ProtoQUIC \<noteq> ProtoUDP" by simp
    from assms(1) this show ?thesis
    proof (cases rule: serve_new_answers [where req = m and addr = raddr and writer = "respondQUIC L ?v" and k = k])
      case (dropped s')
      with run False show ?thesis by auto
    next
      case (answered s' d' res)
      with run False respondQUIC_encoded [OF answered(3) assms(2), of L v1] show ?thesis by auto
    qed
  qed
qed

end


definition sample_quic_conn :: quic_conn where
  "sample_quic_conn = \<lparr> qc_Used0RTT = True, qc_HandshakeComplete = False, qc_closed = [], qc_out = [],
     qc_Write = (\<lambda>b. (length b, None)) \<rparr>"


subsection \<open>The largest query\<close>

text \<open>
  The buffer has room for the length and the largest message, but \<^verbatim>\<open>readAll\<close> gives up once it is full: a query of
  65535 bytes is dropped without an answer when the end of the stream is not reported together with the last byte.
\<close>

theorem doq_largest_query_dropped:
  assumes "length b = 65535"
  shows "handleQUICStream L pipe raddr [(framed b, None), ([], Some EOF)] s k = Some (s, k)"
proof -
  have "length (framed b) = bufSize" using assms by (simp add: framed_def bufSize_def)
  then have "readAll bufSize [(framed b, None), ([], Some EOF)] [] = (framed b, Some ErrShortBuffer)"
    by (subst readAll.simps, subst readAll.simps) (simp add: bufSize_def)
  then show ?thesis by (simp add: handleQUICStream_def ErrShortBuffer_def EOF_def)
qed

end
