(* ===== verification/Server_Doh.thy ===== *)
theory Server_Doh
  imports Server_Stream
begin

text \<open>
  The DNS-over-HTTPS listener (\<^verbatim>\<open>proxy/serverhttps.go\<close>): admission of a request, the address of its client, decoding
  and the response, with the encoding the DNS-over-HTTPS upstream uses for its queries.  Of an HTTP request the model has what the
  code asks for: the method, the query parameters, the headers, the result of reading the body up to the limit, the
  address of the peer, and the credentials.  Reading addresses from text is a parameter.
\<close>

subsection \<open>base64\<close>

text \<open>\<^verbatim>\<open>base64.RawURLEncoding\<close>: six bits per character, no padding, line breaks ignored.\<close>

definition b64_char :: "nat \<Rightarrow> char" where
  "b64_char n = (if n < 26 then char_of (65 + n) else if n < 52 then char_of (97 + (n - 26))
     else if n < 62 then char_of (48 + (n - 52)) else if n = 62 then CHR ''-'' else CHR ''_'')"

definition b64_value :: "char \<Rightarrow> nat option" where
  "b64_value c = (let n = of_char c :: nat in
     if 65 \<le> n \<and> n \<le> 90 then Some (n - 65) else if 97 \<le> n \<and> n \<le> 122 then Some (n - 97 + 26)
     else if 48 \<le> n \<and> n \<le> 57 then Some (n - 48 + 52) else if c = CHR ''-'' then Some 62
     else if c = CHR ''_'' then Some 63 else None)"

fun sextets :: "nat list \<Rightarrow> nat list" where
  "sextets [] = []"
| "sextets [a] = [a div 4, (a mod 4) * 16]"
| "sextets [a, b] = [a div 4, (a mod 4) * 16 + b div 16, (b mod 16) * 4]"
| "sextets (a # b # c # rest) = [a div 4, (a mod 4) * 16 + b div 16, (b mod 16) * 4 + c div 64, c mod 64] @ sextets rest"

fun octets :: "nat list \<Rightarrow> nat list option" where
  "octets [] = Some []"
| "octets [a] = None"
| "octets [a, b] = Some [a * 4 + b div 16]"
| "octets [a, b, c] = Some [a * 4 + b div 16, (b mod 16) * 16 + c div 4]"
| "octets (a # b # c # d # rest) =
     map_option (\<lambda>os. [a * 4 + b div 16, (b mod 16) * 16 + c div 4, (c mod 4) * 64 + d] @ os) (octets rest)"

definition EncodeToString :: "bytes \<Rightarrow> string" where
  "EncodeToString b = map b64_char (sextets (map unat b))"

definition DecodeString :: "string \<Rightarrow> bytes option" where
  "DecodeString s = do {
     vs \<leftarrow> those (map b64_value (filter (\<lambda>c. c \<notin> {CHR 0x0D, CHR 0x0A}) s));
     os \<leftarrow> octets vs;
     Some (map word_of_nat os) }"

subsection \<open>Requests\<close>

record http_request =
  hr_Method :: string
  hr_Query :: "(string \<times> string) list"
  hr_Header :: "string \<Rightarrow> string"
  hr_Body :: "error + bytes"
  hr_RemoteAddr :: string
  hr_TLS :: bool
  hr_BasicAuth :: "(string \<times> string) option"
  hr_ProtoMajor :: nat

definition query_get :: "string \<Rightarrow> http_request \<Rightarrow> string" where
  "query_get key r = (case map_of (hr_Query r) key of None \<Rightarrow> [] | Some v \<Rightarrow> v)"

definition newDoHReq :: "dnslib \<Rightarrow> http_request \<Rightarrow> Msg option \<times> nat" where
  "newDoHReq L r =
     (let unpacked = (\<lambda>buf. case lib_Unpack L buf of None \<Rightarrow> (None, 400) | Some m \<Rightarrow> (Some m, 200)) in
      if hr_Method r = ''GET'' then
        (case DecodeString (query_get ''dns'' r) of
           None \<Rightarrow> (None, 400)
         | Some buf \<Rightarrow> if buf = [] then (None, 400) else unpacked buf)
      else if hr_Method r = ''POST'' then
        (if hr_Header r ''Content-Type'' \<noteq> ''application/dns-message'' then (None, 415)
         else (case hr_Body r of Inl err \<Rightarrow> (None, 400) | Inr buf \<Rightarrow> unpacked buf))
      else (None, 405))"

record http_writer =
  hw_status :: "nat option"
  hw_headers :: "(string \<times> string) list"
  hw_body :: "bytes option"
  hw_Write :: "bytes \<Rightarrow> error option"

text \<open>The text of an error page is left out.\<close>

definition http_Error :: "nat \<Rightarrow> http_writer \<Rightarrow> http_writer" where
  "http_Error code w = w\<lparr>hw_status := Some code\<rparr>"

definition http_Set :: "string \<Rightarrow> string \<Rightarrow> http_writer \<Rightarrow> http_writer" where
  "http_Set k v w = w\<lparr>hw_headers := (k, v) # hw_headers w\<rparr>"

text \<open>The first call of \<^verbatim>\<open>Write\<close> sends the status 200.\<close>

definition http_Write :: "bytes \<Rightarrow> http_writer \<Rightarrow> error option \<times> http_writer" where
  "http_Write b w = (hw_Write w b, w\<lparr>hw_status := Some 200, hw_body := Some b\<rparr>)"

fun digits :: "nat \<Rightarrow> string" where
  "digits n = (if n < 10 then [char_of (48 + n)] else digits (n div 10) @ [char_of (48 + n mod 10)])"

declare digits.simps [simp del]

record https_conf =
  hc_InsecureEnabled :: bool
  hc_Userinfo :: "(string \<times> string) option"
  hc_ServerHeader :: string
  hc_trustedProxies :: "Addr \<Rightarrow> bool"
  hc_ParseAddr :: "string \<Rightarrow> Addr option"
  hc_ParseAddrPort :: "string \<Rightarrow> AddrPort option"

definition respondHTTPS :: "dnslib \<Rightarrow> https_conf \<Rightarrow> http_request \<Rightarrow> 'u DNSContext \<Rightarrow> http_writer \<Rightarrow> error option \<times> http_writer" where
  "respondHTTPS L C r d w = (case Res d of
      None \<Rightarrow> (None, http_Error 500 w)
    | Some resp \<Rightarrow> (case lib_Pack L resp of
          None \<Rightarrow> (Some (ErrWrap ''packing message'' (ErrMsg ''pack'')), http_Error 500 w)
        | Some b \<Rightarrow>
            let w = (if hc_ServerHeader C \<noteq> [] then http_Set ''Server'' (hc_ServerHeader C) w else w);
                w = http_Set ''Content-Type'' ''application/dns-message'' w;
                w = (if hr_ProtoMajor r = 1 then http_Set ''Content-Length'' (digits (length b)) w else w)
            in http_Write b w))"

subsection \<open>The client\<close>

definition TrimSpace :: "string \<Rightarrow> string" where
  "TrimSpace s = rev (dropWhile is_space (rev (dropWhile is_space s)))"

text \<open>The part before the first comma, unless the comma comes first.\<close>

definition first_forwarded :: "string \<Rightarrow> string" where
  "first_forwarded xff = (let p = takeWhile (\<lambda>c. c \<noteq> CHR '','') xff in if p = [] then xff else p)"

definition realIPFromHdrs :: "(string \<Rightarrow> Addr option) \<Rightarrow> http_request \<Rightarrow> Addr option" where
  "realIPFromHdrs parse r =
     (case List.map_filter (\<lambda>h. parse (TrimSpace (hr_Header r h))) [''CF-Connecting-IP'', ''True-Client-IP'', ''X-Real-IP''] of
        ip # _ \<Rightarrow> Some ip
      | [] \<Rightarrow> parse (TrimSpace (first_forwarded (hr_Header r ''X-Forwarded-For''))))"

definition zero_AddrPort :: AddrPort where
  "zero_AddrPort = \<lparr> ap_Addr = AddrZero, ap_Port = 0 \<rparr>"

definition remoteAddr :: "https_conf \<Rightarrow> http_request \<Rightarrow> AddrPort \<times> AddrPort" where
  "remoteAddr C r = (case hc_ParseAddrPort C (hr_RemoteAddr r) of
      None \<Rightarrow> (zero_AddrPort, zero_AddrPort)
    | Some host \<Rightarrow> (case realIPFromHdrs (hc_ParseAddr C) r of
          None \<Rightarrow> (host, zero_AddrPort)
        | Some realIP \<Rightarrow> (\<lparr> ap_Addr = realIP, ap_Port = 0 \<rparr>, host)))"

definition quoted :: "string \<Rightarrow> string" where
  "quoted s = [CHR 0x22] @ s @ [CHR 0x22]"

definition matchesUserinfo :: "string \<times> string \<Rightarrow> string \<Rightarrow> string \<Rightarrow> bool" where
  "matchesUserinfo ui user pass \<longleftrightarrow> user = fst ui \<and> pass = snd ui"

definition checkBasicAuth :: "https_conf \<Rightarrow> http_request \<Rightarrow> http_writer \<Rightarrow> bool \<times> http_writer" where
  "checkBasicAuth C r w = (case hc_Userinfo C of
      None \<Rightarrow> (True, w)
    | Some ui \<Rightarrow>
        let (user, pass) = (case hr_BasicAuth r of None \<Rightarrow> ([], []) | Some up \<Rightarrow> up) in
        if matchesUserinfo ui user pass then (True, w)
        else (False, http_Error 401 (http_Set ''WWW-Authenticate'' (''Basic realm='' @ quoted ''DNS'' @ '', charset='' @ quoted ''UTF-8'') w)))"

definition ServeHTTP ::
  "dnslib \<Rightarrow> https_conf \<Rightarrow> ('u, 's) pipe \<Rightarrow> http_request \<Rightarrow> 's \<times> uint64 \<Rightarrow> http_writer \<Rightarrow> (('s \<times> uint64) \<times> http_writer) go" where
  "ServeHTTP L C pipe r s w =
     (if \<not> hc_InsecureEnabled C \<and> \<not> hr_TLS r then Some (s, http_Error 404 w)
      else let (raddr, prx) = remoteAddr C r; (shouldHandle, w) = checkBasicAuth C r w in
        if \<not> shouldHandle then Some (s, w)
        else (case newDoHReq L r of
            (None, statusCode) \<Rightarrow> Some (s, http_Error statusCode w)
          | (Some req, _) \<Rightarrow>
              let raddr = (if ap_Addr prx \<noteq> AddrZero \<and> \<not> hc_trustedProxies C (ap_Addr prx) then prx else raddr) in
              serve_new pipe (respondHTTPS L C r) ProtoHTTPS req raddr s w))"

subsection \<open>Queries of the upstream reach the listener\<close>

lemma sextets_bound: "list_all (\<lambda>x. x < 256) ns \<Longrightarrow> list_all (\<lambda>x. x < 64) (sextets ns)"
  by (induction ns rule: sextets.induct) auto

lemma sextet_arith:
  fixes b :: nat
  assumes "b < 256"
  shows "b div 16 div 16 = 0" "b div 16 mod 16 = b div 16" "b div 64 div 4 = 0" "b div 64 mod 4 = b div 64"
  using assms by auto

lemma octets_sextets: "list_all (\<lambda>x. x < 256) ns \<Longrightarrow> octets (sextets ns) = Some ns"
  by (induction ns rule: sextets.induct) (simp_all add: sextet_arith)

lemma b64_value_char:
  assumes "n < 64"
  shows "b64_value (b64_char n) = Some n" "b64_char n \<noteq> CHR 0x0D" "b64_char n \<noteq> CHR 0x0A"
proof -
  consider "n < 26" | "26 \<le> n" "n < 52" | "52 \<le> n" "n < 62" | "n = 62" | "n = 63" using assms by linarith
  then show *: "b64_value (b64_char n) = Some n"
    by cases (simp_all add: b64_char_def b64_value_def Let_def, linarith)
  have "b64_value (CHR 0x0D) = None" "b64_value (CHR 0x0A) = None" by (simp_all add: b64_value_def)
  with * show "b64_char n \<noteq> CHR 0x0D" "b64_char n \<noteq> CHR 0x0A" by auto
qed

lemma those_b64: "list_all (\<lambda>x. x < 64) ns \<Longrightarrow> those (map b64_value (filter (\<lambda>c. c \<notin> {CHR 0x0D, CHR 0x0A}) (map b64_char ns))) = Some ns"
  by (induction ns) (simp_all add: b64_value_char)

lemma DecodeString_EncodeToString: "DecodeString (EncodeToString b) = Some b"
proof -
  have "unat x < 256" for x :: byte using unsigned_less [of x] by simp
  then have "list_all (\<lambda>x. x < 256) (map unat b)" by (simp add: list_all_iff)
  from those_b64 [OF sextets_bound [OF this]] octets_sextets [OF this] show ?thesis
    by (simp add: DecodeString_def EncodeToString_def comp_def)
qed

text \<open>The request the DNS-over-HTTPS upstream makes for a packed query.\<close>

definition doh_get_request :: "bytes \<Rightarrow> (string \<Rightarrow> string) \<Rightarrow> http_request" where
  "doh_get_request buf headers = \<lparr> hr_Method = ''GET'', hr_Query = [(''dns'', EncodeToString buf)], hr_Header = headers,
     hr_Body = Inr [], hr_RemoteAddr = [], hr_TLS = True, hr_BasicAuth = None, hr_ProtoMajor = 2 \<rparr>"



subsection \<open>Admission\<close>

definition authorised :: "https_conf \<Rightarrow> http_request \<Rightarrow> bool" where
  "authorised C r \<longleftrightarrow> (hc_InsecureEnabled C \<or> hr_TLS r) \<and>
     (\<forall>u p. hc_Userinfo C = Some (u, p) \<longrightarrow> (case hr_BasicAuth r of None \<Rightarrow> u = [] \<and> p = [] | Some up \<Rightarrow> up = (u, p)))"

text \<open>The address a request is handled with.\<close>

definition doh_client :: "https_conf \<Rightarrow> http_request \<Rightarrow> AddrPort" where
  "doh_client C r = (let (raddr, prx) = remoteAddr C r in
     if ap_Addr prx \<noteq> AddrZero \<and> \<not> hc_trustedProxies C (ap_Addr prx) then prx else raddr)"

lemma ServeHTTP_eq:
  "ServeHTTP L C pipe r s w =
     (if \<not> hc_InsecureEnabled C \<and> \<not> hr_TLS r then Some (s, http_Error 404 w)
      else if \<not> authorised C r then Some (s, snd (checkBasicAuth C r w))
      else (case newDoHReq L r of
          (None, statusCode) \<Rightarrow> Some (s, http_Error statusCode w)
        | (Some req, _) \<Rightarrow> serve_new pipe (respondHTTPS L C r) ProtoHTTPS req (doh_client C r) s w))"
proof -
  have "checkBasicAuth C r w = (authorised C r, if authorised C r then w else snd (checkBasicAuth C r w))"
    if "hc_InsecureEnabled C \<or> hr_TLS r"
    using that by (auto simp: checkBasicAuth_def authorised_def matchesUserinfo_def split: option.splits prod.splits)
  then show ?thesis
    by (cases "hc_InsecureEnabled C \<or> hr_TLS r"; cases "authorised C r"; cases "remoteAddr C r")
      (simp_all add: ServeHTTP_def, auto simp: doh_client_def split: prod.splits option.splits)
qed

lemma newDoHReq_code: "newDoHReq L r = (None, code) \<Longrightarrow> code \<in> {400, 405, 415}"
  by (auto simp: newDoHReq_def Let_def split: if_splits option.splits sum.splits)

lemma checkBasicAuth_denied:
  assumes "hc_InsecureEnabled C \<or> hr_TLS r" "\<not> authorised C r"
  shows "hw_status (snd (checkBasicAuth C r w)) = Some 401"
  using assms by (auto simp: checkBasicAuth_def authorised_def matchesUserinfo_def http_Error_def split: option.splits prod.splits)

lemma doh_client_peer:
  assumes "hc_ParseAddrPort C (hr_RemoteAddr r) = Some peer" "ap_Addr peer \<noteq> AddrZero"
  shows "doh_client C r = (case realIPFromHdrs (hc_ParseAddr C) r of
      Some ip \<Rightarrow> if hc_trustedProxies C (ap_Addr peer) then \<lparr> ap_Addr = ip, ap_Port = 0 \<rparr> else peer
    | None \<Rightarrow> peer)"
  using assms by (auto simp: doh_client_def remoteAddr_def zero_AddrPort_def split: option.splits)

lemma respondHTTPS_status:
  assumes "Res d = Some res"
  shows "hw_status (snd (respondHTTPS L C r d w)) = Some (if lib_Pack L res = None then 500 else 200) \<and>
    (\<forall>b. lib_Pack L res = Some b \<longrightarrow> hw_body (snd (respondHTTPS L C r d w)) = Some b)"
  using assms by (auto simp: respondHTTPS_def http_Error_def http_Write_def http_Set_def Let_def split: option.splits)

text \<open>What the writer holds after a message was processed.\<close>

definition doh_answered :: "dnslib \<Rightarrow> (Msg \<Rightarrow> bool) \<Rightarrow> Msg \<Rightarrow> http_writer \<Rightarrow> http_writer \<Rightarrow> bool" where
  "doh_answered L drops m w w' \<longleftrightarrow> w' = w \<and> (m_Response m \<or> drops m) \<or>
     (\<exists>res. replies m res \<and> hw_status w' = Some (if lib_Pack L res = None then 500 else 200) \<and>
        (\<forall>b. lib_Pack L res = Some b \<longrightarrow> hw_body w' = Some b))"

context request_pipe
begin

lemma doh_serve_answered:
  assumes "valid (fst s)"
  shows "\<exists>s' w'. serve_new pipe (respondHTTPS L C r) ProtoHTTPS m addr s w = Some (s', w') \<and> valid (fst s') \<and> doh_answered L drops m w w'"
proof -
  have "ProtoHTTPS \<noteq> ProtoUDP" by simp
  from assms this show ?thesis
  proof (cases rule: serve_new_answers [where req = m and addr = addr and writer = "respondHTTPS L C r" and k = w])
    case (answered s' d' res)
    with respondHTTPS_status [OF answered(3), of L C r w] show ?thesis unfolding doh_answered_def by blast
  qed (auto simp: doh_answered_def)
qed

end

text \<open>
  C5.  Admission of DNS over HTTPS.  No request panics the proxy or makes its state invalid.  A request without
  encryption, where it is required, without the right credentials or without a message leaves the proxy unchanged and gets
  the status 404, 401, or one of 400, 405 and 415.  Every other message is answered once, as the pipeline answers it.  The client it
  is handled for is the peer of the connection, unless that is a trusted proxy: only then an address from the
  headers is believed.
\<close>

theorem doh_request_admission:
  assumes "env_ok E" "proxy_inv E p" "hc_ParseAddrPort C (hr_RemoteAddr r) = Some peer" "ap_Addr peer \<noteq> AddrZero"
    and "h = mw_Wrap (pe_lib E) H reversed halt (DefaultHandler_ServeDNS E)"
  shows "\<exists>b' p' n' w'. ServeHTTP (pe_lib E) C (proxy_pipe E R c h) r ((b, p), n) w = Some (((b', p'), n'), w') \<and> proxy_inv E p' \<and>
    (case newDoHReq (pe_lib E) r of
      (None, _) \<Rightarrow> p' = p \<and> hw_status w' \<in> Some ` {404, 401, 400, 405, 415}
    | (Some m, _) \<Rightarrow>
        if \<not> authorised C r then p' = p \<and> hw_status w' \<in> Some ` {404, 401}
        else doh_answered (pe_lib E) (\<lambda>m. \<exists>d p e x. Req d = m \<and> h d p = Some (e, x) \<and> is_drop e) m w w' \<and>
          serve_new (proxy_pipe E R c h) (respondHTTPS (pe_lib E) C r) ProtoHTTPS m
            (case realIPFromHdrs (hc_ParseAddr C) r of
               Some ip \<Rightarrow> if hc_trustedProxies C (ap_Addr peer) then \<lparr> ap_Addr = ip, ap_Port = 0 \<rparr> else peer
             | None \<Rightarrow> peer) ((b, p), n) w = Some (((b', p'), n'), w'))"
proof (cases "authorised C r \<and> fst (newDoHReq (pe_lib E) r) \<noteq> None")
  case True
  then obtain m code where m: "newDoHReq (pe_lib E) r = (Some m, code)" by (cases "newDoHReq (pe_lib E) r") auto
  have "resolving_state E (snd (fst ((b, p), n)))" using assms(1,2) by (simp add: resolving_state_def)
  from proxied.doh_serve_answered [OF this, of R c H reversed halt "pe_lib E" C r m "doh_client C r" w] obtain s' w' where
    s: "serve_new (proxy_pipe E R c h) (respondHTTPS (pe_lib E) C r) ProtoHTTPS m (doh_client C r) ((b, p), n) w = Some (s', w')"
      "proxy_inv E (snd (fst s'))" "doh_answered (pe_lib E) (\<lambda>m. \<exists>d p e x. Req d = m \<and> h d p = Some (e, x) \<and> is_drop e) m w w'"
    unfolding assms(5) resolving_state_def by blast
  moreover have "hc_InsecureEnabled C \<or> hr_TLS r" using True by (simp add: authorised_def)
  ultimately have "ServeHTTP (pe_lib E) C (proxy_pipe E R c h) r ((b, p), n) w = Some (s', w')"
    using True m by (auto simp: ServeHTTP_eq)
  with s True m show ?thesis
    unfolding doh_client_peer [OF assms(3,4), symmetric] by (cases s'; cases "fst s'") auto
next
  case False
  then show ?thesis
    using assms(2) checkBasicAuth_denied [of C r w] newDoHReq_code [of "pe_lib E" r]
    by (cases "newDoHReq (pe_lib E) r") (auto simp: ServeHTTP_eq http_Error_def split: option.splits)
qed

text \<open>A client that sends a query and claims another address, without being a trusted proxy.\<close>

definition sample_doh_conf :: https_conf where
  "sample_doh_conf = \<lparr> hc_InsecureEnabled = False, hc_Userinfo = Some (''u'', ''p''), hc_ServerHeader = [],
     hc_trustedProxies = (\<lambda>_. False), hc_ParseAddr = (\<lambda>s. if s = ''1'' then Some (Addr4 [1, 1, 1, 1]) else None),
     hc_ParseAddrPort = (\<lambda>_. Some sample_client) \<rparr>"

definition sample_doh_request :: http_request where
  "sample_doh_request = \<lparr> hr_Method = ''POST'', hr_Query = [],
     hr_Header = (\<lambda>h. if h = ''X-Real-IP'' then ''1'' else if h = ''Content-Type'' then ''application/dns-message'' else []),
     hr_Body = Inr (replicate 20 1), hr_RemoteAddr = ''192.0.2.9:53'', hr_TLS = True, hr_BasicAuth = Some (''u'', ''p''),
     hr_ProtoMajor = 2 \<rparr>"

definition sample_writer :: http_writer where
  "sample_writer = \<lparr> hw_status = None, hw_headers = [], hw_body = None, hw_Write = (\<lambda>_. None) \<rparr>"

theorem doh_request_admission_witness:
  "\<exists>x. ServeHTTP (pe_lib server_env) sample_doh_conf server_pipe sample_doh_request (((\<lambda>_. None), sample_proxy), 0) sample_writer = Some x \<and>
     serve_new server_pipe (respondHTTPS (pe_lib server_env) sample_doh_conf sample_doh_request) ProtoHTTPS sample_req
       sample_client (((\<lambda>_. None), sample_proxy), 0) sample_writer = Some x"
proof -
  have "replicate 20 (1 :: byte) \<noteq> [7]" by code_simp
  then have m: "lib_Unpack (pe_lib server_env) (replicate 20 1) = Some sample_req" by (simp add: server_env_def wire_lib_def)
  have n: "newDoHReq (pe_lib server_env) sample_doh_request = (Some sample_req, 200)"
    by (simp add: newDoHReq_def sample_doh_request_def m)
  have a: "authorised sample_doh_conf sample_doh_request" by (simp add: authorised_def sample_doh_conf_def sample_doh_request_def)
  have p: "hc_ParseAddrPort sample_doh_conf (hr_RemoteAddr sample_doh_request) = Some sample_client"
    "ap_Addr sample_client \<noteq> AddrZero" "\<not> hc_trustedProxies sample_doh_conf (ap_Addr sample_client)"
    by (simp_all add: sample_doh_conf_def sample_client_def)
  from doh_request_admission [OF server_env_ok server_proxy_inv p(1,2) refl, of sample_rate sample_rl_config no_hosts "\<lambda>_. None" False
      "\<lambda>_. None" 0 sample_writer] show ?thesis
    by (auto simp: n a p(3) split: option.splits)
qed

end
