(* ===== verification/Dnscrypt_Server.thy ===== *)
theory Dnscrypt_Server
  imports Dnscrypt_Session Server_Stream
begin

text \<open>
  The DNSCrypt server (\<^verbatim>\<open>dnscrypt/server.go\<close>, \<^verbatim>\<open>dnscrypt/servertcp.go\<close>, \<^verbatim>\<open>dnscrypt/serverudp.go\<close>)
  with the handler of the proxy (\<^verbatim>\<open>proxy/serverdnscrypt.go\<close>): from the bytes of a packet or a connection to
  the encrypted responses.  Each response takes the time and the random bytes of its nonce from
  \<^verbatim>\<open>entropy\<close>, by the number of messages written before it.  A panic while a response is
  written is a panic of the server.
\<close>

subsection \<open>Response writers\<close>

record entropy =
  en_now :: "nat \<Rightarrow> uint64"
  en_rnd :: "nat \<Rightarrow> bytes"

record dc_server =
  dc_lib :: dnslib
  dc_crypto :: crypto
  dc_entropy :: entropy
  dc_resolverCert :: Certificate
  dc_providerName :: string

text \<open>A connection, with the number of messages encrypted for it.\<close>

type_synonym 'k dc_write = "Msg \<Rightarrow> nat \<times> 'k \<Rightarrow> (error option \<times> nat \<times> 'k) go"

definition sv_reply :: "dc_server \<Rightarrow> dc_Proto \<Rightarrow> Msg \<Rightarrow> encryptedQuery \<Rightarrow> nat \<Rightarrow> Msg \<Rightarrow> (error + bytes) go" where
  "sv_reply S proto req q n m =
     sv_encrypt (dc_lib S) (dc_crypto S) (en_now (dc_entropy S) n) (en_rnd (dc_entropy S) n) (dc_resolverCert S)
       (normalize (dc_lib S) proto req m) q"

definition WriteToSessionUDP :: "bytes \<Rightarrow> udp_conn \<Rightarrow> error option \<times> udp_conn" where
  "WriteToSessionUDP b k = (snd (uc_Write k b), k\<lparr>uc_sent := uc_sent k @ [b]\<rparr>)"

definition udp_WriteMsg :: "dc_server \<Rightarrow> Msg \<Rightarrow> encryptedQuery \<Rightarrow> udp_conn dc_write" where
  "udp_WriteMsg S req q m nk = (case nk of (n, k) \<Rightarrow> do {
     res \<leftarrow> sv_reply S DcUDP req q n m;
     Some (case res of
         Inl err \<Rightarrow> (Some (ErrWrap ''encrypting dns query'' err), Suc n, k)
       | Inr b \<Rightarrow> let (err, k) = WriteToSessionUDP b k in (map_option (ErrWrap ''writing to udp session'') err, Suc n, k)) })"

definition dc_writePrefixed :: "bytes \<Rightarrow> tcp_conn \<Rightarrow> error option \<times> tcp_conn" where
  "dc_writePrefixed b k = (case LengthPrefix (int (length b)) of
      None \<Rightarrow> (Some ErrQueryTooLarge, k)
    | Some l \<Rightarrow> let (err, k) = conn_write (l @ b) k in (map_option (ErrWrap ''writing to connection'') err, k))"

text \<open>Setting the deadline fails on a closed connection.\<close>

definition writeTCPResponse :: "bytes \<Rightarrow> tcp_conn \<Rightarrow> error option \<times> tcp_conn" where
  "writeTCPResponse message k = (if tc_closed k then (Some net_ErrClosed, k) else dc_writePrefixed message k)"

definition tcp_WriteMsg :: "dc_server \<Rightarrow> Msg \<Rightarrow> encryptedQuery \<Rightarrow> tcp_conn dc_write" where
  "tcp_WriteMsg S req q m nk = (case nk of (n, k) \<Rightarrow> do {
     res \<leftarrow> sv_reply S DcTCP req q n m;
     Some (case res of
         Inl err \<Rightarrow> (Some (ErrWrap ''encrypting query'' err), Suc n, k)
       | Inr b \<Rightarrow> let (err, k) = writeTCPResponse b k in (err, Suc n, k)) })"

subsection \<open>Handling messages\<close>

type_synonym ('s, 'k) dc_handler = "'k dc_write \<Rightarrow> Msg \<Rightarrow> 's \<Rightarrow> nat \<times> 'k \<Rightarrow> (error option \<times> 's \<times> nat \<times> 'k) go"

definition serveDNS :: "dc_server \<Rightarrow> ('s, 'k) dc_handler \<Rightarrow> 'k dc_write \<Rightarrow> Msg \<Rightarrow> 's \<Rightarrow> nat \<times> 'k \<Rightarrow> (error option \<times> 's \<times> nat \<times> 'k) go" where
  "serveDNS S handler rw r s k =
     (if length (m_Question r) \<noteq> 1 \<or> m_Response r then Some (Some ErrInvalidQuery, s, k)
      else do {
        (err, s, k) \<leftarrow> handler rw r s k;
        (case err of
          None \<Rightarrow> Some (None, s, k)
        | Some _ \<Rightarrow> do {
            (err, k) \<leftarrow> rw (lib_SetRcode (dc_lib S) r RcodeServerFailure) k;
            Some (map_option (ErrWrap ''writing message'') err, s, k) }) })"

definition serveUDPMsg :: "dc_server \<Rightarrow> ('s, udp_conn) dc_handler \<Rightarrow> bytes \<Rightarrow> 's \<Rightarrow> nat \<times> udp_conn \<Rightarrow> ('s \<times> nat \<times> udp_conn) go" where
  "serveUDPMsg S handler b s nk =
     (if length b < clientMagicSize then None
      else if take clientMagicSize b \<noteq> ClientMagic (dc_resolverCert S) then do {
        reply \<leftarrow> handleHandshake (dc_lib S) (dc_providerName S) (getCertTXT (dc_resolverCert S)) b;
        Some (case reply of
            Inl _ \<Rightarrow> (s, nk)
          | Inr r \<Rightarrow> (s, fst nk, snd (WriteToSessionUDP r (snd nk)))) }
      else do {
        r \<leftarrow> sv_decrypt (dc_lib S) (dc_crypto S) (dc_resolverCert S) b;
        (case r of
          Inl _ \<Rightarrow> Some (s, nk)
        | Inr (m, q) \<Rightarrow> do {
            (_, s, nk) \<leftarrow> serveDNS S handler (udp_WriteMsg S m q) m s nk;
            Some (s, nk) }) })"

definition ErrTooShort :: error where "ErrTooShort = ErrMsg ''message is too short''"

definition handleTCPMsg ::
  "dc_server \<Rightarrow> ('s, tcp_conn) dc_handler \<Rightarrow> bytes \<Rightarrow> 's \<Rightarrow> nat \<times> tcp_conn \<Rightarrow> (error option \<times> 's \<times> nat \<times> tcp_conn) go" where
  "handleTCPMsg S handler b s nk =
     (if length b < minDNSPacketSize then Some (Some ErrTooShort, s, nk)
      else if take clientMagicSize b \<noteq> ClientMagic (dc_resolverCert S) then do {
        reply \<leftarrow> handleHandshake (dc_lib S) (dc_providerName S) (getCertTXT (dc_resolverCert S)) b;
        Some (case reply of
            Inl err \<Rightarrow> (Some (ErrWrap ''failed to process a plain DNS query'' err), s, nk)
          | Inr r \<Rightarrow> let (err, k) = writeTCPResponse r (snd nk) in
              (map_option (ErrWrap ''failed to write a response'') err, s, fst nk, k)) }
      else do {
        r \<leftarrow> sv_decrypt (dc_lib S) (dc_crypto S) (dc_resolverCert S) b;
        (case r of
          Inl err \<Rightarrow> Some (Some (ErrWrap ''failed to decrypt incoming message'' err), s, nk)
        | Inr (m, q) \<Rightarrow> do {
            (err, s, nk) \<leftarrow> serveDNS S handler (tcp_WriteMsg S m q) m s nk;
            Some (map_option (ErrWrap ''failed to process a DNS query'') err, s, nk) }) })"

text \<open>The loop of a connection; \<^verbatim>\<open>started i\<close> is what \<^verbatim>\<open>isStarted\<close> says before the message with number \<^verbatim>\<open>i\<close>.\<close>

lemma readPrefixed_shorter: "readPrefixed conn = Some (Inr b, rest) \<Longrightarrow> length rest < length conn"
  by (auto simp: readPrefixed_def ReadFull_def bind_eq_Some_conv split: if_splits)

function dc_loop ::
  "dc_server \<Rightarrow> ('s, tcp_conn) dc_handler \<Rightarrow> (nat \<Rightarrow> bool) \<Rightarrow> nat \<Rightarrow> bytes \<Rightarrow> 's \<Rightarrow> nat \<times> tcp_conn \<Rightarrow> (error option \<times> 's \<times> nat \<times> tcp_conn) go" where
  "dc_loop S handler started i conn s nk =
     (if \<not> started i then Some (None, s, nk)
      else (case readPrefixed (if tc_closed (snd nk) then [] else conn) of
          None \<Rightarrow> None
        | Some (Inl err, _) \<Rightarrow> Some (Some (ErrWrap ''reading dns message from connection'' err), s, nk)
        | Some (Inr b, rest) \<Rightarrow> (case handleTCPMsg S handler b s nk of
              None \<Rightarrow> None
            | Some (Some err, s, nk) \<Rightarrow> Some (Some (ErrWrap ''handling tcp message'' err), s, nk)
            | Some (None, s, nk) \<Rightarrow> dc_loop S handler started (Suc i) rest s nk)))"
  by pat_completeness auto
termination
  by (relation "measure (\<lambda>(_, _, _, _, conn, _, _). length conn)") (auto dest: readPrefixed_shorter split: if_splits)

declare dc_loop.simps [simp del]

text \<open>The goroutine of a connection closes it when \<^verbatim>\<open>handleTCPConnection\<close> returns.\<close>

definition dc_handleTCPConnection ::
  "dc_server \<Rightarrow> ('s, tcp_conn) dc_handler \<Rightarrow> (nat \<Rightarrow> bool) \<Rightarrow> bytes \<Rightarrow> 's \<Rightarrow> nat \<times> tcp_conn \<Rightarrow> ('s \<times> nat \<times> tcp_conn) go" where
  "dc_handleTCPConnection S handler started conn s nk = do {
     (_, s, n, k) \<leftarrow> dc_loop S handler started 0 conn s nk;
     Some (s, n, k\<lparr>tc_closed := True\<rparr>) }"

subsection \<open>The proxy as a handler\<close>

definition respondDNSCrypt :: "'k dc_write \<Rightarrow> 'u DNSContext \<Rightarrow> nat \<times> 'k \<Rightarrow> (error option \<times> nat \<times> 'k) go" where
  "respondDNSCrypt rw d k = (case Res d of None \<Rightarrow> Some (None, k) | Some res \<Rightarrow> rw res k)"

text \<open>\<^verbatim>\<open>acquire\<close> is the result of acquiring the semaphore.\<close>

definition dnsCryptHandler_ServeDNS ::
  "('u, 's) pipe \<Rightarrow> error option \<Rightarrow> AddrPort \<Rightarrow> ('s \<times> uint64, 'k) dc_handler" where
  "dnsCryptHandler_ServeDNS pipe acquire addr rw req s k =
     (let (d, counter) = newDNSContext (snd s) ProtoDNSCrypt req addr in
      case acquire of
        Some err \<Rightarrow> Some (Some (ErrWrap ''dnsproxy: dnscrypt: acquiring semaphore'' err), (fst s, counter), k)
      | None \<Rightarrow> do {
          (err, ws, s') \<leftarrow> pipe (\<lambda>d. case respondDNSCrypt rw d k of None \<Rightarrow> None | Some (err, _) \<Rightarrow> err) d (fst s);
          k \<leftarrow> fold (\<lambda>d ko. do { k \<leftarrow> ko; (_, k) \<leftarrow> respondDNSCrypt rw d k; Some k }) ws (Some k);
          Some (err, (s', counter), k) })"

context request_pipe
begin

lemma dnscrypt_handler_answers:
  assumes "valid (fst s)" "\<not> m_Response req" "\<forall>m k. \<exists>e k'. rw m k = Some (e, k')"
  obtains (dropped) s' where "dnsCryptHandler_ServeDNS pipe None addr rw req s k = Some (None, s', k)" "valid (fst s')" "drops req"
    | (answered) err s' e k' res where "dnsCryptHandler_ServeDNS pipe None addr rw req s k = Some (err, s', k')" "valid (fst s')"
      "rw res k = Some (e, k')" "replies req res"
proof -
  obtain d :: "'u DNSContext" and counter where d: "newDNSContext (snd s) ProtoDNSCrypt req addr = (d, counter)" by fastforce
  then have f: "fresh_ctx d" "CtxProto d \<noteq> ProtoUDP" "Res d = None" "Req d = req"
    by (auto simp: newDNSContext_def fresh_ctx_def)
  let ?w = "\<lambda>d. case respondDNSCrypt rw d k of None \<Rightarrow> None | Some (err, _) \<Rightarrow> err"
  from pipe_answers [OF assms(1) f(1-3), of ?w] obtain err ws s' where
    p: "pipe ?w d (fst s) = Some (err, ws, s')" "valid s'"
      "ws = [] \<and> err = None \<and> (m_Response req \<or> drops req) \<or> (\<exists>d' res. ws = [d'] \<and> Res d' = Some res \<and> replies req res)"
    unfolding f(4) by blast
  from p(3) show thesis
  proof
    assume "ws = [] \<and> err = None \<and> (m_Response req \<or> drops req)"
    with p(1,2) assms(2) d show thesis by (intro dropped [of "(s', counter)"]) (simp_all add: dnsCryptHandler_ServeDNS_def)
  next
    assume "\<exists>d' res. ws = [d'] \<and> Res d' = Some res \<and> replies req res"
    then obtain d' res where w: "ws = [d']" "Res d' = Some res" "replies req res" by blast
    obtain e k' where k': "rw res k = Some (e, k')" using assms(3) by blast
    then have "dnsCryptHandler_ServeDNS pipe None addr rw req s k = Some (err, (s', counter), k')"
      using p(1) d w(1,2) by (simp add: dnsCryptHandler_ServeDNS_def respondDNSCrypt_def)
    from answered [OF this _ k' w(3)] p(2) show thesis by simp
  qed
qed

end

subsection \<open>No bytes make the server panic\<close>

definition dc_ok :: "dc_server \<Rightarrow> bool" where
  "dc_ok S \<longleftrightarrow> crypto_law (dc_crypto S) \<and> (\<forall>n. length (en_rnd (dc_entropy S) n) = 4)"

lemma sv_encrypt_total:
  assumes "crypto_law C" "length rnd = 4" "length (eq_nonce q) = 24"
  shows "\<exists>r. sv_encrypt L C now rnd cert m q = Some r"
proof (cases "lib_Pack L m")
  case (Some packet)
  show ?thesis
  proof (cases "computeSharedKey C (eq_esVersion q) (ResolverSk cert) (eq_clientPk q)")
    case (Inr k)
    obtain resp where "er_encrypt C now rnd \<lparr> es_esVersion = eq_esVersion q, es_nonce = eq_nonce q \<rparr> packet k = Some (Inr resp)"
      by (rule response_roundtrip [OF assms(1,3,2) length_computeSharedKey [OF assms(1) Inr]])
    with Some Inr show ?thesis by (simp add: sv_encrypt_def)
  qed (use Some in \<open>simp add: sv_encrypt_def\<close>)
qed (simp add: sv_encrypt_def)

lemma sv_decrypt_total:
  assumes "crypto_law C"
  shows "\<exists>r. sv_decrypt L C cert b = Some r \<and> (\<forall>m q. r = Inr (m, q) \<longrightarrow> length (eq_nonce q) = 24)"
proof -
  let ?q = "\<lparr> eq_esVersion = ESVersion cert, eq_clientMagic = ClientMagic cert,
       eq_clientPk = replicate KeySize 0, eq_nonce = replicate nonceSize 0 \<rparr>"
  have l: "length (go_copy (replicate nonceSize (0 :: byte)) xs) = 24" for xs :: bytes by (simp add: go_copy_def nonceSize_def)
  have "\<exists>r q. eq_decrypt C ?q b (ResolverSk cert) = Some (r, q) \<and> length (eq_nonce q) = 24"
  proof (cases "computeSharedKey C (ESVersion cert) (ResolverSk cert) (take KeySize (drop clientMagicSize b))")
    case (Inl e)
    then show ?thesis by (simp add: eq_decrypt_def Let_def nonceSize_def)
  next
    case (Inr k)
    note k = length_computeSharedKey(1) [OF assms Inr]
    let ?n = "go_copy (replicate nonceSize 0) (take (nonceSize div 2) (drop (clientMagicSize + KeySize) b))"
    have "length ?n = NonceSize" by (simp add: go_copy_def nonceSize_def NonceSize_def)
    from open_es_total [OF this k, of C "ESVersion cert" ErrInvalidQuery "drop (clientMagicSize + KeySize + nonceSize div 2) b"]
    obtain r where "open_es C (ESVersion cert) ErrInvalidQuery ?n (drop (clientMagicSize + KeySize + nonceSize div 2) b) k = Some r" by blast
    with Inr show ?thesis by (simp add: eq_decrypt_def Let_def l) (simp_all add: nonceSize_def)
  qed
  then show ?thesis by (auto simp: sv_decrypt_def split: sum.splits option.splits)
qed

lemma sv_reply_total: "dc_ok S \<Longrightarrow> length (eq_nonce q) = 24 \<Longrightarrow> \<exists>r. sv_reply S proto req q n m = Some r"
  unfolding sv_reply_def dc_ok_def by (intro sv_encrypt_total) auto

lemma handleHandshake_total: "\<exists>r. handleHandshake L provider certTxt b = Some r"
  by (auto simp: handleHandshake_def go_index_def length_1_conv Let_def split: option.splits)

text \<open>What a connection was sent is a sequence of frames.\<close>

definition sent_frames :: "tcp_conn \<Rightarrow> tcp_conn \<Rightarrow> bool" where
  "sent_frames k k' \<longleftrightarrow> (\<exists>bs. k' = k\<lparr>tc_out := tc_out k @ concat (map framed bs)\<rparr>)"

lemma sent_frames_refl [simp]: "sent_frames k k"
  unfolding sent_frames_def by (intro exI [of _ "[]"]) simp

lemma sent_frames_trans [trans]: "sent_frames k k' \<Longrightarrow> sent_frames k' k'' \<Longrightarrow> sent_frames k k''"
  unfolding sent_frames_def
proof (elim exE)
  fix bs bs' assume "k' = k\<lparr>tc_out := tc_out k @ concat (map framed bs)\<rparr>" "k'' = k'\<lparr>tc_out := tc_out k' @ concat (map framed bs')\<rparr>"
  then show "\<exists>bs. k'' = k\<lparr>tc_out := tc_out k @ concat (map framed bs)\<rparr>" by (intro exI [of _ "bs @ bs'"]) simp
qed

lemma sent_frames_open: "sent_frames k k' \<Longrightarrow> tc_closed k' = tc_closed k \<and> tc_fail k' = tc_fail k"
  by (auto simp: sent_frames_def)

abbreviation (input) "can_write k \<equiv> \<not> tc_closed k \<and> tc_fail k = None"

lemma writeTCPResponse_frames:
  assumes "can_write k"
  shows "sent_frames k (snd (writeTCPResponse b k))"
proof (cases "length b \<le> 65535")
  case True
  then have "snd (writeTCPResponse b k) = k\<lparr>tc_out := tc_out k @ framed b\<rparr>"
    using assms by (simp add: writeTCPResponse_def dc_writePrefixed_def conn_write_def framed_def)
  then show ?thesis unfolding sent_frames_def by (intro exI [of _ "[b]"]) simp
qed (use assms in \<open>simp add: writeTCPResponse_def dc_writePrefixed_def\<close>)

lemma tcp_WriteMsg_frames:
  assumes "dc_ok S" "length (eq_nonce q) = 24" "can_write (snd nk)"
  obtains e n' k' where "tcp_WriteMsg S req q m nk = Some (e, n', k')" "sent_frames (snd nk) k'"
proof -
  obtain n k where nk: "nk = (n, k)" by (cases nk)
  obtain r where r: "sv_reply S DcTCP req q n m = Some r" using sv_reply_total [OF assms(1,2)] by blast
  show thesis
  proof (cases r)
    case (Inl e)
    with r show thesis by (intro that [of "Some (ErrWrap ''encrypting query'' e)" "Suc n" k]) (simp_all add: tcp_WriteMsg_def nk)
  next
    case (Inr b)
    with r writeTCPResponse_frames [of k b] assms(3) show thesis
      by (intro that [of "fst (writeTCPResponse b k)" "Suc n" "snd (writeTCPResponse b k)"])
        (simp_all add: tcp_WriteMsg_def nk split: prod.splits)
  qed
qed

lemma WriteMsg_total:
  assumes "dc_ok S" "length (eq_nonce q) = 24"
  shows "\<forall>m k. \<exists>e k'. tcp_WriteMsg S req q m k = Some (e, k')" "\<forall>m k. \<exists>e k'. udp_WriteMsg S req q m k = Some (e, k')"
proof -
  have "\<exists>e k'. tcp_WriteMsg S req q m k = Some (e, k')" for m k
    using sv_reply_total [OF assms, of DcTCP req "fst k" m]
    by (cases k) (auto simp: tcp_WriteMsg_def split: sum.splits prod.splits)
  then show "\<forall>m k. \<exists>e k'. tcp_WriteMsg S req q m k = Some (e, k')" by blast
  have "\<exists>e k'. udp_WriteMsg S req q m k = Some (e, k')" for m k
    using sv_reply_total [OF assms, of DcUDP req "fst k" m]
    by (cases k) (auto simp: udp_WriteMsg_def split: sum.splits prod.splits)
  then show "\<forall>m k. \<exists>e k'. udp_WriteMsg S req q m k = Some (e, k')" by blast
qed

context request_pipe
begin

lemma dnscrypt_handler_frames:
  assumes "valid (fst s)" "\<not> m_Response req" "dc_ok S" "length (eq_nonce q) = 24" "can_write (snd nk)"
  shows "\<exists>err s' n' k'. dnsCryptHandler_ServeDNS pipe acquire addr (tcp_WriteMsg S req q) req s nk = Some (err, s', n', k') \<and>
    valid (fst s') \<and> sent_frames (snd nk) k'"
proof (cases acquire)
  case None
  from assms(1,2) WriteMsg_total(1) [OF assms(3,4), of req] show ?thesis
  proof (cases rule: dnscrypt_handler_answers [where addr = addr and k = nk])
    case (dropped s')
    with None show ?thesis by (cases nk) auto
  next
    case (answered err s' e k' res)
    obtain e2 n2 k2 where "tcp_WriteMsg S req q res nk = Some (e2, n2, k2)" "sent_frames (snd nk) k2"
      by (rule tcp_WriteMsg_frames [OF assms(3-5)])
    with answered None show ?thesis by auto
  qed
next
  case (Some err)
  with assms(1) show ?thesis
    by (cases nk) (auto simp: dnsCryptHandler_ServeDNS_def split: prod.splits)
qed

lemma dnscrypt_serve_frames:
  assumes "valid (fst s)" "dc_ok S" "length (eq_nonce q) = 24" "can_write (snd nk)"
  shows "\<exists>err s' n' k'. serveDNS S (dnsCryptHandler_ServeDNS pipe acquire addr) (tcp_WriteMsg S req q) req s nk = Some (err, s', n', k') \<and>
    valid (fst s') \<and> sent_frames (snd nk) k'"
proof (cases "length (m_Question req) \<noteq> 1 \<or> m_Response req")
  case True
  with assms(1) show ?thesis by (cases nk) (simp add: serveDNS_def)
next
  case False
  then have "\<not> m_Response req" by simp
  from dnscrypt_handler_frames [OF assms(1) this assms(2-4), of acquire addr] obtain err s' n' k' where
    h: "dnsCryptHandler_ServeDNS pipe acquire addr (tcp_WriteMsg S req q) req s nk = Some (err, s', n', k')" "valid (fst s')" "sent_frames (snd nk) k'"
    by blast
  have k': "can_write (snd (n', k'))" using sent_frames_open [OF h(3)] assms(4) by simp
  obtain e2 n2 k2 where w: "tcp_WriteMsg S req q (lib_SetRcode (dc_lib S) req RcodeServerFailure) (n', k') = Some (e2, n2, k2)"
    "sent_frames (snd (n', k')) k2"
    by (rule tcp_WriteMsg_frames [OF assms(2,3) k'])
  have "sent_frames (snd nk) k2" using h(3) w(2) by (auto intro: sent_frames_trans)
  with False h w(1) show ?thesis by (cases err) (simp_all add: serveDNS_def)
qed

lemma dnscrypt_message_frames:
  assumes "valid (fst s)" "dc_ok S" "can_write (snd nk)"
  shows "\<exists>err s' n' k'. handleTCPMsg S (dnsCryptHandler_ServeDNS pipe acquire addr) b s nk = Some (err, s', n', k') \<and>
    valid (fst s') \<and> sent_frames (snd nk) k'"
proof (cases "length b < minDNSPacketSize")
  case True
  with assms(1) show ?thesis by (cases nk) (simp add: handleTCPMsg_def)
next
  case long: False
  show ?thesis
  proof (cases "take clientMagicSize b = ClientMagic (dc_resolverCert S)")
    case True
    from assms(2) obtain r where r: "sv_decrypt (dc_lib S) (dc_crypto S) (dc_resolverCert S) b = Some r"
      "\<forall>m q. r = Inr (m, q) \<longrightarrow> length (eq_nonce q) = 24"
      using sv_decrypt_total unfolding dc_ok_def by blast
    show ?thesis
    proof (cases r)
      case (Inl e)
      with long True r(1) assms(1) show ?thesis by (cases nk) (simp add: handleTCPMsg_def)
    next
      case (Inr mq)
      obtain m q where mq: "mq = (m, q)" by (cases mq)
      with Inr r(2) have "length (eq_nonce q) = 24" by simp
      from dnscrypt_serve_frames [OF assms(1,2) this assms(3), of acquire addr m] obtain err s' n' k' where
        "serveDNS S (dnsCryptHandler_ServeDNS pipe acquire addr) (tcp_WriteMsg S m q) m s nk = Some (err, s', n', k')"
        "valid (fst s')" "sent_frames (snd nk) k'" by blast
      with long True r(1) Inr mq show ?thesis by (simp add: handleTCPMsg_def)
    qed
  next
    case False
    obtain r where "handleHandshake (dc_lib S) (dc_providerName S) (getCertTXT (dc_resolverCert S)) b = Some r"
      using handleHandshake_total by blast
    then have "handleTCPMsg S (dnsCryptHandler_ServeDNS pipe acquire addr) b s nk = Some (case r of
        Inl err \<Rightarrow> (Some (ErrWrap ''failed to process a plain DNS query'' err), s, nk)
      | Inr r \<Rightarrow> (map_option (ErrWrap ''failed to write a response'') (fst (writeTCPResponse r (snd nk))), s, fst nk,
          snd (writeTCPResponse r (snd nk))))"
      using long False by (auto simp: handleTCPMsg_def split: sum.splits prod.splits)
    with assms(1) writeTCPResponse_frames [OF assms(3)] show ?thesis by (cases r; cases nk) auto
  qed
qed

lemma dnscrypt_loop_frames:
  assumes "valid (fst s)" "dc_ok S" "can_write (snd nk)"
  shows "\<exists>err s' n' k'. dc_loop S (dnsCryptHandler_ServeDNS pipe acquire addr) started i conn s nk = Some (err, s', n', k') \<and>
    valid (fst s') \<and> sent_frames (snd nk) k'"
  using assms(1,3)
proof (induction conn arbitrary: i s nk rule: length_induct)
  case (1 conn)
  obtain r rest where r: "readPrefixed conn = Some (r, rest)"
    using readPrefixed_total by blast
  show ?case
  proof (cases r)
    case (Inl e)
    with r 1(2,3) show ?thesis by (subst dc_loop.simps) (cases nk; cases s; simp)
  next
    case (Inr b)
    have l: "length rest < length conn" using readPrefixed_shorter r Inr by simp
    from dnscrypt_message_frames [OF 1(2) assms(2) 1(3), of acquire addr b] obtain err s' n' k' where
      h: "handleTCPMsg S (dnsCryptHandler_ServeDNS pipe acquire addr) b s nk = Some (err, s', n', k')" "valid (fst s')"
        "sent_frames (snd nk) k'" by blast
    have k': "can_write (snd (n', k'))" using sent_frames_open [OF h(3)] 1(3) by simp
    from 1(1) l h(2) k' obtain err2 s2 n2 k2 where
      h2: "dc_loop S (dnsCryptHandler_ServeDNS pipe acquire addr) started (Suc i) rest s' (n', k') = Some (err2, s2, n2, k2)"
        "valid (fst s2)" "sent_frames (snd (n', k')) k2" by blast
    have "sent_frames (snd nk) k2" using h(3) h2(3) by (auto intro: sent_frames_trans)
    with r Inr h h2(1,2) 1(2,3) show ?thesis by (subst dc_loop.simps) (cases err; cases nk; cases s; cases s'; cases s2; simp)
  qed
qed

end


definition sample_dc_server :: dc_server where
  "sample_dc_server = \<lparr> dc_lib = wire_lib, dc_crypto = sample_crypto,
     dc_entropy = \<lparr> en_now = (\<lambda>n. word_of_nat n), en_rnd = (\<lambda>_. [1, 2, 3, 4]) \<rparr>,
     dc_resolverCert = sample_cert\<lparr>ResolverPk := replicate 32 4, ResolverSk := replicate 32 4\<rparr>, dc_providerName = ''2.dnscrypt-cert.example'' \<rparr>"

lemma sample_dc_ok: "dc_ok sample_dc_server"
  by (simp add: dc_ok_def sample_dc_server_def sample_crypto_law)


subsection \<open>From client to client\<close>

context request_pipe
begin

lemma dnscrypt_serve_answers:
  assumes "valid (fst s)" "dc_ok S" "length (eq_nonce q) = 24" "length (m_Question req) = 1" "\<not> m_Response req"
  obtains (dropped) s' where "serveDNS S (dnsCryptHandler_ServeDNS pipe None addr) (udp_WriteMsg S req q) req s nk = Some (None, s', nk)"
      "valid (fst s')" "drops req"
    | (answered) err s' e1 nk1 nk2 res where
      "serveDNS S (dnsCryptHandler_ServeDNS pipe None addr) (udp_WriteMsg S req q) req s nk = Some (err, s', nk2)"
      "valid (fst s')" "udp_WriteMsg S req q res nk = Some (e1, nk1)" "replies req res"
      "nk2 = nk1 \<or> (\<exists>e2. udp_WriteMsg S req q (lib_SetRcode (dc_lib S) req RcodeServerFailure) nk1 = Some (e2, nk2))"
proof -
  note w = WriteMsg_total(2) [OF assms(2,3), of req]
  from assms(1,5) w show thesis
  proof (cases rule: dnscrypt_handler_answers [where addr = addr and k = nk])
    case (dropped s')
    with assms(4,5) that(1) show thesis by (simp add: serveDNS_def)
  next
    case (answered err s' e k' res)
    show thesis
    proof (cases err)
      case None
      with answered assms(4,5) that(2) [of None s' k' res e k'] show thesis by (simp add: serveDNS_def)
    next
      case (Some er)
      obtain e2 k2 where "udp_WriteMsg S req q (lib_SetRcode (dc_lib S) req RcodeServerFailure) k' = Some (e2, k2)" using w by blast
      with Some answered assms(4,5) that(2) [of "map_option (ErrWrap ''writing message'') e2" s' k2 res e k'] show thesis
        by (simp add: serveDNS_def)
    qed
  qed
qed

end

lemma udp_WriteMsg_sent:
  assumes "udp_WriteMsg S req q m (n, k) = Some (e, n', k')"
  shows "\<exists>more. uc_sent k' = uc_sent k @ more \<and> length more \<le> 1"
  using assms by (cases "sv_reply S DcUDP req q n m") (auto simp: udp_WriteMsg_def WriteToSessionUDP_def split: sum.split_asm)

lemma udp_WriteMsg_encrypted:
  assumes "udp_WriteMsg S req q m (n, k) = Some (e, n', k')" "sv_reply S DcUDP req q n m = Some (Inr b)"
  shows "uc_sent k' = uc_sent k @ [b]"
  using assms by (auto simp: udp_WriteMsg_def WriteToSessionUDP_def)

lemma normalize_replies:
  assumes "lib_Truncate_law L" "replies req res"
  shows "replies req (normalize L proto req res)"
  using assms by (auto simp: replies_def Dnscrypt_Session.normalize_def lib_Truncate_law_def Let_def)

text \<open>What a client has after the packets it was sent, for the nonce of its query.\<close>

definition client_gets :: "dnslib \<Rightarrow> crypto \<Rightarrow> ResolverInfo \<Rightarrow> bytes \<Rightarrow> Msg \<Rightarrow> bytes list \<Rightarrow> bool" where
  "client_gets L C info n res sent \<longleftrightarrow> (\<forall>rp. lib_Pack L res = Some rp \<longrightarrow> (\<exists>resp more. sent = resp # more \<and> length more \<le> 1 \<and>
     (minDNSPacketSize \<le> length rp \<longrightarrow> cl_decrypt L C resp n info =
        Some (case lib_Unpack L rp of None \<Rightarrow> Inl (ErrMsg ''unpacking dns message'') | Some r \<Rightarrow> Inr r))))"

context request_pipe
begin

lemma dnscrypt_query_answered:
  assumes "valid (fst s)" "dc_ok S" "lib_Truncate_law (dc_lib S)"
    and "length (ClientMagic (dc_resolverCert S)) = 8" "ResolverPk (dc_resolverCert S) = cr_public (dc_crypto S) (ResolverSk (dc_resolverCert S))"
    and "length (cr_public (dc_crypto S) sk) = KeySize" "DialStampContext (dc_crypto S) sk (Inr ((dc_resolverCert S)\<lparr>ResolverSk := z\<rparr>)) = Inr info"
    and "lib_Pack (dc_lib S) m = Some pk" "minDNSPacketSize \<le> length pk" "68 + length (pad pk) \<le> maxSize" "length rnd = 4"
    and "lib_Unpack (dc_lib S) pk = Some req" "length (m_Question req) = 1" "\<not> m_Response req"
  shows "\<exists>query n s' i' k'. cl_encrypt (dc_lib S) (dc_crypto S) now rnd maxSize m info = Some (Inr (query, n)) \<and>
    serveUDPMsg S (dnsCryptHandler_ServeDNS pipe None addr) query s (i, k) = Some (s', i', k') \<and> valid (fst s') \<and>
    (\<exists>sent. uc_sent k' = uc_sent k @ sent \<and>
      (sent = [] \<and> drops req \<or> (\<exists>res. replies req res \<and> client_gets (dc_lib S) (dc_crypto S) info n res sent)))"
proof -
  let ?L = "dc_lib S" and ?C = "dc_crypto S" and ?c = "dc_resolverCert S"
  have C: "crypto_law ?C" using assms(2) by (simp add: dc_ok_def)
  obtain query n q where q: "cl_encrypt ?L ?C now rnd maxSize m info = Some (Inr (query, n))"
    "sv_decrypt ?L ?C ?c query = Some (case lib_Unpack ?L pk of None \<Rightarrow> Inl (ErrMsg ''unpacking dns message'') | Some m' \<Rightarrow> Inr (m', q))"
    "take 8 query = ClientMagic ?c" "length query = 68 + length (pad pk)"
    and resp: "\<forall>now' rnd' r rp. lib_Pack ?L r = Some rp \<longrightarrow> length rnd' = 4 \<longrightarrow> (\<exists>resp. sv_encrypt ?L ?C now' rnd' ?c r q = Some (Inr resp) \<and>
      (minDNSPacketSize \<le> length rp \<longrightarrow>
        cl_decrypt ?L ?C resp n info = Some (case lib_Unpack ?L rp of None \<Rightarrow> Inl (ErrMsg ''unpacking dns message'') | Some r' \<Rightarrow> Inr r') \<and>
        (\<forall>n'. take 12 n' \<noteq> take 12 n \<longrightarrow>
           cl_decrypt ?L ?C resp n' info = Some (Inl (ErrWrap ''decrypting server response'' ErrUnexpectedNonce)))))"
    by (rule session_query [OF C assms(4-11)])
  have d: "sv_decrypt ?L ?C ?c query = Some (Inr (req, q))" using q(2) assms(12) by simp
  then have nonce: "length (eq_nonce q) = 24" using sv_decrypt_total [OF C, of ?L ?c query] by auto
  let ?serve = "serveDNS S (dnsCryptHandler_ServeDNS pipe None addr) (udp_WriteMsg S req q) req s (i, k)"
  have serve: "serveUDPMsg S (dnsCryptHandler_ServeDNS pipe None addr) query s (i, k) = map_option (\<lambda>(_, s, nk). (s, nk)) ?serve"
    using q(3,4) d by (cases ?serve) (auto simp: serveUDPMsg_def clientMagicSize_def)
  from assms(1,2) nonce assms(13,14) show ?thesis
  proof (cases rule: dnscrypt_serve_answers [where addr = addr and nk = "(i, k)"])
    case (dropped s')
    with q(1) serve show ?thesis by (cases s') auto
  next
    case (answered err s' e1 nk1 nk2 res)
    obtain i1 k1 where k1: "nk1 = (i1, k1)" by (cases nk1)
    obtain i2 k2 where k2: "nk2 = (i2, k2)" by (cases nk2)
    obtain m1 where m1: "uc_sent k1 = uc_sent k @ m1" using udp_WriteMsg_sent answered(3) k1 by blast
    obtain m2 where m2: "uc_sent k2 = uc_sent k1 @ m2" "length m2 \<le> 1"
      using answered(5) udp_WriteMsg_sent [of S req q _ i1 k1 _ i2 k2] k1 k2 by fastforce
    let ?res = "normalize ?L DcUDP req res"
    have "client_gets ?L ?C info n ?res (m1 @ m2)"
      unfolding client_gets_def
    proof (intro allI impI)
      fix rp assume rp: "lib_Pack ?L ?res = Some rp"
      have "length (en_rnd (dc_entropy S) i) = 4" using assms(2) by (simp add: dc_ok_def)
      with resp rp obtain b where b: "sv_reply S DcUDP req q i res = Some (Inr b)"
        "minDNSPacketSize \<le> length rp \<longrightarrow> cl_decrypt ?L ?C b n info = Some (case lib_Unpack ?L rp of
           None \<Rightarrow> Inl (ErrMsg ''unpacking dns message'') | Some r' \<Rightarrow> Inr r')"
        unfolding sv_reply_def by blast
      have "m1 = [b]" using udp_WriteMsg_encrypted [OF _ b(1)] answered(3) k1 m1 by fastforce
      with b(2) m2(2) show "\<exists>resp more. m1 @ m2 = resp # more \<and> length more \<le> 1 \<and>
          (minDNSPacketSize \<le> length rp \<longrightarrow> cl_decrypt ?L ?C resp n info =
            Some (case lib_Unpack ?L rp of None \<Rightarrow> Inl (ErrMsg ''unpacking dns message'') | Some r \<Rightarrow> Inr r))"
        by (intro exI [of _ b] exI [of _ m2]) simp
    qed
    moreover have "replies req ?res" by (rule normalize_replies [OF assms(3) answered(4)])
    moreover have "uc_sent k2 = uc_sent k @ (m1 @ m2)" using m1 m2(1) by simp
    moreover have "serveUDPMsg S (dnsCryptHandler_ServeDNS pipe None addr) query s (i, k) = Some (s', i2, k2)"
      using serve answered(1) k2 by simp
    ultimately show ?thesis using q(1) answered(2) by blast
  qed
qed

end



end
