(* ===== verification/Go_Sockets.thy ===== *)
theory Go_Sockets
  imports Go_Strings
begin

text \<open>
  Sockets as the life cycles of the listeners see them: which are open, and what closing does.  A closed socket stays
  closed, and closing it again reports \<^verbatim>\<open>net.ErrClosed\<close>; the error of closing an open one is a parameter,
  and the socket is gone whatever it says.
\<close>

record os =
  os_next :: nat
  os_open :: "nat set"

definition os_wf :: "os \<Rightarrow> bool" where
  "os_wf w \<longleftrightarrow> (\<forall>i \<in> os_open w. i < os_next w)"

definition os_socket :: "os \<Rightarrow> nat \<times> os" where
  "os_socket w = (os_next w, \<lparr> os_next = Suc (os_next w), os_open = insert (os_next w) (os_open w) \<rparr>)"

definition os_Close :: "(nat \<Rightarrow> error option) \<Rightarrow> nat \<Rightarrow> os \<Rightarrow> error option \<times> os" where
  "os_Close cerr i w =
     (if i \<in> os_open w then (cerr i, w\<lparr>os_open := os_open w - {i}\<rparr>) else (Some net_ErrClosed, w))"

fun sock_closeAll :: "(nat \<Rightarrow> error option) \<Rightarrow> error list \<Rightarrow> nat list \<Rightarrow> os \<Rightarrow> error list \<times> os" where
  "sock_closeAll cerr errs [] w = (errs, w)"
| "sock_closeAll cerr errs (c # closers) w =
     (let (err, w) = os_Close cerr c w;
          errs = (case err of None \<Rightarrow> errs | Some e \<Rightarrow> if errors_Is net_ErrClosed e then errs else errs @ [e])
      in sock_closeAll cerr errs closers w)"

lemma os_Close_open [simp]: "os_open (snd (os_Close cerr i w)) = os_open w - {i}"
  by (simp add: os_Close_def)

lemma os_Close_next [simp]: "os_next (snd (os_Close cerr i w)) = os_next w"
  by (simp add: os_Close_def)

lemma os_socket_open [simp]: "os_open (snd (os_socket w)) = insert (os_next w) (os_open w)" "fst (os_socket w) = os_next w"
  "os_next (snd (os_socket w)) = Suc (os_next w)"
  by (simp_all add: os_socket_def)

lemma sock_closeAll_world [simp]: "os_open (snd (sock_closeAll cerr errs cs w)) = os_open w - set cs \<and> os_next (snd (sock_closeAll cerr errs cs w)) = os_next w"
proof (induction cs arbitrary: errs w)
  case (Cons c cs)
  have "os_open (snd (os_Close cerr c w)) = os_open w - {c}" "os_next (snd (os_Close cerr c w)) = os_next w" by simp_all
  with Cons show ?case by (cases "os_Close cerr c w") (auto simp: Let_def)
qed simp

lemma os_wf_fresh: "os_wf w \<Longrightarrow> os_next w \<notin> os_open w"
  by (auto simp: os_wf_def)

lemma os_wf_mono [intro]: "os_wf w \<Longrightarrow> os_open w' \<subseteq> os_open w \<Longrightarrow> os_next w \<le> os_next w' \<Longrightarrow> os_wf w'"
  by (fastforce simp: os_wf_def)

lemma os_wf_socket [intro]: "os_wf w \<Longrightarrow> os_wf (snd (os_socket w))"
  by (auto simp: os_wf_def os_socket_def)

end
