(* ===== verification/Dnscrypt_Lifecycle.thy ===== *)
theory Dnscrypt_Lifecycle
  imports Dnscrypt_Session Go_Sockets
begin

text \<open>
  The life of a DNSCrypt server (\<^verbatim>\<open>dnscrypt/server.go\<close>, \<^verbatim>\<open>dnscrypt/servertcp.go\<close>, \<^verbatim>\<open>dnscrypt/serverudp.go\<close>):
  \<^verbatim>\<open>Start\<close> and \<^verbatim>\<open>Shutdown\<close> against the goroutines they start, which accept connections or read packets and
  handle each in a goroutine of its own.  A section under the server's mutex, a system call and an operation on a channel is one step.
  What is done with the bytes is the subject of \<^verbatim>\<open>Dnscrypt_Server\<close>; here a goroutine only ends at some time.
\<close>

subsection \<open>The server\<close>

text \<open>
  A field for a listener: an interface that holds a nil pointer is not nil.
\<close>

datatype sock_ref = NilRef | TypedNil | Ref nat

text \<open>Where the serving goroutine is: at the head of its loop, waiting, holding a new connection, or after the loop.\<close>

datatype serving = Checking | Accepting | Adopting nat | Draining

text \<open>
  The channel \<^verbatim>\<open>done\<close> is nil, open or closed; the context of the run is \<^verbatim>\<open>sv_cancelled\<close> or not.
  The goroutines of connections are before or after closing theirs, those of packets are counted, as are the failures reported in a run.
\<close>

record Server =
  sv_proto :: dc_Proto
  sv_started :: bool
  sv_cancelled :: bool
  sv_done :: "bool option"
  sv_listener :: sock_ref
  sv_tcpConns :: "nat set"
  sv_serving :: "serving option"
  sv_handlers :: "nat set"
  sv_closing :: "nat set"
  sv_messages :: nat
  sv_reports :: nat

definition new_Server :: "dc_Proto \<Rightarrow> Server" where
  "new_Server proto = \<lparr> sv_proto = proto, sv_started = False, sv_cancelled = False, sv_done = None, sv_listener = NilRef, sv_tcpConns = {},
     sv_serving = None, sv_handlers = {}, sv_closing = {}, sv_messages = 0, sv_reports = 0 \<rparr>"

definition ErrServerNotStarted :: error where "ErrServerNotStarted = ErrMsg ''server is not started''"

definition ErrServerAlreadyStarted :: error where "ErrServerAlreadyStarted = ErrMsg ''server is already started''"

text \<open>The address of a listener; calling it on a nil pointer panics.\<close>

definition LocalAddr :: "Server \<Rightarrow> nat option go" where
  "LocalAddr s = (case sv_listener s of NilRef \<Rightarrow> Some None | TypedNil \<Rightarrow> None | Ref l \<Rightarrow> Some (Some l))"

definition closeListeners :: "(nat \<Rightarrow> error option) \<Rightarrow> Server \<Rightarrow> os \<Rightarrow> os" where
  "closeListeners cerr s w = (case sv_listener s of Ref l \<Rightarrow> snd (os_Close cerr l w) | _ \<Rightarrow> w)"

definition setUDPSocketOptions :: "bool \<Rightarrow> error option \<Rightarrow> error option \<Rightarrow> error option" where
  "setUDPSocketOptions windows err6 err4 =
     (if windows then None else if err6 \<noteq> None \<and> err4 \<noteq> None then err4 else None)"

text \<open>What a start meets: the error of its context, of binding, and of setting the options of both address families.\<close>

record start_env =
  st_ctxErr :: "error option"
  st_bindErr :: "error option"
  st_windows :: bool
  st_err6 :: "error option"
  st_err4 :: "error option"

definition listen :: "start_env \<Rightarrow> dc_Proto \<Rightarrow> os \<Rightarrow> sock_ref \<times> error option \<times> os" where
  "listen e proto w = (case st_bindErr e of
      Some err \<Rightarrow> (if proto = DcTCP then TypedNil else NilRef, Some err, w)
    | None \<Rightarrow> let (l, w) = os_socket w in
        (Ref l, if proto = DcTCP then None else setUDPSocketOptions (st_windows e) (st_err6 e) (st_err4 e), w))"

definition sv_Start :: "(nat \<Rightarrow> error option) \<Rightarrow> start_env \<Rightarrow> Server \<Rightarrow> os \<Rightarrow> error option \<times> Server \<times> os" where
  "sv_Start cerr e s w =
     (if st_ctxErr e \<noteq> None then (st_ctxErr e, s, w)
      else if sv_started s then (Some ErrServerAlreadyStarted, s, w)
      else if sv_done s = Some False then (Some (ErrMsg ''previous DNSCrypt run is still closing''), s, w)
      else let (l, err, w) = listen e (sv_proto s) w; s = s\<lparr>sv_listener := l\<rparr> in
        (case err of
          Some err \<Rightarrow> (Some (ErrWrap ''binding DNSCrypt'' err), s, closeListeners cerr s w)
        | None \<Rightarrow> (None, s\<lparr>sv_cancelled := False, sv_started := True, sv_done := Some False, sv_serving := Some Checking, sv_reports := 0\<rparr>, w)))"

text \<open>\<^verbatim>\<open>Shutdown\<close> until it waits; without an error it goes on to \<^verbatim>\<open>sv_join\<close>.\<close>

definition sv_Shutdown :: "(nat \<Rightarrow> error option) \<Rightarrow> Server \<Rightarrow> os \<Rightarrow> error option \<times> Server \<times> os" where
  "sv_Shutdown cerr s w =
     (if sv_done s = None then (Some ErrServerNotStarted, s, w)
      else if sv_started s then
        let s = s\<lparr>sv_started := False, sv_cancelled := True\<rparr>;
            w = closeListeners cerr s w
        in (None, s, w\<lparr>os_open := os_open w - sv_tcpConns s\<rparr>)
      else (None, s, w))"

text \<open>The results the wait can have: nil once \<^verbatim>\<open>done\<close> is closed, the error of the caller's context once that is done.\<close>

definition sv_join :: "error option \<Rightarrow> Server \<Rightarrow> error option \<Rightarrow> bool" where
  "sv_join ctxErr s r \<longleftrightarrow> sv_done s = Some True \<and> r = None \<or> ctxErr \<noteq> None \<and> r = ctxErr"

subsection \<open>The goroutines\<close>

text \<open>Sending to the channel of failures never blocks, whether somebody receives or not.\<close>

definition reportListenerFailure :: "Server \<Rightarrow> Server" where
  "reportListenerFailure s = (if sv_cancelled s then s else s\<lparr>sv_reports := Suc (sv_reports s)\<rparr>)"

definition leave_loop :: "Server \<Rightarrow> Server" where
  "leave_loop s = (reportListenerFailure s)\<lparr>sv_serving := Some Draining\<rparr>"

definition loop_check :: "Server \<Rightarrow> Server" where
  "loop_check s = (if sv_started s then s\<lparr>sv_serving := Some Accepting\<rparr> else leave_loop s)"

text \<open>Accepting or reading failed, with a timeout or otherwise.\<close>

definition accept_failed :: "bool \<Rightarrow> Server \<Rightarrow> Server" where
  "accept_failed timeout s =
     (if \<not> sv_started s then leave_loop s
      else if timeout then s\<lparr>sv_serving := Some Checking\<rparr>
      else leave_loop s)"

definition accept_conn :: "Server \<Rightarrow> os \<Rightarrow> Server \<times> os" where
  "accept_conn s w = (let (c, w) = os_socket w in (s\<lparr>sv_serving := Some (Adopting c)\<rparr>, w))"

definition adopt_conn :: "(nat \<Rightarrow> error option) \<Rightarrow> nat \<Rightarrow> Server \<Rightarrow> os \<Rightarrow> Server \<times> os" where
  "adopt_conn cerr c s w =
     (if \<not> sv_started s then (leave_loop s, snd (os_Close cerr c w))
      else (s\<lparr>sv_tcpConns := insert c (sv_tcpConns s), sv_handlers := insert c (sv_handlers s), sv_serving := Some Checking\<rparr>, w))"

definition read_msg :: "nat \<Rightarrow> Server \<Rightarrow> Server" where
  "read_msg n s = (if n < minDNSPacketSize then s\<lparr>sv_serving := Some Checking\<rparr>
     else s\<lparr>sv_messages := Suc (sv_messages s), sv_serving := Some Checking\<rparr>)"

definition handler_close :: "(nat \<Rightarrow> error option) \<Rightarrow> nat \<Rightarrow> Server \<Rightarrow> os \<Rightarrow> Server \<times> os" where
  "handler_close cerr c s w = (s\<lparr>sv_handlers := sv_handlers s - {c}, sv_closing := insert c (sv_closing s)\<rparr>, snd (os_Close cerr c w))"

definition handler_delete :: "nat \<Rightarrow> Server \<Rightarrow> Server" where
  "handler_delete c s = s\<lparr>sv_closing := sv_closing s - {c}, sv_tcpConns := sv_tcpConns s - {c}\<rparr>"

definition run_done :: "Server \<Rightarrow> Server" where
  "run_done s = s\<lparr>sv_done := Some True, sv_serving := None\<rparr>"

text \<open>
  A goroutine of the run makes a step.  Accepting and reading succeed only while the listener is open, and may fail at any time.
\<close>

inductive run_step :: "(nat \<Rightarrow> error option) \<Rightarrow> Server \<times> os \<Rightarrow> Server \<times> os \<Rightarrow> bool" for cerr where
  Check: "sv_serving s = Some Checking \<Longrightarrow> run_step cerr (s, w) (loop_check s, w)"
| Accept: "sv_serving s = Some Accepting \<Longrightarrow> sv_proto s = DcTCP \<Longrightarrow> sv_listener s = Ref l \<Longrightarrow> l \<in> os_open w \<Longrightarrow>
    run_step cerr (s, w) (accept_conn s w)"
| Read: "sv_serving s = Some Accepting \<Longrightarrow> sv_proto s = DcUDP \<Longrightarrow> sv_listener s = Ref l \<Longrightarrow> l \<in> os_open w \<Longrightarrow>
    run_step cerr (s, w) (read_msg n s, w)"
| Failed: "sv_serving s = Some Accepting \<Longrightarrow> run_step cerr (s, w) (accept_failed timeout s, w)"
| Adopt: "sv_serving s = Some (Adopting c) \<Longrightarrow> run_step cerr (s, w) (adopt_conn cerr c s w)"
| Close: "c \<in> sv_handlers s \<Longrightarrow> run_step cerr (s, w) (handler_close cerr c s w)"
| Delete: "c \<in> sv_closing s \<Longrightarrow> run_step cerr (s, w) (handler_delete c s, w)"
| Message: "0 < sv_messages s \<Longrightarrow> run_step cerr (s, w) (s\<lparr>sv_messages := sv_messages s - 1\<rparr>, w)"
| Join: "sv_serving s = Some Draining \<Longrightarrow> sv_handlers s = {} \<Longrightarrow> sv_closing s = {} \<Longrightarrow> sv_messages s = 0 \<Longrightarrow>
    run_step cerr (s, w) (run_done s, w)"

inductive_cases run_stepE: "run_step cerr x y"

text \<open>All that can happen to a server.\<close>

inductive reach :: "(nat \<Rightarrow> error option) \<Rightarrow> Server \<times> os \<Rightarrow> bool" for cerr where
  New: "reach cerr (new_Server proto, \<lparr> os_next = 0, os_open = {} \<rparr>)"
| Run: "reach cerr x \<Longrightarrow> run_step cerr x y \<Longrightarrow> reach cerr y"
| Start: "reach cerr (s, w) \<Longrightarrow> reach cerr (snd (sv_Start cerr e s w))"
| Shutdown: "reach cerr (s, w) \<Longrightarrow> reach cerr (snd (sv_Shutdown cerr s w))"

subsection \<open>Every open socket has an owner\<close>

definition adopting :: "Server \<Rightarrow> nat set" where
  "adopting s = (case sv_serving s of Some (Adopting c) \<Rightarrow> {c} | _ \<Rightarrow> {})"

definition listening :: "Server \<Rightarrow> nat set" where
  "listening s = (case sv_listener s of Ref l \<Rightarrow> {l} | _ \<Rightarrow> {})"

definition ended :: "Server \<Rightarrow> bool" where
  "ended s \<longleftrightarrow> sv_serving s = Some Draining \<or> sv_done s = Some True"

definition sock_inv :: "Server \<Rightarrow> os \<Rightarrow> bool" where
  "sock_inv s w \<longleftrightarrow> os_wf w \<and> (\<forall>i \<in> listening s \<union> sv_tcpConns s \<union> adopting s. i < os_next w) \<and>
     sv_tcpConns s = sv_handlers s \<union> sv_closing s \<and> finite (sv_handlers s) \<and> finite (sv_closing s) \<and>
     sv_handlers s \<inter> sv_closing s = {} \<and> sv_closing s \<inter> os_open w = {} \<and> adopting s \<inter> (listening s \<union> sv_tcpConns s) = {} \<and>
     os_open w \<subseteq> listening s \<union> sv_handlers s \<union> adopting s \<and> (\<not> sv_started s \<longrightarrow> os_open w \<subseteq> adopting s)"

definition ctl_inv :: "Server \<Rightarrow> bool" where
  "ctl_inv s \<longleftrightarrow> (sv_started s \<longrightarrow> sv_done s \<noteq> None) \<and> (sv_serving s \<noteq> None \<longleftrightarrow> sv_done s = Some False) \<and>
     (sv_serving s = None \<longrightarrow> sv_tcpConns s = {} \<and> sv_messages s = 0) \<and>
     (sv_done s \<noteq> None \<longrightarrow> sv_cancelled s = (\<not> sv_started s)) \<and>
     sv_reports s \<le> 1 \<and> (ended s \<and> sv_started s \<longrightarrow> sv_reports s = 1) \<and> (\<not> ended s \<longrightarrow> sv_reports s = 0)"

definition sv_inv :: "Server \<times> os \<Rightarrow> bool" where
  "sv_inv x \<longleftrightarrow> sock_inv (fst x) (snd x) \<and> ctl_inv (fst x)"

lemma adopting_simps [simp]:
  "sv_serving s = Some (Adopting c) \<Longrightarrow> adopting s = {c}" "sv_serving s = Some Checking \<Longrightarrow> adopting s = {}"
  "sv_serving s = Some Accepting \<Longrightarrow> adopting s = {}" "sv_serving s = Some Draining \<Longrightarrow> adopting s = {}"
  "sv_serving s = None \<Longrightarrow> adopting s = {}"
  "adopting (s\<lparr>sv_tcpConns := x\<rparr>) = adopting s" "adopting (s\<lparr>sv_handlers := x\<rparr>) = adopting s" "adopting (s\<lparr>sv_closing := x\<rparr>) = adopting s"
  "adopting (s\<lparr>sv_messages := n\<rparr>) = adopting s" "adopting (s\<lparr>sv_started := b\<rparr>) = adopting s" "adopting (s\<lparr>sv_cancelled := b\<rparr>) = adopting s"
  "adopting (s\<lparr>sv_reports := n\<rparr>) = adopting s" "adopting (s\<lparr>sv_listener := l\<rparr>) = adopting s" "adopting (s\<lparr>sv_done := d\<rparr>) = adopting s"
  by (simp_all add: adopting_def)

lemma listening_simps [simp]:
  "sv_listener s = Ref l \<Longrightarrow> listening s = {l}" "sv_listener s = NilRef \<Longrightarrow> listening s = {}" "sv_listener s = TypedNil \<Longrightarrow> listening s = {}"
  "listening (s\<lparr>sv_tcpConns := x\<rparr>) = listening s" "listening (s\<lparr>sv_handlers := x\<rparr>) = listening s" "listening (s\<lparr>sv_closing := x\<rparr>) = listening s"
  "listening (s\<lparr>sv_messages := n\<rparr>) = listening s" "listening (s\<lparr>sv_started := b\<rparr>) = listening s" "listening (s\<lparr>sv_cancelled := b\<rparr>) = listening s"
  "listening (s\<lparr>sv_reports := n\<rparr>) = listening s" "listening (s\<lparr>sv_serving := v\<rparr>) = listening s" "listening (s\<lparr>sv_done := d\<rparr>) = listening s"
  by (simp_all add: listening_def)

lemmas lifecycle_defs = sv_inv_def sock_inv_def ctl_inv_def ended_def

lemma loop_check_inv:
  assumes "sv_serving s = Some Checking" "sv_inv (s, w)"
  shows "sv_inv (loop_check s, w)"
proof -
  have i: "sock_inv s w" "ctl_inv s" using assms(2) by (simp_all add: sv_inv_def)
  then have "sock_inv (loop_check s) w"
    using assms(1) by (simp add: sock_inv_def os_wf_def loop_check_def leave_loop_def reportListenerFailure_def; elim conjE, (intro conjI impI)?; blast)
  moreover have "ctl_inv (loop_check s)" using i assms(1) by (auto simp: ctl_inv_def ended_def loop_check_def leave_loop_def reportListenerFailure_def)
  ultimately show ?thesis by (simp add: sv_inv_def)
qed

lemma accept_conn_inv:
  assumes "sv_serving s = Some Accepting" "sv_inv (s, w)"
  shows "sv_inv (accept_conn s w)"
proof -
  have i: "sock_inv s w" "ctl_inv s" using assms(2) by (simp_all add: sv_inv_def)
  then have "os_next w \<notin> listening s \<union> sv_tcpConns s" unfolding sock_inv_def by blast
  with i(1) assms(1) have "sock_inv (fst (accept_conn s w)) (snd (accept_conn s w))"
    by (simp add: sock_inv_def accept_conn_def os_socket_def os_wf_def less_Suc_eq; elim conjE, (intro conjI impI)?; blast)
  moreover have "ctl_inv (fst (accept_conn s w))" using i(2) assms(1) by (auto simp: ctl_inv_def ended_def accept_conn_def os_socket_def)
  ultimately show ?thesis by (simp add: sv_inv_def)
qed

lemma read_msg_inv:
  assumes "sv_serving s = Some Accepting" "sv_inv (s, w)"
  shows "sv_inv (read_msg n s, w)"
proof -
  have i: "sock_inv s w" "ctl_inv s" using assms(2) by (simp_all add: sv_inv_def)
  then have "sock_inv (read_msg n s) w"
    using assms(1) by (simp add: sock_inv_def os_wf_def read_msg_def; elim conjE, (intro conjI impI)?; blast)
  moreover have "ctl_inv (read_msg n s)" using i assms(1) by (auto simp: ctl_inv_def ended_def read_msg_def)
  ultimately show ?thesis by (simp add: sv_inv_def)
qed

lemma accept_failed_inv:
  assumes "sv_serving s = Some Accepting" "sv_inv (s, w)"
  shows "sv_inv (accept_failed timeout s, w)"
proof -
  have i: "sock_inv s w" "ctl_inv s" using assms(2) by (simp_all add: sv_inv_def)
  then have "sock_inv (accept_failed timeout s) w"
    using assms(1) by (simp add: sock_inv_def os_wf_def accept_failed_def leave_loop_def reportListenerFailure_def; elim conjE, (intro conjI impI)?; blast)
  moreover have "ctl_inv (accept_failed timeout s)" using i assms(1) by (auto simp: ctl_inv_def ended_def accept_failed_def leave_loop_def reportListenerFailure_def)
  ultimately show ?thesis by (simp add: sv_inv_def)
qed

lemma adopt_conn_inv:
  assumes "sv_serving s = Some (Adopting c)" "sv_inv (s, w)"
  shows "sv_inv (adopt_conn cerr c s w)"
proof -
  have i: "sock_inv s w" "ctl_inv s" using assms(2) by (simp_all add: sv_inv_def)
  then have "sock_inv (fst (adopt_conn cerr c s w)) (snd (adopt_conn cerr c s w))"
    using assms(1) by (simp add: sock_inv_def os_wf_def adopt_conn_def leave_loop_def reportListenerFailure_def; elim conjE, (intro conjI impI)?; blast)
  moreover have "ctl_inv (fst (adopt_conn cerr c s w))" using i assms(1) by (auto simp: ctl_inv_def sock_inv_def ended_def adopt_conn_def leave_loop_def reportListenerFailure_def)
  ultimately show ?thesis by (simp add: sv_inv_def)
qed

lemma handler_close_inv:
  assumes "c \<in> sv_handlers s" "sv_inv (s, w)"
  shows "sv_inv (handler_close cerr c s w)"
proof -
  have i: "sock_inv s w" "ctl_inv s" using assms(2) by (simp_all add: sv_inv_def)
  then have "sock_inv (fst (handler_close cerr c s w)) (snd (handler_close cerr c s w))"
    using assms(1) by (simp add: sock_inv_def os_wf_def handler_close_def; elim conjE, (intro conjI impI)?; blast)
  moreover have "ctl_inv (fst (handler_close cerr c s w))" using i assms(1) by (simp add: ctl_inv_def ended_def handler_close_def)
  ultimately show ?thesis by (simp add: sv_inv_def)
qed

lemma handler_delete_inv:
  assumes "c \<in> sv_closing s" "sv_inv (s, w)"
  shows "sv_inv (handler_delete c s, w)"
proof -
  have i: "sock_inv s w" "ctl_inv s" using assms(2) by (simp_all add: sv_inv_def)
  then have "sock_inv (handler_delete c s) w"
    using assms(1) by (simp add: sock_inv_def os_wf_def handler_delete_def; elim conjE, (intro conjI impI)?; blast)
  moreover have "ctl_inv (handler_delete c s)" using i assms(1) by (simp add: ctl_inv_def ended_def handler_delete_def)
  ultimately show ?thesis by (simp add: sv_inv_def)
qed

lemma message_inv:
  assumes "0 < sv_messages s" "sv_inv (s, w)"
  shows "sv_inv (s\<lparr>sv_messages := sv_messages s - 1\<rparr>, w)"
proof -
  have i: "sock_inv s w" "ctl_inv s" using assms(2) by (simp_all add: sv_inv_def)
  then have "sock_inv (s\<lparr>sv_messages := sv_messages s - 1\<rparr>) w"
    using assms(1) by (simp add: sock_inv_def os_wf_def; elim conjE, (intro conjI impI)?; blast)
  moreover have "ctl_inv (s\<lparr>sv_messages := sv_messages s - 1\<rparr>)" using i assms(1) by (cases "sv_serving s") (auto simp: ctl_inv_def ended_def)
  ultimately show ?thesis by (simp add: sv_inv_def)
qed

lemma run_done_inv:
  assumes "sv_serving s = Some Draining" "sv_handlers s = {}" "sv_closing s = {}" "sv_messages s = 0" "sv_inv (s, w)"
  shows "sv_inv (run_done s, w)"
proof -
  have i: "sock_inv s w" "ctl_inv s" using assms(5) by (simp_all add: sv_inv_def)
  then have "sock_inv (run_done s) w"
    using assms(1-4) by (simp add: sock_inv_def os_wf_def run_done_def; elim conjE, (intro conjI impI)?; blast)
  moreover have "ctl_inv (run_done s)" using i assms(1-4) by (auto simp: ctl_inv_def sock_inv_def ended_def run_done_def)
  ultimately show ?thesis by (simp add: sv_inv_def)
qed

lemma run_step_inv: "run_step cerr x y \<Longrightarrow> sv_inv x \<Longrightarrow> sv_inv y"
  by (erule run_stepE) (simp_all add: loop_check_inv accept_conn_inv read_msg_inv accept_failed_inv adopt_conn_inv handler_close_inv
      handler_delete_inv message_inv [simplified] run_done_inv)

lemma closeListeners_world [simp]:
  "os_open (closeListeners cerr s w) = os_open w - listening s" "os_next (closeListeners cerr s w) = os_next w"
  by (cases "sv_listener s"; simp add: closeListeners_def)+

lemma sv_Start_cases:
  obtains (refused) err where "sv_Start cerr e s w = (Some err, s, w)"
    | (unbound) err l where "sv_Start cerr e s w = (Some err, s\<lparr>sv_listener := l\<rparr>, w)" "l = (if sv_proto s = DcTCP then TypedNil else NilRef)"
        "\<not> sv_started s" "sv_done s \<noteq> Some False"
    | (closed) err where "sv_Start cerr e s w = (Some err, s\<lparr>sv_listener := Ref (os_next w)\<rparr>,
        snd (os_Close cerr (os_next w) (snd (os_socket w))))" "\<not> sv_started s" "sv_done s \<noteq> Some False"
    | (started) "sv_Start cerr e s w = (None, s\<lparr>sv_listener := Ref (os_next w), sv_cancelled := False, sv_started := True,
        sv_done := Some False, sv_serving := Some Checking, sv_reports := 0\<rparr>, snd (os_socket w))" "\<not> sv_started s" "sv_done s \<noteq> Some False"
proof (cases "st_ctxErr e \<noteq> None \<or> sv_started s \<or> sv_done s = Some False")
  case True
  then have "\<exists>err. sv_Start cerr e s w = (Some err, s, w)" by (auto simp: sv_Start_def)
  then show thesis using refused by blast
next
  case False
  show thesis
  proof (cases "st_bindErr e")
    case (Some err)
    with False show thesis
      by (intro unbound [of "ErrWrap ''binding DNSCrypt'' err" "if sv_proto s = DcTCP then TypedNil else NilRef"])
        (simp_all add: sv_Start_def listen_def closeListeners_def)
  next
    case None
    let ?err = "if sv_proto s = DcTCP then None else setUDPSocketOptions (st_windows e) (st_err6 e) (st_err4 e)"
    have l: "listen e (sv_proto s) w = (Ref (os_next w), ?err, snd (os_socket w))" using None by (simp add: listen_def os_socket_def)
    show thesis
    proof (cases ?err)
      case n: None
      from False have "sv_Start cerr e s w = (None, s\<lparr>sv_listener := Ref (os_next w), sv_cancelled := False, sv_started := True,
        sv_done := Some False, sv_serving := Some Checking, sv_reports := 0\<rparr>, snd (os_socket w))"
        by (simp add: sv_Start_def l n [simplified])
      with False show thesis by (intro started) simp_all
    next
      case e: (Some err)
      from False have "sv_Start cerr e s w = (Some (ErrWrap ''binding DNSCrypt'' err), s\<lparr>sv_listener := Ref (os_next w)\<rparr>,
        snd (os_Close cerr (os_next w) (snd (os_socket w))))"
        by (simp add: sv_Start_def l e closeListeners_def)
      with False show thesis by (intro closed) simp_all
    qed
  qed
qed

lemma idle_inv:
  assumes "sv_inv (s, w)" "\<not> sv_started s" "sv_done s \<noteq> Some False"
  shows "sv_serving s = None" "os_open w = {}" "sv_handlers s = {}" "sv_closing s = {}" "sv_tcpConns s = {}" "sv_messages s = 0"
proof -
  show s: "sv_serving s = None" using assms unfolding sv_inv_def ctl_inv_def by auto
  with assms show "os_open w = {}" by (simp add: sv_inv_def sock_inv_def)
  from s assms show "sv_tcpConns s = {}" "sv_messages s = 0" by (simp_all add: sv_inv_def ctl_inv_def)
  with assms show "sv_handlers s = {}" "sv_closing s = {}" by (auto simp: sv_inv_def sock_inv_def)
qed

lemma sv_Start_inv:
  assumes "sv_inv (s, w)"
  shows "sv_inv (snd (sv_Start cerr e s w))"
proof -
  have i: "sock_inv s w" "ctl_inv s" using assms by (simp_all add: sv_inv_def)
  note idle = idle_inv [OF assms]
  show ?thesis
  proof (cases rule: sv_Start_cases [of cerr e s w])
    case (refused err)
    with assms show ?thesis by simp
  next
    case (unbound err l)
    with i idle [OF unbound(3,4)] show ?thesis by (simp add: lifecycle_defs)
  next
    case (closed err)
    with i idle [OF closed(2,3)] show ?thesis by (simp add: lifecycle_defs os_wf_def)
  next
    case started
    with i idle [OF started(2,3)] show ?thesis by (simp add: lifecycle_defs os_wf_def)
  qed
qed

lemma sv_Shutdown_inv:
  assumes "sv_inv (s, w)"
  shows "sv_inv (snd (sv_Shutdown cerr s w))"
proof (cases "sv_started s \<and> sv_done s \<noteq> None")
  case True
  have i: "sock_inv s w" "ctl_inv s" using assms by (simp_all add: sv_inv_def)
  have x: "snd (sv_Shutdown cerr s w) = (s\<lparr>sv_started := False, sv_cancelled := True\<rparr>,
      (closeListeners cerr s w)\<lparr>os_open := os_open w - listening s - sv_tcpConns s\<rparr>)"
    using True closeListeners_world(1) [of cerr "s\<lparr>sv_started := False, sv_cancelled := True\<rparr>" w]
    by (auto simp: sv_Shutdown_def Let_def closeListeners_def)
  have "sock_inv (s\<lparr>sv_started := False, sv_cancelled := True\<rparr>)
      ((closeListeners cerr s w)\<lparr>os_open := os_open w - listening s - sv_tcpConns s\<rparr>)"
    using i(1) by (simp add: sock_inv_def os_wf_def; elim conjE, (intro conjI impI)?; blast)
  moreover have "ctl_inv (s\<lparr>sv_started := False, sv_cancelled := True\<rparr>)"
    using i(2) True by (auto simp: ctl_inv_def ended_def)
  ultimately show ?thesis by (simp add: x sv_inv_def)
next
  case False
  with assms show ?thesis by (auto simp: sv_Shutdown_def)
qed

lemma reach_inv: "reach cerr x \<Longrightarrow> sv_inv x"
proof (induction rule: reach.induct)
  case (New proto)
  then show ?case by (simp add: lifecycle_defs new_Server_def os_wf_def)
next
  case (Run x y)
  then show ?case by (blast intro: run_step_inv)
qed (simp_all add: sv_Start_inv sv_Shutdown_inv)

text \<open>
  C8.  The sockets of a DNSCrypt server.  Whatever was started, shut down, accepted and handled, in any order: every open socket is the
  listener, an accepted connection that is tracked, or the one connection just accepted; once the server is shut down only that last one can
  be open, and none at all when \<^verbatim>\<open>Shutdown\<close> has returned without an error.  A run that ended by itself has reported
  exactly one failure.
\<close>

theorem dnscrypt_sockets_owned:
  assumes "reach cerr (s, w)"
  shows "os_open w \<subseteq> listening s \<union> sv_tcpConns s \<union> adopting s \<and>
    (\<not> sv_started s \<longrightarrow> os_open w \<subseteq> adopting s) \<and>
    (\<not> sv_started s \<and> sv_join None s None \<longrightarrow> os_open w = {}) \<and>
    (sv_started s \<and> sv_done s = Some True \<longrightarrow> sv_reports s = 1)"
proof -
  have i: "sock_inv s w" "ctl_inv s" using reach_inv [OF assms] by (simp_all add: sv_inv_def)
  have "os_open w \<subseteq> listening s \<union> sv_tcpConns s \<union> adopting s" using i(1) unfolding sock_inv_def by blast
  moreover have "\<not> sv_started s \<longrightarrow> os_open w \<subseteq> adopting s" using i(1) unfolding sock_inv_def by blast
  moreover have "\<not> sv_started s \<and> sv_join None s None \<longrightarrow> os_open w = {}"
    using idle_inv(2) [OF reach_inv [OF assms]] by (auto simp: sv_join_def)
  moreover have "sv_started s \<and> sv_done s = Some True \<longrightarrow> sv_reports s = 1" using i(2) unfolding ctl_inv_def ended_def by blast
  ultimately show ?thesis by blast
qed

text \<open>A server that accepts a connection and is shut down before it adopts it.\<close>

abbreviation (input) "good_start \<equiv> \<lparr> st_ctxErr = None, st_bindErr = None, st_windows = False, st_err6 = None, st_err4 = None \<rparr>"

definition sample_accepting :: "Server \<times> os" where
  "sample_accepting = (let (_, s, w) = sv_Start (\<lambda>_. None) good_start (new_Server DcTCP) \<lparr> os_next = 0, os_open = {} \<rparr>;
     (s, w) = accept_conn (loop_check s) w in snd (sv_Shutdown (\<lambda>_. None) s w))"

lemma sample_accepting_eq:
  "sample_accepting = (\<lparr> sv_proto = DcTCP, sv_started = False, sv_cancelled = True, sv_done = Some False, sv_listener = Ref 0, sv_tcpConns = {},
     sv_serving = Some (Adopting 1), sv_handlers = {}, sv_closing = {}, sv_messages = 0, sv_reports = 0 \<rparr>, \<lparr> os_next = 2, os_open = {1} \<rparr>)"
  by code_simp

lemma sample_accepting_reach: "reach (\<lambda>_. None) sample_accepting"
proof -
  let ?c = "\<lambda>_ :: nat. None :: error option"
  obtain s1 w1 where 1: "snd (sv_Start ?c good_start (new_Server DcTCP) \<lparr> os_next = 0, os_open = {} \<rparr>) = (s1, w1)" by fastforce
  then have s1: "sv_serving s1 = Some Checking" "sv_started s1" "sv_proto s1 = DcTCP" "sv_listener s1 = Ref 0" "0 \<in> os_open w1"
    by (auto simp: sv_Start_def listen_def os_socket_def new_Server_def)
  have "reach ?c (s1, w1)" using reach.Start [OF reach.New] 1 by metis
  then have "reach ?c (loop_check s1, w1)" using s1(1) by (blast intro: reach.Run run_step.Check)
  moreover have "sv_serving (loop_check s1) = Some Accepting" "sv_proto (loop_check s1) = DcTCP" "sv_listener (loop_check s1) = Ref 0"
    using s1 by (simp_all add: loop_check_def)
  ultimately have "reach ?c (accept_conn (loop_check s1) w1)" using s1(5) by (blast intro: reach.Run run_step.Accept)
  then have "reach ?c (snd (sv_Shutdown ?c (fst (accept_conn (loop_check s1) w1)) (snd (accept_conn (loop_check s1) w1))))"
    by (intro reach.Shutdown) simp
  then show ?thesis using 1 by (simp add: sample_accepting_def split_beta)
qed

theorem dnscrypt_sockets_owned_witness:
  "reach (\<lambda>_. None) sample_accepting \<and> os_open (snd sample_accepting) = {1} \<and> adopting (fst sample_accepting) = {1}"
  using dnscrypt_sockets_owned [of "\<lambda>_. None" "fst sample_accepting" "snd sample_accepting"] sample_accepting_reach
  by (auto simp: sample_accepting_eq)

subsection \<open>Shutting down ends\<close>

text \<open>What is left to do.\<close>

definition pending_steps :: "Server \<Rightarrow> nat" where
  "pending_steps s = (case sv_serving s of None \<Rightarrow> 0 | Some Draining \<Rightarrow> 1 | Some _ \<Rightarrow> 2) +
     2 * card (sv_handlers s) + card (sv_closing s) + sv_messages s"

lemma stopping_step:
  assumes "run_step cerr (s, w) (s', w')" "sv_inv (s, w)" "\<not> sv_started s"
  shows "\<not> sv_started s' \<and> pending_steps s' < pending_steps s"
proof -
  have i: "finite (sv_handlers s)" "finite (sv_closing s)" "sv_handlers s \<inter> sv_closing s = {}"
    using assms(2) by (simp_all add: sv_inv_def sock_inv_def)
  have closed: False if "sv_listener s = Ref l" "l \<in> os_open w" "sv_serving s = Some Accepting" for l
    using assms(2,3) that by (auto simp: sv_inv_def sock_inv_def)
  have card: "card (sv_handlers s - {c}) = card (sv_handlers s) - 1" "0 < card (sv_handlers s)" "c \<notin> sv_closing s" if "c \<in> sv_handlers s" for c
    using that i by (auto simp: card_gt_0_iff)
  have card': "card (sv_closing s - {c}) = card (sv_closing s) - 1" "0 < card (sv_closing s)" if "c \<in> sv_closing s" for c
    using that i by (auto simp: card_gt_0_iff)
  note d = pending_steps_def loop_check_def accept_failed_def leave_loop_def reportListenerFailure_def adopt_conn_def read_msg_def
    handler_close_def handler_delete_def run_done_def accept_conn_def
  from assms(1) show ?thesis
  proof (cases rule: run_step.cases)
    case (Close c)
    with assms(3) i card [of c] show ?thesis by (auto simp: d split: option.splits serving.splits)
  next
    case (Delete c)
    with assms(3) card' [of c] show ?thesis by (auto simp: d split: option.splits serving.splits)
  qed (use assms(3) closed in \<open>auto simp: d split: option.splits serving.splits\<close>)
qed

lemma stopping_progress:
  assumes "sv_inv (s, w)" "\<not> sv_started s" "sv_done s = Some False"
  shows "\<exists>y. run_step cerr (s, w) y"
proof -
  have "sv_serving s \<noteq> None" using assms unfolding sv_inv_def ctl_inv_def by simp
  then consider "sv_serving s = Some Checking" | "sv_serving s = Some Accepting" | c where "sv_serving s = Some (Adopting c)"
    | "sv_serving s = Some Draining"
    by (metis not_None_eq serving.exhaust)
  then show ?thesis
  proof cases
    case 4
    then show ?thesis
    proof (cases "sv_handlers s = {} \<and> sv_closing s = {} \<and> sv_messages s = 0")
      case True
      with 4 show ?thesis by (blast intro: run_step.Join)
    next
      case False
      then consider c where "c \<in> sv_handlers s" | c where "c \<in> sv_closing s" | "0 < sv_messages s" by blast
      then show ?thesis by cases (blast intro: run_step.intros)+
    qed
  qed (blast intro: run_step.intros)+
qed

text \<open>A schedule takes some enabled step as long as there is one.\<close>

definition schedule :: "(nat \<Rightarrow> error option) \<Rightarrow> (nat \<Rightarrow> Server \<times> os) \<Rightarrow> bool" where
  "schedule cerr f \<longleftrightarrow> (\<forall>i. run_step cerr (f i) (f (Suc i)) \<or> f (Suc i) = f i \<and> (\<nexists>y. run_step cerr (f i) y))"

lemma schedule_stops:
  assumes "schedule cerr f" "sv_inv (f i)" "\<not> sv_started (fst (f i))"
  shows "sv_inv (f (Suc i)) \<and> \<not> sv_started (fst (f (Suc i))) \<and>
    (pending_steps (fst (f (Suc i))) < pending_steps (fst (f i)) \<or> f (Suc i) = f i \<and> sv_done (fst (f i)) \<noteq> Some False)"
proof (cases "run_step cerr (f i) (f (Suc i))")
  case True
  obtain s w s' w' where x: "f i = (s, w)" "f (Suc i) = (s', w')" by (cases "f i"; cases "f (Suc i)")
  with True assms(2,3) stopping_step [of cerr s w s' w'] run_step_inv [OF True assms(2)] show ?thesis by simp
next
  case False
  with assms(1) have "f (Suc i) = f i" "\<nexists>y. run_step cerr (f i) y" unfolding schedule_def by blast+
  with assms(2,3) stopping_progress [of "fst (f i)" "snd (f i)" cerr] show ?thesis by auto
qed

lemma schedule_bound:
  assumes "schedule cerr f" "sv_inv (f 0)" "\<not> sv_started (fst (f 0))"
  shows "sv_inv (f i) \<and> \<not> sv_started (fst (f i)) \<and> (sv_done (fst (f i)) = Some False \<longrightarrow> pending_steps (fst (f i)) + i \<le> pending_steps (fst (f 0)))"
proof (induction i)
  case (Suc i)
  then have s: "sv_inv (f (Suc i))" "\<not> sv_started (fst (f (Suc i)))"
    "pending_steps (fst (f (Suc i))) < pending_steps (fst (f i)) \<or> f (Suc i) = f i \<and> sv_done (fst (f i)) \<noteq> Some False"
    using schedule_stops [OF assms(1), of i] by blast+
  have "sv_done (fst (f i)) = Some False" if "pending_steps (fst (f (Suc i))) < pending_steps (fst (f i))"
  proof (rule ccontr)
    assume "sv_done (fst (f i)) \<noteq> Some False"
    with Suc idle_inv [of "fst (f i)" "snd (f i)"] have "pending_steps (fst (f i)) = 0" by (simp add: pending_steps_def)
    with that show False by simp
  qed
  with Suc s show ?case by auto
qed (use assms in simp)

lemma run_step_done: "run_step cerr (s, w) (s', w') \<Longrightarrow> sv_done s \<noteq> None \<Longrightarrow> sv_done s' \<noteq> None"
  by (erule run_stepE) (auto simp: loop_check_def accept_failed_def leave_loop_def reportListenerFailure_def adopt_conn_def read_msg_def
      handler_close_def handler_delete_def run_done_def accept_conn_def os_socket_def split: if_splits)

lemma schedule_done:
  assumes "schedule cerr f" "sv_done (fst (f 0)) \<noteq> None"
  shows "sv_done (fst (f i)) \<noteq> None"
proof (induction i)
  case (Suc i)
  obtain s w s' w' where x: "f i = (s, w)" "f (Suc i) = (s', w')" by (cases "f i"; cases "f (Suc i)")
  from assms(1) have "run_step cerr (s, w) (s', w') \<or> (s', w') = (s, w)" unfolding schedule_def x [symmetric] by blast
  with Suc x run_step_done [of cerr s w s' w'] show ?case by auto
qed (use assms in simp)

text \<open>
  C9.  Shutting a DNSCrypt server down ends.  From every state a server can be in, however the goroutines are scheduled
  after \<^verbatim>\<open>Shutdown\<close> and whatever accepting returns, after a number of steps that is known when it begins, all goroutines have returned, no socket is open,
  and waiting for the end succeeds; this stays so.  What it takes is that the handler of each message returns.
\<close>

theorem dnscrypt_shutdown_terminates:
  assumes "reach cerr (s, w)" "sv_done s \<noteq> None" "schedule cerr f" "f 0 = snd (sv_Shutdown cerr s w)"
    and "i > pending_steps (fst (f 0))"
  shows "sv_join None (fst (f i)) None \<and> os_open (snd (f i)) = {} \<and> sv_handlers (fst (f i)) = {} \<and> sv_messages (fst (f i)) = 0"
proof -
  have inv: "sv_inv (f 0)" using sv_Shutdown_inv [OF reach_inv [OF assms(1)]] assms(4) by simp
  have s: "\<not> sv_started (fst (f 0))" "sv_done (fst (f 0)) \<noteq> None" using assms(2,4) by (auto simp: sv_Shutdown_def Let_def)
  have b: "sv_inv (fst (f i), snd (f i))" "\<not> sv_started (fst (f i))" "sv_done (fst (f i)) \<noteq> Some False"
    using schedule_bound [OF assms(3) inv s(1), of i] assms(5) by auto
  have "sv_done (fst (f i)) = Some True" using schedule_done [OF assms(3) s(2), of i] b(3) by auto
  with idle_inv [OF b] show ?thesis by (simp add: sv_join_def)
qed

text \<open>The connection is closed, then the channel.\<close>

definition sample_schedule :: "nat \<Rightarrow> Server \<times> os" where
  "sample_schedule i = (let (s, w) = sample_accepting; (s1, w1) = adopt_conn (\<lambda>_. None) 1 s w in
     if i = 0 then (s, w) else if i = 1 then (s1, w1) else (run_done s1, w1))"

lemma sample_schedule_ok: "schedule (\<lambda>_. None) sample_schedule"
  unfolding schedule_def
proof
  fix i
  let ?c = "\<lambda>_ :: nat. None :: error option"
  obtain s1 w1 where 1: "adopt_conn ?c 1 (fst sample_accepting) (snd sample_accepting) = (s1, w1)" by fastforce
  then have s1: "sv_serving s1 = Some Draining" "sv_handlers s1 = {}" "sv_closing s1 = {}" "sv_messages s1 = 0"
    by (auto simp: adopt_conn_def sample_accepting_eq leave_loop_def reportListenerFailure_def)
  have f: "sample_schedule 0 = sample_accepting" "sample_schedule (Suc 0) = (s1, w1)" "\<And>j. sample_schedule (Suc (Suc j)) = (run_done s1, w1)"
    using 1 by (simp_all add: sample_schedule_def split_beta)
  have "sv_serving (fst sample_accepting) = Some (Adopting 1)" by (simp add: sample_accepting_eq)
  then have a: "run_step ?c sample_accepting (s1, w1)" using run_step.Adopt [of "fst sample_accepting" 1 ?c "snd sample_accepting"] 1 by simp
  have b: "run_step ?c (s1, w1) (run_done s1, w1)" using s1 by (blast intro: run_step.Join)
  have c: "\<nexists>y. run_step ?c (run_done s1, w1) y" using s1 by (auto simp: run_done_def elim!: run_stepE)
  consider "i = 0" | "i = Suc 0" | j where "i = Suc (Suc j)" by (metis nat.exhaust)
  then show "run_step ?c (sample_schedule i) (sample_schedule (Suc i)) \<or>
      sample_schedule (Suc i) = sample_schedule i \<and> (\<nexists>y. run_step ?c (sample_schedule i) y)"
    by cases (use a b c in \<open>simp_all add: f\<close>)
qed

theorem dnscrypt_shutdown_terminates_witness:
  "sv_join None (fst (sample_schedule 9)) None \<and> os_open (snd (sample_schedule 9)) = {}"
proof -
  have "snd (sv_Shutdown (\<lambda>_. None) (fst sample_accepting) (snd sample_accepting)) = sample_accepting"
    by (simp add: sv_Shutdown_def sample_accepting_eq)
  then have 0: "sample_schedule 0 = snd (sv_Shutdown (\<lambda>_. None) (fst sample_accepting) (snd sample_accepting))"
    by (simp add: sample_schedule_def split_beta)
  have "pending_steps (fst (sample_schedule 0)) < 9"
    by (simp add: sample_schedule_def split_beta) (simp add: pending_steps_def sample_accepting_eq)
  with dnscrypt_shutdown_terminates [OF _ _ sample_schedule_ok 0, of 9] sample_accepting_reach show ?thesis
    by (simp add: sample_accepting_eq)
qed

text \<open>
  A start over TCP that cannot bind leaves an interface that holds a nil pointer in the field of the listener; asking for the
  address then panics.
\<close>

lemma local_addr_panics:
  assumes "st_ctxErr e = None" "st_bindErr e = Some err" "\<not> sv_started s" "sv_done s \<noteq> Some False" "sv_proto s = DcTCP"
  shows "LocalAddr (fst (snd (sv_Start cerr e s w))) = None"
  using assms by (simp add: sv_Start_def listen_def LocalAddr_def Let_def)

end
