(* ===== verification/Spec2Isabelle.thy ===== *)
theory Spec2Isabelle
  imports Pending_Requests Bootstrap_Resolver Upstream_Dot Upstream_Doq Upstream_Doh Upstream_Dnscrypt Server_Stream Server_Doq Server_Doh Dnscrypt_Server Dnscrypt_Lifecycle
begin

text \<open>
  Header to be completed.
\<close>

end
